(* ===== verification/Prelude.thy ===== *)
theory Prelude
  imports Main "HOL-Library.Word"
begin

text \<open>
  The vocabulary every component shares: machine integers at their Rust width, Rust
  strings as the bytes of their UTF-8 encoding (a HOL \<open>char\<close> is one byte, so
  \<open>length\<close> is Rust's \<open>str::len\<close>), the \<open>?\<close> operator and \<open>bail!\<close> on a sum
  type, the string functions of the standard library that the program calls, and the
  lemmas about them that the component proofs use. \<open>usize\<close> has 64 bits, as on the
  x86_64 and AArch64 targets.
\<close>

named_theorems result_simps \<open>inversion of the error-propagation combinators\<close>
named_theorems text_simps \<open>rewrite rules of the string functions\<close>
named_theorems step_intros \<open>introduction rules of the step relations\<close>

section \<open>Integers and strings\<close>

type_synonym u16 = "16 word"
type_synonym u32 = "32 word"
type_synonym u64 = "64 word"
type_synonym usize = "64 word"
type_synonym bytes = string

definition saturating_add :: "'a::len word \<Rightarrow> 'a word \<Rightarrow> 'a word" where
  "saturating_add a b = (if unat a + unat b < 2 ^ LENGTH('a) then a + b else - 1)"

definition saturating_sub :: "'a::len word \<Rightarrow> 'a word \<Rightarrow> 'a word" where
  "saturating_sub a b = (if b \<le> a then a - b else 0)"

definition len_usize :: "string \<Rightarrow> usize" where
  "len_usize s = of_nat (length s)"

text \<open>A string literal that is not ASCII, given by the bytes of its UTF-8 encoding.\<close>

definition utf8 :: "nat list \<Rightarrow> string" where
  "utf8 = map char_of"

definition starts_with :: "string \<Rightarrow> string \<Rightarrow> bool" where
  "starts_with p s = (take (length p) s = p)"

definition ends_with :: "string \<Rightarrow> string \<Rightarrow> bool" where
  "ends_with p s = starts_with (rev p) (rev s)"

definition strip_prefix :: "string \<Rightarrow> string \<Rightarrow> string option" where
  "strip_prefix p s = (if starts_with p s then Some (drop (length p) s) else None)"

definition contains_any :: "char list \<Rightarrow> string \<Rightarrow> bool" where
  "contains_any cs s = list_ex (\<lambda>c. c \<in> set cs) s"

fun split_on :: "char \<Rightarrow> string \<Rightarrow> string list" where
  "split_on c [] = [[]]"
| "split_on c (x # xs) =
     (if x = c then [] # split_on c xs
      else (case split_on c xs of [] \<Rightarrow> [[x]] | w # ws \<Rightarrow> (x # w) # ws))"

fun join_with :: "string \<Rightarrow> string list \<Rightarrow> string" where
  "join_with sep [] = []"
| "join_with sep [w] = w"
| "join_with sep (w # ws) = w @ sep @ join_with sep ws"

definition trim_end_matches :: "char list \<Rightarrow> string \<Rightarrow> string" where
  "trim_end_matches cs s = rev (dropWhile (\<lambda>c. c \<in> set cs) (rev s))"

definition ascii_lower :: "char \<Rightarrow> char" where
  "ascii_lower c =
     (if 65 \<le> (of_char c :: nat) \<and> (of_char c :: nat) \<le> 90
      then char_of (of_char c + 32 :: nat) else c)"

definition to_ascii_lowercase :: "string \<Rightarrow> string" where
  "to_ascii_lowercase = map ascii_lower"

definition eq_ignore_ascii_case :: "string \<Rightarrow> string \<Rightarrow> bool" where
  "eq_ignore_ascii_case a b = (to_ascii_lowercase a = to_ascii_lowercase b)"

abbreviation NUL :: char where "NUL \<equiv> CHR 0x00"
abbreviation LF :: char where "LF \<equiv> CHR 0x0A"
abbreviation CR :: char where "CR \<equiv> CHR 0x0D"

text \<open>
  \<open>str::trim\<close> strips the characters of Unicode's \<open>White_Space\<close>; \<open>strip_blank\<close>
  removes one of them, by its UTF-8 encoding, from the front of a string.
\<close>

definition strip_blank :: "string \<Rightarrow> string option" where
  "strip_blank s =
     (case map (of_char :: char \<Rightarrow> nat) (take 3 s) of
        [] \<Rightarrow> None
      | b # bs \<Rightarrow>
          if b = 32 \<or> (9 \<le> b \<and> b \<le> 13) then Some (drop 1 s)
          else (case bs of
                  [] \<Rightarrow> None
                | c # cs \<Rightarrow>
                    if b = 0xC2 \<and> (c = 0x85 \<or> c = 0xA0) then Some (drop 2 s)
                    else (case cs of
                            [] \<Rightarrow> None
                          | d # _ \<Rightarrow>
                              if (b = 0xE1 \<and> c = 0x9A \<and> d = 0x80)
                                \<or> (b = 0xE2 \<and> c = 0x80 \<and>
                                    ((0x80 \<le> d \<and> d \<le> 0x8A) \<or> d = 0xA8 \<or> d = 0xA9 \<or> d = 0xAF))
                                \<or> (b = 0xE2 \<and> c = 0x81 \<and> d = 0x9F)
                                \<or> (b = 0xE3 \<and> c = 0x80 \<and> d = 0x80)
                              then Some (drop 3 s) else None)))"

text \<open>\<open>s.trim().is_empty()\<close>; each round removes at least one byte, so the length is fuel enough.\<close>

fun blank_fuel :: "nat \<Rightarrow> string \<Rightarrow> bool" where
  "blank_fuel 0 s = (s = [])"
| "blank_fuel (Suc n) s =
     (if s = [] then True
      else (case strip_blank s of None \<Rightarrow> False | Some t \<Rightarrow> blank_fuel n t))"

definition is_blank :: "string \<Rightarrow> bool" where
  "is_blank s = blank_fuel (length s) s"

section \<open>Error propagation\<close>

text \<open>\<open>Inl\<close> is \<open>Err\<close>, \<open>Inr\<close> is \<open>Ok\<close>. \<open>and_then r f\<close> is \<open>let x = r?; f x\<close>.\<close>

definition and_then :: "'e + 'a \<Rightarrow> ('a \<Rightarrow> 'e + 'b) \<Rightarrow> 'e + 'b" where
  "and_then r f = (case r of Inl e \<Rightarrow> Inl e | Inr x \<Rightarrow> f x)"

definition bail_if :: "bool \<Rightarrow> 'e \<Rightarrow> 'e + unit" where
  "bail_if b e = (if b then Inl e else Inr ())"

definition or_err :: "'a option \<Rightarrow> 'e \<Rightarrow> 'e + 'a" where
  "or_err r e = (case r of None \<Rightarrow> Inl e | Some x \<Rightarrow> Inr x)"

definition map_err :: "('e \<Rightarrow> 'f) \<Rightarrow> 'e + 'a \<Rightarrow> 'f + 'a" where
  "map_err f r = (case r of Inl e \<Rightarrow> Inl (f e) | Inr x \<Rightarrow> Inr x)"

definition is_ok :: "'e + 'a \<Rightarrow> bool" where
  "is_ok r = (case r of Inl _ \<Rightarrow> False | Inr _ \<Rightarrow> True)"

section \<open>Lemmas\<close>

lemma and_then_eq_Inr [result_simps]:
  "and_then r f = Inr y \<longleftrightarrow> (\<exists>x. r = Inr x \<and> f x = Inr y)"
  by (auto simp: and_then_def split: sum.splits)

lemma and_then_eq_Inl [result_simps]:
  "and_then r f = Inl e \<longleftrightarrow> r = Inl e \<or> (\<exists>x. r = Inr x \<and> f x = Inl e)"
  by (auto simp: and_then_def split: sum.splits)

lemma and_then_simps [simp]:
  "and_then (Inl e) f = Inl e" "and_then (Inr x) f = f x"
  by (simp_all add: and_then_def)

lemma bail_if_eq [result_simps]:
  "bail_if b e = Inr u \<longleftrightarrow> \<not> b" "bail_if b e = Inl e' \<longleftrightarrow> b \<and> e' = e"
  by (auto simp: bail_if_def)

lemma bail_if_simps [simp]: "bail_if False e = Inr ()" "bail_if True e = Inl e"
  by (simp_all add: bail_if_def)

lemma or_err_eq [result_simps]:
  "or_err r e = Inr x \<longleftrightarrow> r = Some x" "or_err r e = Inl e' \<longleftrightarrow> r = None \<and> e' = e"
  by (auto simp: or_err_def split: option.splits)

lemma or_err_simps [simp]: "or_err None e = Inl e" "or_err (Some x) e = Inr x"
  by (simp_all add: or_err_def)

lemma map_err_eq [result_simps]:
  "map_err f r = Inr x \<longleftrightarrow> r = Inr x"
  "map_err f r = Inl e' \<longleftrightarrow> (\<exists>e. r = Inl e \<and> e' = f e)"
  by (auto simp: map_err_def split: sum.splits)

lemma map_err_simps [simp]: "map_err f (Inl e) = Inl (f e)" "map_err f (Inr x) = Inr x"
  by (simp_all add: map_err_def)

lemma is_ok_simps [simp]: "is_ok (Inl e) = False" "is_ok (Inr x) = True"
  by (simp_all add: is_ok_def)

lemma is_ok_iff: "is_ok r \<longleftrightarrow> (\<exists>x. r = Inr x)"
  by (cases r) auto

lemma starts_with_Nil [simp]: "starts_with [] s"
  by (simp add: starts_with_def)

lemma starts_with_Cons [simp]:
  "starts_with (c # cs) [] = False"
  "starts_with (c # cs) (x # xs) = (c = x \<and> starts_with cs xs)"
  by (auto simp: starts_with_def)

lemma starts_with_append [simp]: "starts_with p (p @ s)"
  by (simp add: starts_with_def)

lemma strip_prefix_Some [text_simps]: "strip_prefix p s = Some t \<longleftrightarrow> s = p @ t"
  by (auto simp: strip_prefix_def starts_with_def split: if_splits)
    (metis append_take_drop_id)

lemma contains_any_simps [simp]:
  "contains_any cs [] = False"
  "contains_any cs (x # xs) = (x \<in> set cs \<or> contains_any cs xs)"
  by (simp_all add: contains_any_def)

lemma contains_any_iff [text_simps]: "contains_any cs s \<longleftrightarrow> (\<exists>c\<in>set cs. c \<in> set s)"
  by (induction s) auto

lemma contains_any_append [simp]:
  "contains_any cs (a @ b) = (contains_any cs a \<or> contains_any cs b)"
  by (induction a) auto

lemma split_on_nonempty [simp]: "split_on c s \<noteq> []"
  by (induction s) (auto split: list.splits)

lemma split_on_no_sep [simp]: "c \<notin> set s \<Longrightarrow> split_on c s = [s]"
  by (induction s) auto

lemma split_on_append_sep: "c \<notin> set a \<Longrightarrow> split_on c (a @ c # b) = a # split_on c b"
  by (induction a) auto

lemma join_split_on: "join_with [c] (split_on c s) = s"
proof (induction s)
  case Nil
  then show ?case by simp
next
  case (Cons x xs)
  obtain w ws where "split_on c xs = w # ws"
    by (cases "split_on c xs") auto
  with Cons show ?case by (cases ws) auto
qed

lemma split_on_parts: "w \<in> set (split_on c s) \<Longrightarrow> c \<notin> set w"
  by (induction s arbitrary: w) (fastforce split: list.splits if_splits)+

lemma trim_end_matches_spec:
  "\<exists>t. s = trim_end_matches cs s @ t \<and> set t \<subseteq> set cs"
proof -
  have "rev s = takeWhile (\<lambda>c. c \<in> set cs) (rev s) @ dropWhile (\<lambda>c. c \<in> set cs) (rev s)"
    by simp
  then have "s = rev (dropWhile (\<lambda>c. c \<in> set cs) (rev s)) @ rev (takeWhile (\<lambda>c. c \<in> set cs) (rev s))"
    by (metis rev_append rev_rev_ident)
  moreover have "set (takeWhile (\<lambda>c. c \<in> set cs) (rev s)) \<subseteq> set cs"
    by (auto dest: set_takeWhileD)
  ultimately show ?thesis
    unfolding trim_end_matches_def by (metis set_rev)
qed

lemma unat_saturating_add:
  fixes a b :: "'a::len word"
  shows "unat (saturating_add a b) = min (unat a + unat b) (2 ^ LENGTH('a) - 1)"
proof (cases "unat a + unat b < 2 ^ LENGTH('a)")
  case True
  then show ?thesis by (simp add: saturating_add_def unat_word_ariths)
next
  case False
  then show ?thesis by (simp add: saturating_add_def unsigned_minus_1_eq_mask mask_eq_exp_minus_1)
qed

lemma unat_saturating_sub: "unat (saturating_sub a b) = unat a - unat b"
  by (auto simp: saturating_sub_def unat_sub word_le_nat_alt)

end
