(* ===== verification/Std.thy ===== *)
theory Std
  imports Prelude
begin

text \<open>
  The parts of Rust's standard library that the program leans on and whose behaviour its
  properties depend on: \<open>std::path\<close> on Unix, \<open>std::net::IpAddr\<close>, \<open>BufRead::lines\<close>
  with its UTF-8 check, and \<open>std::time::Instant\<close>. A path is the string of its bytes;
  \<open>Path\<close> compares by components, so a path rebuilt from its components
  (\<open>path_of\<close>) is the same path.
\<close>

section \<open>Paths\<close>

datatype path_component = RootDir | CurDir | ParentDir | NormalComp string

definition segment_components :: "string \<Rightarrow> path_component list" where
  "segment_components s =
     (if s = '''' \<or> s = ''.'' then [] else if s = ''..'' then [ParentDir] else [NormalComp s])"

definition path_components :: "string \<Rightarrow> path_component list" where
  "path_components p =
     (let segs = split_on CHR ''/'' p in
      (if starts_with ''/'' p then [RootDir] else if hd segs = ''.'' then [CurDir] else [])
      @ concat (map segment_components segs))"

fun component_text :: "path_component \<Rightarrow> string" where
  "component_text RootDir = ''/''"
| "component_text CurDir = ''.''"
| "component_text ParentDir = ''..''"
| "component_text (NormalComp s) = s"

definition path_of :: "path_component list \<Rightarrow> string" where
  "path_of cs =
     (case cs of
        RootDir # rest \<Rightarrow> ''/'' @ join_with ''/'' (map component_text rest)
      | _ \<Rightarrow> join_with ''/'' (map component_text cs))"

definition is_absolute :: "string \<Rightarrow> bool" where
  "is_absolute p = starts_with ''/'' p"

definition path_join :: "string \<Rightarrow> string \<Rightarrow> string" where
  "path_join base v =
     (if is_absolute v then v
      else if base = [] \<or> ends_with ''/'' base then base @ v
      else base @ ''/'' @ v)"

definition path_parent :: "string \<Rightarrow> string option" where
  "path_parent p =
     (case rev (path_components p) of
        [] \<Rightarrow> None
      | RootDir # _ \<Rightarrow> None
      | _ # rest \<Rightarrow> Some (path_of (rev rest)))"

definition path_file_name :: "string \<Rightarrow> string option" where
  "path_file_name p =
     (case rev (path_components p) of NormalComp s # _ \<Rightarrow> Some s | _ \<Rightarrow> None)"

definition rsplit_dot :: "string \<Rightarrow> string option" where
  "rsplit_dot f =
     (case dropWhile (\<lambda>c. c \<noteq> CHR ''.'') (rev f) of
        [] \<Rightarrow> None
      | _ # before \<Rightarrow>
          if before = [] then None else Some (rev (takeWhile (\<lambda>c. c \<noteq> CHR ''.'') (rev f))))"

definition path_extension :: "string \<Rightarrow> string option" where
  "path_extension p = Option.bind (path_file_name p) rsplit_dot"

section \<open>IP addresses\<close>

datatype ip_addr = V4 "32 word" | V6 "128 word"

text \<open>\<open>IpAddr\<close> is ordered: IPv4 before IPv6, then by value.\<close>

instantiation ip_addr :: linorder
begin

fun less_eq_ip_addr :: "ip_addr \<Rightarrow> ip_addr \<Rightarrow> bool" where
  "less_eq_ip_addr (V4 a) (V4 b) = (a \<le> b)"
| "less_eq_ip_addr (V4 a) (V6 b) = True"
| "less_eq_ip_addr (V6 a) (V4 b) = False"
| "less_eq_ip_addr (V6 a) (V6 b) = (a \<le> b)"

definition less_ip_addr :: "ip_addr \<Rightarrow> ip_addr \<Rightarrow> bool" where
  "less_ip_addr a b \<longleftrightarrow> a \<le> b \<and> \<not> b \<le> a"

instance
proof
  fix x y z :: ip_addr
  show "x \<le> x" by (cases x) auto
  show "x \<le> y \<Longrightarrow> y \<le> z \<Longrightarrow> x \<le> z" by (cases x; cases y; cases z) auto
  show "x \<le> y \<Longrightarrow> y \<le> x \<Longrightarrow> x = y" by (cases x; cases y) auto
  show "x \<le> y \<or> y \<le> x" by (cases x; cases y) auto
qed (simp add: less_ip_addr_def)

end

definition to_ipv4_mapped :: "128 word \<Rightarrow> 32 word option" where
  "to_ipv4_mapped a = (if drop_bit 32 a = 0xFFFF then Some (ucast a) else None)"

fun is_loopback :: "ip_addr \<Rightarrow> bool" where
  "is_loopback (V4 a) = (drop_bit 24 a = 127)"
| "is_loopback (V6 a) = (a = 1)"

section \<open>Lines and UTF-8\<close>

definition utf8_cont :: "nat \<Rightarrow> bool" where
  "utf8_cont b = (0x80 \<le> b \<and> b \<le> 0xBF)"

text \<open>The well-formed byte sequences of Unicode's table 3-7, as \<open>String::from_utf8\<close> checks them.\<close>

fun utf8_ok :: "nat list \<Rightarrow> bool" where
  "utf8_ok [] = True"
| "utf8_ok (b # bs) =
     (if b < 0x80 then utf8_ok bs
      else (case bs of
              [] \<Rightarrow> False
            | c # r1 \<Rightarrow>
                if 0xC2 \<le> b \<and> b \<le> 0xDF then utf8_cont c \<and> utf8_ok r1
                else (case r1 of
                        [] \<Rightarrow> False
                      | d # r2 \<Rightarrow>
                          if (b = 0xE0 \<and> 0xA0 \<le> c \<and> c \<le> 0xBF)
                            \<or> (0xE1 \<le> b \<and> b \<le> 0xEC \<and> utf8_cont c)
                            \<or> (b = 0xED \<and> 0x80 \<le> c \<and> c \<le> 0x9F)
                            \<or> (0xEE \<le> b \<and> b \<le> 0xEF \<and> utf8_cont c)
                          then utf8_cont d \<and> utf8_ok r2
                          else (case r2 of
                                  [] \<Rightarrow> False
                                | e # r3 \<Rightarrow>
                                    ((b = 0xF0 \<and> 0x90 \<le> c \<and> c \<le> 0xBF)
                                      \<or> (0xF1 \<le> b \<and> b \<le> 0xF3 \<and> utf8_cont c)
                                      \<or> (b = 0xF4 \<and> 0x80 \<le> c \<and> c \<le> 0x8F))
                                    \<and> utf8_cont d \<and> utf8_cont e \<and> utf8_ok r3))))"

definition utf8_valid :: "bytes \<Rightarrow> bool" where
  "utf8_valid s = utf8_ok (map of_char s)"

definition strip_cr :: "string \<Rightarrow> string" where
  "strip_cr s = (if ends_with [CR] s then butlast s else s)"

text \<open>
  The pieces \<open>BufRead::lines\<close> yields: each line without its line feed and without one
  carriage return before it; the rest after the last line feed only when it is not empty.
\<close>

definition raw_lines :: "bytes \<Rightarrow> string list" where
  "raw_lines s =
     (let ps = split_on LF s in
      map strip_cr (butlast ps) @ (if last ps = [] then [] else [last ps]))"

section \<open>Clocks\<close>

text \<open>
  An \<open>Instant\<close> is a number of nanoseconds on the monotonic clock. Adding a duration
  that leaves the range of the clock panics, which \<open>None\<close> stands for; the largest
  representable instant differs between platforms and is an argument.
\<close>

type_synonym instant = nat

definition nanos_per_sec :: nat where
  "nanos_per_sec = 1000000000"

definition instant_add_secs :: "instant \<Rightarrow> instant \<Rightarrow> u64 \<Rightarrow> instant option" where
  "instant_add_secs imax now secs =
     (if now + unat secs * nanos_per_sec \<le> imax then Some (now + unat secs * nanos_per_sec)
      else None)"

section \<open>Lemmas\<close>

lemma ends_with_single [text_simps]: "ends_with [c] s \<longleftrightarrow> s \<noteq> [] \<and> last s = c"
  by (cases s rule: rev_cases) (auto simp: ends_with_def)

lemma ends_with_slash_join: "is_absolute base \<Longrightarrow> is_absolute (path_join base v)"
  by (cases base) (auto simp: path_join_def is_absolute_def)

lemma path_join_absolute [simp]: "is_absolute v \<Longrightarrow> path_join base v = v"
  by (simp add: path_join_def)

lemma strip_cr_id [simp]: "CR \<notin> set s \<Longrightarrow> strip_cr s = s"
  by (auto simp: strip_cr_def text_simps dest: last_in_set)

lemma utf8_ok_ascii: "\<forall>b\<in>set bs. b < 128 \<Longrightarrow> utf8_ok bs"
  by (induction bs) auto

lemma split_on_snoc_sep: "split_on c (s @ [c]) = split_on c s @ [[]]"
proof (induction s)
  case Nil
  then show ?case by simp
next
  case (Cons x xs)
  then show ?case by (auto split: list.splits)
qed

lemma split_on_append_line:
  assumes "c \<notin> set l"
  shows "split_on c (s @ c # l @ [c]) = split_on c s @ [l, []]"
proof (induction s)
  case Nil
  from assms show ?case by (simp add: split_on_snoc_sep)
next
  case (Cons x xs)
  then show ?case by (auto split: list.splits)
qed

lemma raw_lines_Nil [simp]: "raw_lines [] = []"
  by (simp add: raw_lines_def)

lemma raw_lines_single: "LF \<notin> set l \<Longrightarrow> raw_lines (l @ [LF]) = [strip_cr l]"
  by (simp add: raw_lines_def split_on_snoc_sep)

text \<open>Appending a terminated line to a file that ends in a line feed adds exactly that line.\<close>

lemma raw_lines_append_line:
  assumes "s = [] \<or> last s = LF" and "LF \<notin> set l"
  shows "raw_lines (s @ l @ [LF]) = raw_lines s @ [strip_cr l]"
proof (cases s rule: rev_cases)
  case Nil
  with assms show ?thesis by (simp add: raw_lines_single)
next
  case (snoc t x)
  with assms(1) have "x = LF" by auto
  with snoc assms(2) have "split_on LF (s @ l @ [LF]) = split_on LF t @ [l, []]"
    using split_on_append_line [of LF l t] by simp
  moreover have "split_on LF s = split_on LF t @ [[]]"
    using snoc \<open>x = LF\<close> by (simp add: split_on_snoc_sep)
  ultimately show ?thesis
    by (simp add: raw_lines_def butlast_append)
qed

lemma split_on_line: "c \<notin> set l \<Longrightarrow> split_on c (l @ c # s) = l # split_on c s"
  by (induction l) auto

lemma split_on_single: "c \<notin> set l \<Longrightarrow> split_on c l = [l]"
  by (induction l) auto

text \<open>A file of terminated lines and a rest.\<close>

definition line_file :: "string list \<Rightarrow> string \<Rightarrow> bytes" where
  "line_file ls rest = concat (map (\<lambda>l. l @ [LF]) ls) @ rest"

lemma split_on_line_file:
  "\<forall>l\<in>set ls. LF \<notin> set l \<Longrightarrow> LF \<notin> set rest \<Longrightarrow> split_on LF (line_file ls rest) = ls @ [rest]"
  by (induction ls) (auto simp: line_file_def split_on_line split_on_single)

lemma raw_lines_file:
  assumes "\<forall>l\<in>set ls. LF \<notin> set l \<and> CR \<notin> set l" and "LF \<notin> set rest"
  shows "raw_lines (line_file ls rest) = ls @ (if rest = [] then [] else [rest])"
proof -
  have "map strip_cr ls = ls" using assms(1) by (intro map_idI) simp
  with split_on_line_file [of ls rest] assms show ?thesis by (simp add: raw_lines_def)
qed

lemma to_ipv4_mapped_Some:
  assumes "to_ipv4_mapped a = Some b"
  shows "a = push_bit 32 0xFFFF + ucast b"
proof -
  from assms have d: "drop_bit 32 a = 0xFFFF" and b: "b = ucast a"
    by (auto simp: to_ipv4_mapped_def split: if_splits)
  have "a = push_bit 32 (drop_bit 32 a) + take_bit 32 a"
    by (metis add.commute bits_ident)
  moreover have "take_bit 32 a = ucast b"
    by (simp add: b unsigned_ucast_eq)
  ultimately show ?thesis using d by simp
qed

end
