(* ===== verification/Model.thy ===== *)
theory Model
  imports Std
begin

text \<open>
  The data the components exchange (\<open>src/src/model.rs\<close>, and \<open>OutputEncoding\<close> of
  \<open>src/src/config.rs\<close>), with the functions \<open>model.rs\<close> defines on it. An
  \<open>anyhow::Error\<close> is a value of \<open>error\<close>, one constructor per \<open>bail!\<close> or
  \<open>context\<close> site with the values its text interpolates; a text shown to a client is a
  value of \<open>message\<close>, one constructor per literal. A UUID is its 128 bits; its
  hyphenated text is the \<open>uuid\<close> crate's, a parameter.
\<close>

section \<open>Enumerations\<close>

datatype task_status =
  Starting | Running | Stopping | Succeeded | Failed | TimedOut | Cancelled | Killed | Interrupted

fun is_finished :: "task_status \<Rightarrow> bool" where
  "is_finished Succeeded = True"
| "is_finished Failed = True"
| "is_finished TimedOut = True"
| "is_finished Cancelled = True"
| "is_finished Killed = True"
| "is_finished Interrupted = True"
| "is_finished _ = False"

datatype output_mode = Separate | CombinedMode

datatype stop_reason =
  Timeout | CancelledReason | ForceKilled | ServerShutdown | ServerRestart | ParentExited
  | LoggingFailure

fun stop_reason_text :: "stop_reason \<Rightarrow> string" where
  "stop_reason_text Timeout = ''timeout''"
| "stop_reason_text CancelledReason = ''cancelled''"
| "stop_reason_text ForceKilled = ''force_killed''"
| "stop_reason_text ServerShutdown = ''server_shutdown''"
| "stop_reason_text ServerRestart = ''server_restart''"
| "stop_reason_text ParentExited = ''parent_exited''"
| "stop_reason_text LoggingFailure = ''logging_failure''"

datatype output_stream = Stdout | Stderr | CombinedStream

fun stream_file_name :: "output_stream \<Rightarrow> string" where
  "stream_file_name Stdout = ''stdout.log''"
| "stream_file_name Stderr = ''stderr.log''"
| "stream_file_name CombinedStream = ''output.log''"

datatype output_encoding = Utf8 | Gbk | Utf16le

fun encoding_label :: "output_encoding \<Rightarrow> string" where
  "encoding_label Utf8 = ''utf-8''"
| "encoding_label Gbk = ''gbk''"
| "encoding_label Utf16le = ''utf-16le''"

section \<open>Errors and texts\<close>

datatype config_error =
    ConfigUnreadable string
  | YamlInvalid string
  | TotalConcurrencyZero
  | ShutdownTimeoutZero
  | RetentionZero
  | MaxOutputZero
  | RoutesEmpty
  | ServiceNameInvalid string
  | ConfigWithoutParent
  | LogDirectoryCreate string
  | LogDirectoryAccess string
  | ListenersConflict
  | ListenersEmpty
  | ListenerDuplicate ip_addr u16
  | CidrsEmpty
  | CooldownZero
  | TokenVariableInvalid
  | EnvironmentUnset string
  | DpapiFileMissing string
  | TlsFileMissing string string
  | TlsNotFile string string

datatype route_error =
    RoutePathShape string
  | RoutePathIllegal string
  | RoutePathReserved string
  | RouteConcurrencyZero string
  | RouteExecutionZero string
  | RouteGraceZero string
  | RouteCmdArguments string
  | RouteArgumentLimitsZero string
  | FixedArgumentNul string
  | LocalSystemNeedsAllowlist string
  | RouteDuplicate string
  | ScriptMissing string string
  | ScriptNotFile string string
  | ScriptWithoutParent
  | WorkingDirectoryMissing string string
  | WorkingDirectoryNotDir string string
  | PatternInvalid string string
  | ArgumentsNotAllowed string
  | ArgumentsTooMany usize
  | ArgumentNul
  | ArgumentTooLong usize
  | ArgumentNotListed
  | ArgumentsTotalTooLong usize

datatype secret_error =
    TokenTooShort
  | TokenTooLong
  | TokenControlCharacter
  | RoundsTooMany
  | RoundsTooFew
  | HashFailed
  | PhcInvalid
  | PhcWrongAlgorithm
  | PhcIncomplete
  | PhcBadParams
  | PhcOutputLength
  | PhcRoundsTooMany
  | DpapiFailed
  | DpapiUnsupported
  | KeyDirectoryCreate string
  | KeyWrite string
  | KeyRead string
  | KeyNotUtf8

datatype store_error =
    StoreDirectoryCreate string
  | LockOpen string
  | LockHeld string
  | TaskDirectoryCreate string
  | StoreIo string
  | SnapshotNotJson
  | LineNotUtf8 string
  | LimitOutOfRange
  | TaskMissing
  | TaskOutputSeparate
  | TaskOutputCombined
  | OutputFileMissing string
  | OffsetBeyondSize u64 u64

datatype process_error =
    PipeFailed
  | ExecutableUnknown
  | JobCreate
  | JobConfigure
  | WorkerSpawn
  | WorkerWithoutPid
  | WorkerWithoutHandle
  | JobAssign
  | TreeNotInitialised
  | GroupSignalFailed
  | JobTerminate
  | JobQuery
  | ControlPipeMissing
  | SpecNotJson
  | WorkerInitWrite
  | ControlFlush
  | WorkerWait
  | WorkerGracefulWait
  | WorkerForcedWait
  | ReaderCrashed
  | OutputOpenFailed
  | OutputReadFailed
  | OutputWriteFailed
  | WorkerInitRead
  | WorkerNoInit
  | WorkerInitInvalid
  | SigactionFailed
  | SubreaperFailed
  | ConsoleAlloc
  | ConsoleHandler
  | WorkerSigtermFailed
  | CtrlBreakFailed
  | ScriptSpawn string string
  | ScriptWait
  | DescendantsWait

datatype runtime_error =
    LoggingInit
  | LogDirectoryChanged
  | ServerFailed
  | ResourcesStuck
  | TlsCertificateUnreadable string
  | TlsCertificateInvalid
  | TlsCertificateEmpty
  | TlsKeyUnreadable string
  | TlsKeyInvalid
  | TlsKeyEmpty
  | TlsClientCaUnreadable string
  | TlsClientCaInvalid
  | TlsClientCaRejected
  | TlsClientCaEmpty
  | TlsVerifierFailed
  | TlsKeyMismatch

datatype service_error =
    ServiceUnsupported
  | ServiceConfigPathSet
  | ServiceNameSet
  | ServiceNameMissing
  | ServiceConfigPathMissing
  | ServiceDispatcher
  | ServiceRegister
  | ServiceStatus
  | ServiceRuntime
  | ServiceExecutable
  | ServiceManagerFailed
  | ServiceCreate
  | ServiceDescription
  | ServiceOpen
  | ServiceStart
  | ServiceStop
  | ServiceQuery
  | ServiceDelete

datatype cli_error =
    CliUsage
  | CliRuntime
  | StdinUnreadable
  | PromptFailed
  | TokensDiffer

datatype error =
    ConfigError config_error
  | RouteError route_error
  | SecretError secret_error
  | StoreError store_error
  | ProcessError process_error
  | RuntimeError runtime_error
  | ServiceError service_error
  | CliError cli_error

datatype message =
    M_ok
  | M_of_error error
  | M_source_ip_unavailable
  | M_source_ip_denied
  | M_token_failure_cooldown
  | M_unauthorized
  | M_global_limit
  | M_route_limit string usize
  | M_task_not_found
  | M_cancel_finished
  | M_cancel_accepted
  | M_kill_finished
  | M_kill_accepted
  | M_stop_accepted
  | M_restart_config_invalid error
  | M_restart_log_directory
  | M_restart_accepted
  | M_transition_in_progress
  | M_control_unavailable
  | M_not_found
  | M_executor_failed error
  | M_logging_failure
  | M_exit_nonzero "int option"
  | M_descendants_timeout
  | M_graceful_requested u64
  | M_forced_on_request
  | M_grace_over
  | M_forced_immediately
  | M_interrupted_at_restart

section \<open>Records\<close>

type_synonym uuid = "128 word"

record termination_info =
  reason :: stop_reason
  graceful_attempted :: bool
  forced :: bool
  term_method :: string
  term_signal :: "string option"
  term_message :: "message option"

record task_snapshot =
  task_id :: uuid
  route :: string
  status :: task_status
  output_mode :: output_mode
  output_encoding :: output_encoding
  created_at :: string
  started_at :: "string option"
  finished_at :: "string option"
  exit_code :: "int option"
  task_termination :: "termination_info option"
  error_text :: "message option"
  output_truncated :: bool

record output_sizes =
  size_stdout :: "u64 option"
  size_stderr :: "u64 option"
  size_combined :: "u64 option"

record task_links =
  link_status :: string
  link_stdout :: "string option"
  link_stderr :: "string option"
  link_combined :: "string option"
  link_cancel :: string
  link_kill :: string

record task_view =
  view_success :: bool
  view_task :: task_snapshot
  duration_ms :: nat
  output_bytes :: output_sizes
  links :: task_links

record execute_request =
  args :: "string list"

record accepted_task =
  accepted_success :: bool
  accepted_id :: uuid
  accepted_status :: task_status
  status_url :: string

record output_query =
  query_stream :: output_stream
  query_offset :: u64
  query_limit :: usize

record output_chunk =
  chunk_success :: bool
  chunk_task :: uuid
  chunk_stream :: output_stream
  chunk_encoding :: string
  chunk_offset :: u64
  next_offset :: u64
  chunk_eof :: bool
  chunk_content :: string
  decoding_errors :: bool
  content_base64 :: "string option"

datatype basic_data =
    IndexData string string string
  | MessageData message

record basic_response =
  basic_success :: bool
  basic_data :: basic_data

datatype status_code =
  OK | ACCEPTED | BAD_REQUEST | UNAUTHORIZED | FORBIDDEN | NOT_FOUND | CONFLICT
  | TOO_MANY_REQUESTS | INTERNAL_SERVER_ERROR | SERVICE_UNAVAILABLE

record api_error =
  api_status :: status_code
  api_code :: string
  api_message :: message

definition api_error_new :: "status_code \<Rightarrow> string \<Rightarrow> message \<Rightarrow> api_error" where
  "api_error_new st code msg = \<lparr>api_status = st, api_code = code, api_message = msg\<rparr>"

record api_error_body =
  body_success :: bool
  body_code :: string
  body_message :: message

definition api_error_into_response :: "api_error \<Rightarrow> status_code \<times> api_error_body" where
  "api_error_into_response e =
     (api_status e,
      \<lparr>body_success = False, body_code = api_code e, body_message = api_message e\<rparr>)"

section \<open>Time stamps\<close>

text \<open>
  What the program uses of the \<open>time\<close> crate: an \<open>OffsetDateTime\<close> is its distance to
  the Unix epoch in nanoseconds and a \<open>Duration\<close> a signed number of nanoseconds; RFC
  3339 formatting and parsing and the two roundings are parameters.
\<close>

record time_lib =
  format_rfc3339 :: "int \<Rightarrow> string option"
  parse_rfc3339 :: "string \<Rightarrow> int option"
  whole_seconds :: "int \<Rightarrow> int"
  whole_milliseconds :: "int \<Rightarrow> int"

text \<open>The \<open>expect\<close> on a formatting failure is the \<open>None\<close>.\<close>

definition now_rfc3339 :: "time_lib \<Rightarrow> int \<Rightarrow> string option" where
  "now_rfc3339 T now = format_rfc3339 T now"

definition elapsed_ms :: "time_lib \<Rightarrow> int \<Rightarrow> string \<Rightarrow> string option \<Rightarrow> nat" where
  "elapsed_ms T now start fin =
     (case parse_rfc3339 T start of
        None \<Rightarrow> 0
      | Some s \<Rightarrow>
          let e = (case Option.bind fin (parse_rfc3339 T) of Some t \<Rightarrow> t | None \<Rightarrow> now)
          in nat (max (whole_milliseconds T (e - s)) 0))"

definition default_output_limit :: usize where
  "default_output_limit = 64 * 1024"

text \<open>
  What the roundings of the \<open>time\<close> crate are documented to do: both truncate towards zero.
\<close>

definition time_lib_rounds :: "time_lib \<Rightarrow> bool" where
  "time_lib_rounds T \<longleftrightarrow>
     (\<forall>d. whole_seconds T d = sgn d * (\<bar>d\<bar> div 1000000000)) \<and>
     (\<forall>d. whole_milliseconds T d = sgn d * (\<bar>d\<bar> div 1000000))"

section \<open>Lemmas\<close>

lemma is_finished_iff:
  "is_finished s \<longleftrightarrow> s \<notin> {Starting, Running, Stopping}"
  by (cases s) auto

lemma stream_file_name_inj: "stream_file_name a = stream_file_name b \<longleftrightarrow> a = b"
  by (cases a; cases b) auto

lemma stop_reason_text_inj: "stop_reason_text a = stop_reason_text b \<longleftrightarrow> a = b"
  by (cases a; cases b) auto

end
