(* ===== verification/Secret.thy ===== *)
theory Secret
  imports Model
begin

text \<open>
  Tokens (\<open>src/src/secret.rs\<close>): what a token must look like, the verifier a running
  service holds (a SHA-256 fingerprint, or a PBKDF2 hash with the fingerprint of the first
  token that passed), the PHC string checks, and the DPAPI key file. SHA-256, the constant
  time comparison, PBKDF2 with its PHC strings and the Windows cryptography API are
  parameters (\<open>crypto_lib\<close>, \<open>dpapi_lib\<close>); \<open>ct_eq_ok\<close>, \<open>pbkdf2_ok\<close> and \<open>dpapi_ok\<close>
  state what their documentation promises.
\<close>

section \<open>Parameters\<close>

record phc_info =
  phc_algorithm :: string
  phc_has_salt :: bool
  phc_has_hash :: bool
  phc_params :: "(u32 \<times> nat) option"

record crypto_lib =
  sha256_digest :: "bytes \<Rightarrow> bytes"
  ct_eq :: "bytes \<Rightarrow> bytes \<Rightarrow> bool"
  phc_parse :: "string \<Rightarrow> phc_info option"
  pbkdf2_verify :: "string \<Rightarrow> bytes \<Rightarrow> bool"
  pbkdf2_params_new :: "u32 \<Rightarrow> bool"
  pbkdf2_hash :: "u32 \<Rightarrow> bytes \<Rightarrow> string option"
  recommended_output_length :: nat
  recommended_rounds :: u32
  min_rounds :: u32

datatype dpapi_scope = UserScope | MachineScope

datatype os = Unix | Windows

record dpapi_lib =
  crypt_protect_data :: "u32 \<Rightarrow> bytes \<Rightarrow> bytes option"
  crypt_unprotect_data :: "u32 \<Rightarrow> bytes \<Rightarrow> bytes option"
  ui_forbidden :: u32
  local_machine :: u32

text \<open>The files that \<open>fs::read\<close> and \<open>fs::write\<close> reach; a failed write leaves \<open>key_torn\<close>.\<close>

record key_files =
  key_file :: "string \<Rightarrow> bytes option"
  key_mkdir_ok :: "string \<Rightarrow> bool"
  key_write_ok :: "string \<Rightarrow> bool"
  key_torn :: "bytes option"

section \<open>Verifier\<close>

definition default_pbkdf2_sha256_rounds :: "crypto_lib \<Rightarrow> u32" where
  "default_pbkdf2_sha256_rounds C = recommended_rounds C"

definition min_pbkdf2_sha256_rounds :: "crypto_lib \<Rightarrow> u32" where
  "min_pbkdf2_sha256_rounds C = min_rounds C"

definition max_pbkdf2_sha256_rounds :: u32 where
  "max_pbkdf2_sha256_rounds = 1000000"

datatype token_verifier =
    Sha256V bytes
  | Pbkdf2V string "bytes option"

definition validate_token :: "string \<Rightarrow> error + unit" where
  "validate_token token =
     and_then (bail_if (length token < 32) (SecretError TokenTooShort)) (\<lambda>_.
     and_then (bail_if (length token > 4096) (SecretError TokenTooLong)) (\<lambda>_.
     bail_if (contains_any [CR, LF, NUL] token) (SecretError TokenControlCharacter)))"

definition token_fingerprint :: "crypto_lib \<Rightarrow> string \<Rightarrow> bytes" where
  "token_fingerprint C token = sha256_digest C token"

definition from_token :: "crypto_lib \<Rightarrow> string \<Rightarrow> token_verifier" where
  "from_token C token = Sha256V (token_fingerprint C token)"

definition validate_pbkdf2_sha256 :: "crypto_lib \<Rightarrow> string \<Rightarrow> error + unit" where
  "validate_pbkdf2_sha256 C phc =
     and_then (or_err (phc_parse C phc) (SecretError PhcInvalid)) (\<lambda>hash.
     and_then (bail_if (phc_algorithm hash \<noteq> ''pbkdf2-sha256'') (SecretError PhcWrongAlgorithm)) (\<lambda>_.
     and_then (bail_if (\<not> phc_has_salt hash \<or> \<not> phc_has_hash hash) (SecretError PhcIncomplete)) (\<lambda>_.
     and_then (or_err (phc_params hash) (SecretError PhcBadParams)) (\<lambda>(rounds, output_len).
     and_then (bail_if (output_len \<noteq> recommended_output_length C) (SecretError PhcOutputLength)) (\<lambda>_.
     bail_if (rounds > max_pbkdf2_sha256_rounds) (SecretError PhcRoundsTooMany))))))"

definition from_pbkdf2_sha256 :: "crypto_lib \<Rightarrow> string \<Rightarrow> error + token_verifier" where
  "from_pbkdf2_sha256 C phc =
     and_then (validate_pbkdf2_sha256 C phc) (\<lambda>_. Inr (Pbkdf2V phc None))"

text \<open>
  \<open>verify\<close> reads the cached fingerprint once at its start; a PBKDF2 check then runs on
  the blocking pool (\<open>joined\<close> says that its thread returned), and only after it is the
  fingerprint published. \<open>verify_start\<close> is everything up to the publication, with the
  fingerprint to publish; \<open>verify_publish\<close> is \<open>OnceLock::set\<close>, which keeps a value
  another request has set meanwhile.
\<close>

definition verify_start :: "crypto_lib \<Rightarrow> bool \<Rightarrow> token_verifier \<Rightarrow> string \<Rightarrow> bool \<times> bytes option" where
  "verify_start C joined v token =
     (if length token > 4096 \<or> contains_any [CR, LF, NUL] token then (False, None)
      else
        let supplied = token_fingerprint C token in
        (case v of
           Sha256V expected \<Rightarrow> (ct_eq C supplied expected, None)
         | Pbkdf2V phc (Some expected) \<Rightarrow> (ct_eq C supplied expected, None)
         | Pbkdf2V phc None \<Rightarrow>
             let verified = joined \<and> (case phc_parse C phc of
                              None \<Rightarrow> False
                            | Some _ \<Rightarrow> pbkdf2_verify C phc token)
             in (verified, if verified then Some supplied else None)))"

fun verify_publish :: "token_verifier \<Rightarrow> bytes option \<Rightarrow> token_verifier" where
  "verify_publish (Pbkdf2V phc None) (Some f) = Pbkdf2V phc (Some f)"
| "verify_publish v _ = v"

definition verify :: "crypto_lib \<Rightarrow> bool \<Rightarrow> token_verifier \<Rightarrow> string \<Rightarrow> bool \<times> token_verifier" where
  "verify C joined v token =
     (let (r, p) = verify_start C joined v token in (r, verify_publish v p))"

definition generate_pbkdf2_sha256 :: "crypto_lib \<Rightarrow> string \<Rightarrow> u32 \<Rightarrow> error + string" where
  "generate_pbkdf2_sha256 C token rounds =
     and_then (validate_token token) (\<lambda>_.
     and_then (bail_if (rounds > max_pbkdf2_sha256_rounds) (SecretError RoundsTooMany)) (\<lambda>_.
     and_then (bail_if (\<not> pbkdf2_params_new C rounds) (SecretError RoundsTooFew)) (\<lambda>_.
     or_err (pbkdf2_hash C rounds token) (SecretError HashFailed))))"

section \<open>DPAPI key files\<close>

text \<open>A blob carries its length in 32 bits (\<open>bytes.len() as u32\<close>), so the API sees that many bytes.\<close>

definition dpapi_blob :: "bytes \<Rightarrow> bytes" where
  "dpapi_blob bs = take (length bs mod 2 ^ 32) bs"

definition dpapi_protect_flags :: "dpapi_lib \<Rightarrow> dpapi_scope \<Rightarrow> u32" where
  "dpapi_protect_flags D scope =
     or (ui_forbidden D) (case scope of MachineScope \<Rightarrow> local_machine D | UserScope \<Rightarrow> 0)"

fun dpapi_protect :: "dpapi_lib \<Rightarrow> os \<Rightarrow> bytes \<Rightarrow> dpapi_scope \<Rightarrow> error + bytes" where
  "dpapi_protect D Windows plaintext scope =
     or_err (crypt_protect_data D (dpapi_protect_flags D scope) (dpapi_blob plaintext))
       (SecretError DpapiFailed)"
| "dpapi_protect D Unix plaintext scope = Inl (SecretError DpapiUnsupported)"

fun dpapi_unprotect :: "dpapi_lib \<Rightarrow> os \<Rightarrow> bytes \<Rightarrow> error + bytes" where
  "dpapi_unprotect D Windows protected =
     or_err (crypt_unprotect_data D (ui_forbidden D) (dpapi_blob protected))
       (SecretError DpapiFailed)"
| "dpapi_unprotect D Unix protected = Inl (SecretError DpapiUnsupported)"

definition write_key_file :: "key_files \<Rightarrow> string \<Rightarrow> bytes \<Rightarrow> key_files \<times> (error + unit)" where
  "write_key_file F output data =
     (if key_write_ok F output
      then (F\<lparr>key_file := (key_file F)(output := Some data)\<rparr>, Inr ())
      else (F\<lparr>key_file := (key_file F)(output := key_torn F)\<rparr>, Inl (SecretError (KeyWrite output))))"

definition protect_to_file ::
  "dpapi_lib \<Rightarrow> os \<Rightarrow> key_files \<Rightarrow> bytes \<Rightarrow> string \<Rightarrow> dpapi_scope \<Rightarrow> key_files \<times> (error + unit)" where
  "protect_to_file D platform F plaintext output scope =
     (if length plaintext < 32 then (F, Inl (SecretError TokenTooShort))
      else if length plaintext > 4096 then (F, Inl (SecretError TokenTooLong))
      else (case dpapi_protect D platform plaintext scope of
              Inl e \<Rightarrow> (F, Inl e)
            | Inr protected \<Rightarrow>
                (case path_parent output of
                   Some parent \<Rightarrow>
                     if key_mkdir_ok F parent then write_key_file F output protected
                     else (F, Inl (SecretError (KeyDirectoryCreate parent)))
                 | None \<Rightarrow> write_key_file F output protected)))"

definition unprotect_from_file :: "dpapi_lib \<Rightarrow> os \<Rightarrow> key_files \<Rightarrow> string \<Rightarrow> error + string" where
  "unprotect_from_file D platform F path =
     and_then (or_err (key_file F path) (SecretError (KeyRead path))) (\<lambda>protected.
     and_then (dpapi_unprotect D platform protected) (\<lambda>plaintext.
     and_then (bail_if (\<not> utf8_valid plaintext) (SecretError KeyNotUtf8)) (\<lambda>_.
     and_then (validate_token plaintext) (\<lambda>_. Inr plaintext))))"

text \<open>The token is the \<open>simple\<close> text of two random UUIDs (the \<open>uuid\<close> crate's, a parameter).\<close>

definition generate_and_protect ::
  "(uuid \<Rightarrow> string) \<Rightarrow> uuid \<Rightarrow> uuid \<Rightarrow> dpapi_lib \<Rightarrow> os \<Rightarrow> key_files \<Rightarrow> string \<Rightarrow> dpapi_scope
     \<Rightarrow> key_files \<times> (error + string)" where
  "generate_and_protect uuid_simple u1 u2 D platform F output scope =
     (let token = uuid_simple u1 @ uuid_simple u2 in
      case protect_to_file D platform F token output scope of
        (F', Inl e) \<Rightarrow> (F', Inl e)
      | (F', Inr _) \<Rightarrow> (F', Inr token))"

section \<open>Concurrent verification\<close>

text \<open>
  Requests verify in parallel: between a request's start and its publication any number of
  others may start and publish. A state is the shared verifier, the fingerprints still to
  be published, and the tokens accepted so far.
\<close>

record verify_state =
  vs_verifier :: token_verifier
  vs_pending :: "bytes list"
  vs_accepted :: "string list"

inductive verify_step :: "crypto_lib \<Rightarrow> verify_state \<Rightarrow> verify_state \<Rightarrow> bool" for C where
  start_rejected:
    "verify_start C joined (vs_verifier s) token = (False, p) \<Longrightarrow>
     verify_step C s (s\<lparr>vs_pending := (case p of None \<Rightarrow> [] | Some f \<Rightarrow> [f]) @ vs_pending s\<rparr>)"
| start_accepted:
    "verify_start C joined (vs_verifier s) token = (True, None) \<Longrightarrow>
     verify_step C s (s\<lparr>vs_accepted := token # vs_accepted s\<rparr>)"
| start_blocking:
    "verify_start C joined (vs_verifier s) token = (True, Some f) \<Longrightarrow>
     verify_step C s (s\<lparr>vs_accepted := token # vs_accepted s, vs_pending := f # vs_pending s\<rparr>)"
| publish:
    "f \<in> set (vs_pending s) \<Longrightarrow>
     verify_step C s (s\<lparr>vs_verifier := verify_publish (vs_verifier s) (Some f),
                       vs_pending := remove1 f (vs_pending s)\<rparr>)"

inductive verify_reachable :: "crypto_lib \<Rightarrow> string \<Rightarrow> verify_state \<Rightarrow> bool" for C phc where
  initial: "verify_reachable C phc \<lparr>vs_verifier = Pbkdf2V phc None, vs_pending = [], vs_accepted = []\<rparr>"
| further: "verify_reachable C phc s \<Longrightarrow> verify_step C s t \<Longrightarrow> verify_reachable C phc t"

definition genuine :: "crypto_lib \<Rightarrow> string \<Rightarrow> bytes \<Rightarrow> bool" where
  "genuine C phc f \<longleftrightarrow> (\<exists>t. pbkdf2_verify C phc t \<and> f = token_fingerprint C t)"

definition verify_inv :: "crypto_lib \<Rightarrow> string \<Rightarrow> verify_state \<Rightarrow> bool" where
  "verify_inv C phc s \<longleftrightarrow>
     (\<exists>cell. vs_verifier s = Pbkdf2V phc cell \<and> (\<forall>f. cell = Some f \<longrightarrow> genuine C phc f)) \<and>
     (\<forall>f\<in>set (vs_pending s). genuine C phc f) \<and>
     (\<forall>t\<in>set (vs_accepted s). genuine C phc (token_fingerprint C t))"

section \<open>Documented behaviour of the parameters\<close>

definition ct_eq_ok :: "crypto_lib \<Rightarrow> bool" where
  "ct_eq_ok C \<longleftrightarrow> (\<forall>a b. ct_eq C a b = (a = b))"

definition pbkdf2_ok :: "crypto_lib \<Rightarrow> bool" where
  "pbkdf2_ok C \<longleftrightarrow>
     (\<forall>rounds token phc. pbkdf2_hash C rounds token = Some phc \<longrightarrow>
        phc_parse C phc = Some \<lparr>phc_algorithm = ''pbkdf2-sha256'', phc_has_salt = True,
          phc_has_hash = True, phc_params = Some (rounds, recommended_output_length C)\<rparr> \<and>
        pbkdf2_verify C phc token)"

definition dpapi_ok :: "dpapi_lib \<Rightarrow> bool" where
  "dpapi_ok D \<longleftrightarrow>
     (\<forall>flags flags' b p. crypt_protect_data D flags b = Some p \<longrightarrow>
        crypt_unprotect_data D flags' p = Some b \<and> length p < 2 ^ 32)"

section \<open>Lemmas\<close>

lemma validate_token_ok_iff [result_simps]:
  "validate_token t = Inr u \<longleftrightarrow>
     32 \<le> length t \<and> length t \<le> 4096 \<and> \<not> contains_any [CR, LF, NUL] t"
  unfolding validate_token_def by (simp only: result_simps) auto

lemma verify_start_admissible:
  "verify_start C j v t = (True, p) \<Longrightarrow> length t \<le> 4096 \<and> \<not> contains_any [CR, LF, NUL] t"
  unfolding verify_start_def by (auto split: if_splits)

lemma genuine_self: "pbkdf2_verify C phc t \<Longrightarrow> genuine C phc (token_fingerprint C t)"
  by (auto simp: genuine_def)

lemma verify_start_genuine:
  assumes "ct_eq_ok C" and "verify_start C j (Pbkdf2V phc cell) t = (True, p)"
    and "\<And>f. cell = Some f \<Longrightarrow> genuine C phc f"
  shows "genuine C phc (token_fingerprint C t)" and "p = Some f \<Longrightarrow> f = token_fingerprint C t"
  using assms
  by (auto simp: verify_start_def ct_eq_ok_def Let_def genuine_self
      split: if_splits option.splits)

lemma verify_start_rejected: "verify_start C j v t = (False, p) \<Longrightarrow> p = None"
  by (auto simp: verify_start_def Let_def split: if_splits token_verifier.splits option.splits)

lemma verify_inv_initial:
  "verify_inv C phc \<lparr>vs_verifier = Pbkdf2V phc None, vs_pending = [], vs_accepted = []\<rparr>"
  by (simp add: verify_inv_def)

lemma verify_publish_pbkdf2:
  "verify_publish (Pbkdf2V phc cell) (Some f) =
     Pbkdf2V phc (case cell of None \<Rightarrow> Some f | Some g \<Rightarrow> Some g)"
  by (cases cell) auto

lemma verify_step_inv:
  assumes "verify_step C s t" and "ct_eq_ok C" and "verify_inv C phc s"
  shows "verify_inv C phc t"
proof -
  from assms(3) obtain cell where v: "vs_verifier s = Pbkdf2V phc cell"
    and c: "\<And>f. cell = Some f \<Longrightarrow> genuine C phc f"
    by (auto simp: verify_inv_def)
  from assms(1) show ?thesis
  proof cases
    case (start_rejected joined token p)
    with assms(3) verify_start_rejected [OF start_rejected(2)] show ?thesis by simp
  next
    case (start_accepted joined token)
    with v have "verify_start C joined (Pbkdf2V phc cell) token = (True, None)" by simp
    from verify_start_genuine(1) [OF assms(2) this c] start_accepted assms(3) show ?thesis
      by (auto simp: verify_inv_def)
  next
    case (start_blocking joined token f)
    with v have st: "verify_start C joined (Pbkdf2V phc cell) token = (True, Some f)" by simp
    from verify_start_genuine [OF assms(2) st c] start_blocking assms(3) show ?thesis
      by (auto simp: verify_inv_def)
  next
    case (publish f)
    with assms(3) have "genuine C phc f" and "set (remove1 f (vs_pending s)) \<subseteq> set (vs_pending s)"
      by (auto simp: verify_inv_def set_remove1_subset)
    with publish assms(3) v show ?thesis
      by (auto simp: verify_inv_def verify_publish_pbkdf2 split: option.splits)
  qed
qed

lemma verify_reachable_inv:
  "verify_reachable C phc s \<Longrightarrow> ct_eq_ok C \<Longrightarrow> verify_inv C phc s"
  by (induction rule: verify_reachable.induct) (auto intro: verify_inv_initial verify_step_inv)

lemma dpapi_blob_short: "length bs < 2 ^ 32 \<Longrightarrow> dpapi_blob bs = bs"
  by (simp add: dpapi_blob_def)

lemma protect_to_file_ok:
  assumes "protect_to_file D platform F plaintext output scope = (F', Inr ())"
  shows "platform = Windows \<and> 32 \<le> length plaintext \<and> length plaintext \<le> 4096 \<and>
    (\<exists>p. crypt_protect_data D (dpapi_protect_flags D scope) plaintext = Some p \<and>
         key_file F' output = Some p)"
proof -
  from assms have len: "32 \<le> length plaintext" "length plaintext \<le> 4096"
    by (auto simp: protect_to_file_def split: if_splits)
  then have blob: "dpapi_blob plaintext = plaintext"
    by (simp add: dpapi_blob_short)
  from assms len obtain p where p: "dpapi_protect D platform plaintext scope = Inr p"
    and w: "write_key_file F output p = (F', Inr ())"
    by (auto simp: protect_to_file_def split: if_splits sum.splits option.splits)
  from p have "platform = Windows" by (cases platform) auto
  with p blob len w show ?thesis
    by (auto simp: write_key_file_def result_simps split: if_splits)
qed

lemma verify_sha256_result:
  "ct_eq_ok C \<Longrightarrow> verify C j (Sha256V f) t =
     (length t \<le> 4096 \<and> \<not> contains_any [CR, LF, NUL] t \<and> token_fingerprint C t = f, Sha256V f)"
  by (auto simp: verify_def verify_start_def ct_eq_ok_def)

lemma verify_cached_result:
  "ct_eq_ok C \<Longrightarrow> verify C j (Pbkdf2V phc (Some f)) t =
     (length t \<le> 4096 \<and> \<not> contains_any [CR, LF, NUL] t \<and> token_fingerprint C t = f,
      Pbkdf2V phc (Some f))"
  by (auto simp: verify_def verify_start_def ct_eq_ok_def)

lemma verify_first_result:
  assumes "length t \<le> 4096" and "\<not> contains_any [CR, LF, NUL] t" and "phc_parse C phc = Some i"
  shows "verify C True (Pbkdf2V phc None) t =
     (if pbkdf2_verify C phc t then (True, Pbkdf2V phc (Some (token_fingerprint C t)))
      else (False, Pbkdf2V phc None))"
  using assms by (auto simp: verify_def verify_start_def Let_def)

lemma generate_ok:
  assumes "generate_pbkdf2_sha256 C token rounds = Inr phc"
  shows "validate_token token = Inr () \<and> rounds \<le> max_pbkdf2_sha256_rounds \<and>
    pbkdf2_hash C rounds token = Some phc"
  using assms unfolding generate_pbkdf2_sha256_def by (auto simp: result_simps)

section \<open>Properties\<close>

text \<open>A concrete instance of the parameters, for the witnesses below.\<close>

definition demo_crypto :: crypto_lib where
  "demo_crypto =
     \<lparr>sha256_digest = rev, ct_eq = (=),
      phc_parse = (\<lambda>s. if starts_with ''$pbkdf2-sha256$'' s
        then Some \<lparr>phc_algorithm = ''pbkdf2-sha256'', phc_has_salt = True, phc_has_hash = True,
                    phc_params = Some (1000, 32)\<rparr> else None),
      pbkdf2_verify = (\<lambda>phc t. phc = ''$pbkdf2-sha256$'' @ t),
      pbkdf2_params_new = (\<lambda>r. 1000 \<le> r),
      pbkdf2_hash = (\<lambda>r t. if r = 1000 then Some (''$pbkdf2-sha256$'' @ t) else None),
      recommended_output_length = 32, recommended_rounds = 600000, min_rounds = 1000\<rparr>"

definition demo_token :: string where
  "demo_token = ''0123456789abcdef0123456789abcdef''"

definition demo_dpapi :: dpapi_lib where
  "demo_dpapi =
     \<lparr>crypt_protect_data = (\<lambda>_ b. if length b \<le> 4096 then Some (rev b) else None),
      crypt_unprotect_data = (\<lambda>_ b. Some (rev b)), ui_forbidden = 1, local_machine = 4\<rparr>"

definition demo_key_files :: key_files where
  "demo_key_files =
     \<lparr>key_file = (\<lambda>_. None), key_mkdir_ok = (\<lambda>_. True), key_write_ok = (\<lambda>_. True), key_torn = None\<rparr>"

lemma demo_crypto_ok: "ct_eq_ok demo_crypto" "pbkdf2_ok demo_crypto"
  by (auto simp: demo_crypto_def ct_eq_ok_def pbkdf2_ok_def starts_with_def)

lemma demo_dpapi_ok: "dpapi_ok demo_dpapi"
  by (auto simp: demo_dpapi_def dpapi_ok_def split: if_splits)

lemma demo_token_valid: "validate_token demo_token = Inr ()"
  by (simp add: demo_token_def result_simps)

text \<open>
  C17. Whatever the interleaving of concurrent verifications, a token is accepted by a PBKDF2
  verifier only if PBKDF2 itself accepts it or it has the SHA-256 fingerprint of a token
  that PBKDF2 accepts, and the cached fingerprint always is that of such a token.
\<close>

theorem accepted_tokens_are_genuine:
  assumes "verify_reachable C phc s" and "ct_eq_ok C"
  shows "(\<forall>t\<in>set (vs_accepted s). \<exists>t'. pbkdf2_verify C phc t' \<and>
            token_fingerprint C t = token_fingerprint C t') \<and>
         (\<forall>f. vs_verifier s = Pbkdf2V phc (Some f) \<longrightarrow>
            (\<exists>t'. pbkdf2_verify C phc t' \<and> f = token_fingerprint C t'))"
  using verify_reachable_inv [OF assms] by (auto simp: verify_inv_def genuine_def)

definition demo_phc :: string where
  "demo_phc = ''$pbkdf2-sha256$'' @ demo_token"

definition demo_verify_state :: verify_state where
  "demo_verify_state =
     \<lparr>vs_verifier = Pbkdf2V demo_phc (Some (rev demo_token)),
      vs_pending = [rev demo_token], vs_accepted = [demo_token, demo_token]\<rparr>"

lemma demo_verify_start:
  "verify_start demo_crypto True (Pbkdf2V demo_phc None) demo_token = (True, Some (rev demo_token))"
  by (simp add: verify_start_def demo_token_def demo_phc_def demo_crypto_def token_fingerprint_def)

text \<open>Two requests start before either publishes; then one publishes.\<close>

lemma demo_verify_reachable: "verify_reachable demo_crypto demo_phc demo_verify_state"
proof -
  let ?s0 = "\<lparr>vs_verifier = Pbkdf2V demo_phc None, vs_pending = [], vs_accepted = []\<rparr>"
  let ?s1 = "?s0\<lparr>vs_accepted := demo_token # vs_accepted ?s0, vs_pending := rev demo_token # vs_pending ?s0\<rparr>"
  let ?s2 = "?s1\<lparr>vs_accepted := demo_token # vs_accepted ?s1, vs_pending := rev demo_token # vs_pending ?s1\<rparr>"
  have 1: "verify_step demo_crypto ?s0 ?s1"
    by (rule verify_step.start_blocking [where joined = True]) (simp add: demo_verify_start)
  have 2: "verify_step demo_crypto ?s1 ?s2"
    by (rule verify_step.start_blocking [where joined = True]) (simp add: demo_verify_start)
  have "verify_step demo_crypto ?s2 (?s2\<lparr>vs_verifier := verify_publish (vs_verifier ?s2) (Some (rev demo_token)),
          vs_pending := remove1 (rev demo_token) (vs_pending ?s2)\<rparr>)"
    by (rule verify_step.publish) simp
  then have 3: "verify_step demo_crypto ?s2 demo_verify_state"
    by (simp add: demo_verify_state_def)
  from verify_reachable.initial 1 have "verify_reachable demo_crypto demo_phc ?s1"
    by (rule verify_reachable.further)
  from this 2 have "verify_reachable demo_crypto demo_phc ?s2"
    by (rule verify_reachable.further)
  from this 3 show ?thesis
    by (rule verify_reachable.further)
qed

theorem accepted_tokens_are_genuine_witness:
  "\<exists>t'. pbkdf2_verify demo_crypto demo_phc t' \<and>
     token_fingerprint demo_crypto demo_token = token_fingerprint demo_crypto t'"
  using accepted_tokens_are_genuine [OF demo_verify_reachable demo_crypto_ok(1)]
  by (simp add: demo_verify_state_def)

text \<open>
  A verifier made from a valid token accepts that token, and accepts exactly the
  admissible tokens (at most 4096 bytes, no CR, LF or NUL) with its SHA-256 fingerprint.
\<close>

theorem sha256_verifier_exact:
  assumes "ct_eq_ok C"
  shows "fst (verify C j (from_token C t) t') \<longleftrightarrow>
           length t' \<le> 4096 \<and> \<not> contains_any [CR, LF, NUL] t' \<and>
           token_fingerprint C t' = token_fingerprint C t"
  using assms by (simp add: from_token_def verify_sha256_result)

theorem sha256_verifier_exact_witness:
  "fst (verify demo_crypto False (from_token demo_crypto demo_token) demo_token)"
  using sha256_verifier_exact [OF demo_crypto_ok(1), of False demo_token demo_token] demo_token_valid
  by (simp add: validate_token_ok_iff)

lemma generated_hash_accepted:
  assumes "generate_pbkdf2_sha256 C token rounds = Inr phc" and "pbkdf2_ok C"
  shows "from_pbkdf2_sha256 C phc = Inr (Pbkdf2V phc None)"
    and "verify C True (Pbkdf2V phc None) token = (True, Pbkdf2V phc (Some (token_fingerprint C token)))"
    and "length token \<le> 4096" and "\<not> contains_any [CR, LF, NUL] token"
proof -
  from generate_ok [OF assms(1)] have g: "validate_token token = Inr ()"
    "rounds \<le> max_pbkdf2_sha256_rounds" "pbkdf2_hash C rounds token = Some phc" by auto
  from g(3) assms(2) have p: "phc_parse C phc = Some \<lparr>phc_algorithm = ''pbkdf2-sha256'',
      phc_has_salt = True, phc_has_hash = True,
      phc_params = Some (rounds, recommended_output_length C)\<rparr>"
    and v: "pbkdf2_verify C phc token"
    by (auto simp: pbkdf2_ok_def)
  from p g(2) show "from_pbkdf2_sha256 C phc = Inr (Pbkdf2V phc None)"
    by (simp add: from_pbkdf2_sha256_def validate_pbkdf2_sha256_def bail_if_def)
  from g(1) show adm: "length token \<le> 4096" "\<not> contains_any [CR, LF, NUL] token"
    by (auto simp: validate_token_ok_iff)
  show "verify C True (Pbkdf2V phc None) token = (True, Pbkdf2V phc (Some (token_fingerprint C token)))"
    by (simp only: verify_first_result [OF adm p] v if_True)
qed

text \<open>
  C34. Round trip of \<open>secret hash\<close>: a hash that \<open>generate_pbkdf2_sha256\<close> prints is
  accepted as a configuration value, the verifier made from it accepts the token, and from
  then on it accepts the token without another PBKDF2 run, even when the blocking pool fails.
\<close>

theorem generated_hash_verifies:
  assumes "generate_pbkdf2_sha256 C token rounds = Inr phc" and "pbkdf2_ok C" and "ct_eq_ok C"
  shows "\<exists>v v'. from_pbkdf2_sha256 C phc = Inr v \<and> verify C True v token = (True, v') \<and>
           (\<forall>j. verify C j v' token = (True, v'))"
proof -
  note g = generated_hash_accepted [OF assms(1,2)]
  have "verify C j (Pbkdf2V phc (Some (token_fingerprint C token))) token =
      (True, Pbkdf2V phc (Some (token_fingerprint C token)))" for j
    using g(3,4) by (simp only: verify_cached_result [OF assms(3)]) simp
  with g(1,2) show ?thesis by blast
qed

theorem generated_hash_verifies_witness:
  "\<exists>v v'. from_pbkdf2_sha256 demo_crypto demo_phc = Inr v \<and>
     verify demo_crypto True v demo_token = (True, v') \<and> (\<forall>j. verify demo_crypto j v' demo_token = (True, v'))"
proof -
  have "generate_pbkdf2_sha256 demo_crypto demo_token 1000 = Inr demo_phc"
    using demo_token_valid
    by (simp add: generate_pbkdf2_sha256_def demo_crypto_def max_pbkdf2_sha256_rounds_def demo_phc_def
        bail_if_def)
  from generated_hash_verifies [OF this demo_crypto_ok(2) demo_crypto_ok(1)] show ?thesis .
qed

text \<open>
  C35. A key file written by \<open>protect_to_file\<close> loads back as the token it was made from,
  except that a token with a CR, LF or NUL, which \<open>protect_to_file\<close> accepts, is refused
  when the service loads it.
\<close>

theorem protect_unprotect:
  assumes "protect_to_file D platform F token output scope = (F', Inr ())"
    and "dpapi_ok D" and "utf8_valid token"
  shows "unprotect_from_file D platform F' output =
           (if contains_any [CR, LF, NUL] token then Inl (SecretError TokenControlCharacter)
            else Inr token)"
proof -
  from protect_to_file_ok [OF assms(1)] obtain p where
    w: "platform = Windows" and len: "32 \<le> length token" "length token \<le> 4096"
    and p: "crypt_protect_data D (dpapi_protect_flags D scope) token = Some p"
    and f: "key_file F' output = Some p"
    by auto
  from p assms(2) have "crypt_unprotect_data D (ui_forbidden D) p = Some token" "length p < 2 ^ 32"
    by (auto simp: dpapi_ok_def)
  with w f have "dpapi_unprotect D platform p = Inr token"
    by (simp add: dpapi_blob_short)
  with f assms(3) len show ?thesis
    by (simp add: unprotect_from_file_def validate_token_def bail_if_def)
qed

theorem protect_unprotect_witness:
  "unprotect_from_file demo_dpapi Windows
     (fst (protect_to_file demo_dpapi Windows demo_key_files (demo_token @ [LF]) ''/k/t'' MachineScope))
     ''/k/t'' = Inl (SecretError TokenControlCharacter)"
proof -
  let ?r = "protect_to_file demo_dpapi Windows demo_key_files (demo_token @ [LF]) ''/k/t'' MachineScope"
  have "snd ?r = Inr ()"
    by (simp add: protect_to_file_def demo_dpapi_def demo_key_files_def demo_token_def
        write_key_file_def dpapi_blob_def split: option.splits)
  then have "?r = (fst ?r, Inr ())" by (metis prod.collapse)
  moreover have "utf8_valid (demo_token @ [LF])"
    by (simp add: utf8_valid_def demo_token_def)
  ultimately show ?thesis
    using protect_unprotect [OF _ demo_dpapi_ok, of Windows demo_key_files "demo_token @ [LF]" "''/k/t''" MachineScope "fst ?r"]
    by simp
qed

end
