(* ===== verification/Config.thy ===== *)
theory Config
  imports Secret
begin

text \<open>
  The configuration (\<open>src/src/config.rs\<close>): the data the YAML file deserialises to, its
  defaults, every check that \<open>Config::load\<close> makes on it, the resolved form a running
  service uses, and \<open>validate_request_args\<close>, which the HTTP layer applies to the
  arguments of a request. The file system, the environment, \<open>serde_yaml\<close> and \<open>regex\<close>
  are parameters (\<open>config_env\<close>): a compiled pattern is identified with its source text.
\<close>

section \<open>Data\<close>

datatype ip_net = IpNet ip_addr nat

record listener_config =
  host :: ip_addr
  port :: u16

record server_config =
  hosts :: "ip_addr list option"
  server_port :: "u16 option"
  listeners :: "listener_config list"

datatype one_or_many_hosts = One ip_addr | Many "ip_addr list"

fun deserialize_optional_hosts :: "one_or_many_hosts \<Rightarrow> ip_addr list option" where
  "deserialize_optional_hosts (One h) = Some [h]"
| "deserialize_optional_hosts (Many hs) = Some hs"

datatype token_source =
    Environment string
  | WindowsDpapi string
  | Pbkdf2Sha256 string

record auth_config =
  auth_token :: token_source

record token_failure_cooldown_config =
  cooldown_enabled :: bool
  cooldown_seconds :: u64
  max_tracked_ips :: usize

record access_config =
  allowed_cidrs :: "ip_net list"
  token_failure_cooldown :: token_failure_cooldown_config

record tls_config =
  certificate :: string
  private_key :: string
  client_ca_certificate :: string

record logging_config =
  directory :: string
  retention_seconds :: u64
  max_output_bytes_per_task :: u64

record execution_config =
  max_total_concurrency :: usize
  shutdown_timeout_seconds :: u64

datatype windows_service_account = LocalService | LocalSystem

record windows_service_config =
  service_name :: string
  service_display_name :: string
  service_description :: string
  service_account :: windows_service_account

fun account_name :: "windows_service_account \<Rightarrow> string option" where
  "account_name LocalService = Some (''NT AUTHORITY'' @ [CHR 0x5C] @ ''LocalService'')"
| "account_name LocalSystem = None"

record request_args_config =
  args_enabled :: bool
  max_count :: usize
  max_item_bytes :: usize
  max_total_bytes :: usize
  allowed_values :: "string list"
  allowed_patterns :: "string list"

datatype executor = Sh | Bash | Zsh | Pwsh | Powershell | Cmd

fun default_program :: "os \<Rightarrow> executor \<Rightarrow> string" where
  "default_program _ Sh = ''sh''"
| "default_program _ Bash = ''bash''"
| "default_program _ Zsh = ''zsh''"
| "default_program _ Pwsh = ''pwsh''"
| "default_program Windows Powershell = ''powershell.exe''"
| "default_program Unix Powershell = ''powershell''"
| "default_program _ Cmd = ''cmd.exe''"

fun launcher_args :: "executor \<Rightarrow> string list" where
  "launcher_args Pwsh =
     [''-NoLogo'', ''-NoProfile'', ''-NonInteractive'', ''-ExecutionPolicy'', ''Bypass'', ''-File'']"
| "launcher_args Powershell =
     [''-NoLogo'', ''-NoProfile'', ''-NonInteractive'', ''-ExecutionPolicy'', ''Bypass'', ''-File'']"
| "launcher_args Cmd = [''/D'', ''/S'', ''/C'']"
| "launcher_args _ = []"

record route_config =
  path :: string
  executor :: executor
  program :: "string option"
  script :: string
  fixed_args :: "string list"
  request_args :: request_args_config
  working_directory :: "string option"
  env :: "(string \<times> string) list"
  max_concurrency :: usize
  max_execution_seconds :: u64
  graceful_shutdown_seconds :: u64
  merge_stdout_stderr :: bool
  route_encoding :: output_encoding

record config =
  server :: server_config
  access :: access_config
  tls :: "tls_config option"
  auth :: auth_config
  logging :: logging_config
  execution :: execution_config
  windows_service :: windows_service_config
  routes :: "route_config list"

datatype regex = Regex string

record resolved_route =
  r_path :: string
  r_executor :: executor
  r_program :: string
  r_script :: string
  r_fixed_args :: "string list"
  r_request_args :: request_args_config
  r_patterns :: "regex list"
  r_working_directory :: string
  r_env :: "(string \<times> string) list"
  r_max_concurrency :: usize
  r_max_execution_seconds :: u64
  r_graceful_shutdown_seconds :: u64
  r_merge_stdout_stderr :: bool
  r_output_encoding :: output_encoding

record resolved_config =
  source_path :: string
  rc_listeners :: "listener_config list"
  rc_access :: access_config
  rc_tls :: "tls_config option"
  rc_token :: token_verifier
  rc_logging :: logging_config
  rc_execution :: execution_config
  rc_windows_service :: windows_service_config
  rc_routes :: "resolved_route list"

section \<open>Defaults\<close>

definition default_config_path :: string where
  "default_config_path = ''config.yaml''"

definition default_hosts :: "ip_addr list" where
  "default_hosts = [V4 0x7F000001]"

definition default_port :: u16 where
  "default_port = 27415"

definition default_retention_seconds :: u64 where
  "default_retention_seconds = 86400"

definition default_max_output_bytes :: u64 where
  "default_max_output_bytes = 100 * 1024 * 1024"

definition default_max_total_concurrency :: usize where
  "default_max_total_concurrency = 16"

definition default_shutdown_timeout_seconds :: u64 where
  "default_shutdown_timeout_seconds = 30"

definition default_max_arg_count :: usize where
  "default_max_arg_count = 32"

definition default_max_arg_bytes :: usize where
  "default_max_arg_bytes = 4096"

definition default_max_total_arg_bytes :: usize where
  "default_max_total_arg_bytes = 16 * 1024"

definition default_token_failure_cooldown_seconds :: u64 where
  "default_token_failure_cooldown_seconds = 10"

definition default_token_failure_max_tracked_ips :: usize where
  "default_token_failure_max_tracked_ips = 4096"

definition default_service_name :: string where
  "default_service_name = ''command-api''"

definition default_service_display_name :: string where
  "default_service_display_name = ''Command API''"

definition cooldown_default :: token_failure_cooldown_config where
  "cooldown_default =
     \<lparr>cooldown_enabled = False, cooldown_seconds = default_token_failure_cooldown_seconds,
      max_tracked_ips = default_token_failure_max_tracked_ips\<rparr>"

definition execution_default :: execution_config where
  "execution_default =
     \<lparr>max_total_concurrency = default_max_total_concurrency,
      shutdown_timeout_seconds = default_shutdown_timeout_seconds\<rparr>"

definition request_args_default :: request_args_config where
  "request_args_default =
     \<lparr>args_enabled = False, max_count = default_max_arg_count,
      max_item_bytes = default_max_arg_bytes, max_total_bytes = default_max_total_arg_bytes,
      allowed_values = [], allowed_patterns = []\<rparr>"

definition default_service_description :: string where
  \<comment> \<open>in English: run preconfigured scripts asynchronously through a controlled HTTP API\<close>
  "default_service_description = utf8
     [233, 128, 154, 232, 191, 135, 229, 143, 151, 230, 142, 167, 32, 72, 84, 84, 80, 32, 65, 80,
      73, 32, 229, 188, 130, 230, 173, 165, 230, 137, 167, 232, 161, 140, 233, 162, 132, 233, 133,
      141, 231, 189, 174, 232, 132, 154, 230, 156, 172]"

definition windows_service_default :: windows_service_config where
  "windows_service_default =
     \<lparr>service_name = default_service_name, service_display_name = default_service_display_name,
      service_description = default_service_description, service_account = LocalService\<rparr>"

section \<open>Parameters\<close>

record config_env =
  ce_os :: os
  ce_canonicalize :: "string \<Rightarrow> string option"
  ce_is_file :: "string \<Rightarrow> bool"
  ce_is_dir :: "string \<Rightarrow> bool"
  ce_create_dir_all :: "string \<Rightarrow> bool"
  ce_read_to_string :: "string \<Rightarrow> string option"
  ce_from_yaml :: "string \<Rightarrow> config option"
  ce_env_var :: "string \<Rightarrow> string option"
  ce_regex_new :: "string \<Rightarrow> bool"
  ce_crypto :: crypto_lib
  ce_dpapi :: dpapi_lib
  ce_keys :: key_files

section \<open>Checks and resolution\<close>

text \<open>Paths follow the rules of Unix, for which alone \<open>is_absolute\<close> and \<open>path_join\<close> are modelled.\<close>

definition absolute_from :: "string \<Rightarrow> string \<Rightarrow> string" where
  "absolute_from base v = (if is_absolute v then v else path_join base v)"

definition absolute_if_path_like :: "string \<Rightarrow> string \<Rightarrow> string" where
  "absolute_if_path_like base v =
     (if is_absolute v \<or> length (path_components v) > 1 then absolute_from base v else v)"

fun normalize_ip :: "ip_addr \<Rightarrow> ip_addr" where
  "normalize_ip (V6 a) = (case to_ipv4_mapped a of Some b \<Rightarrow> V4 b | None \<Rightarrow> V6 a)"
| "normalize_ip (V4 a) = V4 a"

definition validate_access :: "access_config \<Rightarrow> error + unit" where
  "validate_access a =
     and_then (bail_if (allowed_cidrs a = []) (ConfigError CidrsEmpty)) (\<lambda>_.
     bail_if (cooldown_enabled (token_failure_cooldown a) \<and>
              (cooldown_seconds (token_failure_cooldown a) = 0 \<or>
               max_tracked_ips (token_failure_cooldown a) = 0))
       (ConfigError CooldownZero))"

fun check_unique :: "listener_config list \<Rightarrow> listener_config list \<Rightarrow> error + unit" where
  "check_unique seen [] = Inr ()"
| "check_unique seen (l # ls) =
     (if l \<in> set seen then Inl (ConfigError (ListenerDuplicate (host l) (port l)))
      else check_unique (l # seen) ls)"

definition validate_listeners :: "listener_config list \<Rightarrow> error + unit" where
  "validate_listeners ls =
     and_then (bail_if (ls = []) (ConfigError ListenersEmpty)) (\<lambda>_. check_unique [] ls)"

definition resolve_server :: "server_config \<Rightarrow> error + listener_config list" where
  "resolve_server s =
     and_then
       (if listeners s = [] then
          (let hs = (case hosts s of Some hs \<Rightarrow> hs | None \<Rightarrow> default_hosts);
               p = (case server_port s of Some p \<Rightarrow> p | None \<Rightarrow> default_port)
           in Inr (map (\<lambda>h. \<lparr>host = h, port = p\<rparr>) hs))
        else and_then (bail_if (hosts s \<noteq> None \<or> server_port s \<noteq> None) (ConfigError ListenersConflict))
               (\<lambda>_. Inr (listeners s)))
       (\<lambda>ls. and_then (validate_listeners ls) (\<lambda>_. Inr ls))"

definition validate_args :: "string \<Rightarrow> string list \<Rightarrow> error + unit" where
  "validate_args rt as = bail_if (list_ex (\<lambda>a. contains_any [NUL] a) as) (RouteError (FixedArgumentNul rt))"

definition validate_service_name :: "string \<Rightarrow> error + unit" where
  "validate_service_name n =
     bail_if (n = [] \<or> length n > 128 \<or> contains_any [CHR ''/'', CHR 0x5C] n)
       (ConfigError (ServiceNameInvalid n))"

definition script_is_batch :: "route_config \<Rightarrow> bool" where
  "script_is_batch r =
     (case path_extension (script r) of
        None \<Rightarrow> False
      | Some x \<Rightarrow> to_ascii_lowercase x = ''bat'' \<or> to_ascii_lowercase x = ''cmd'')"

definition program_is_cmd :: "route_config \<Rightarrow> bool" where
  "program_is_cmd r =
     (case Option.bind (program r) path_file_name of
        None \<Rightarrow> False
      | Some n \<Rightarrow> eq_ignore_ascii_case n ''cmd'' \<or> eq_ignore_ascii_case n ''cmd.exe'')"

definition validate_route :: "route_config \<Rightarrow> error + unit" where
  "validate_route r =
     (let p = path r; ra = request_args r in
      and_then (bail_if (\<not> starts_with ''/'' p \<or> length p < 2 \<or> ends_with ''/'' p)
                  (RouteError (RoutePathShape p))) (\<lambda>_.
      and_then (bail_if (contains_any [CHR ''?'', CHR ''#''] p \<or>
                         list_ex (\<lambda>seg. seg = ''..'') (split_on CHR ''/'' p))
                  (RouteError (RoutePathIllegal p))) (\<lambda>_.
      and_then (bail_if (p = ''/'' \<or> p = ''/healthz'' \<or> p = ''/tasks'' \<or> starts_with ''/tasks/'' p \<or>
                         p = ''/system'' \<or> starts_with ''/system/'' p)
                  (RouteError (RoutePathReserved p))) (\<lambda>_.
      and_then (bail_if (max_concurrency r = 0) (RouteError (RouteConcurrencyZero p))) (\<lambda>_.
      and_then (bail_if (max_execution_seconds r = 0) (RouteError (RouteExecutionZero p))) (\<lambda>_.
      and_then (bail_if (graceful_shutdown_seconds r = 0) (RouteError (RouteGraceZero p))) (\<lambda>_.
      and_then (if args_enabled ra then
                  and_then (bail_if (executor r = Cmd \<or> script_is_batch r \<or> program_is_cmd r)
                              (RouteError (RouteCmdArguments p))) (\<lambda>_.
                  bail_if (max_count ra = 0 \<or> max_item_bytes ra = 0 \<or> max_total_bytes ra = 0)
                    (RouteError (RouteArgumentLimitsZero p)))
                else Inr ()) (\<lambda>_.
      validate_args p (fixed_args r)))))))))"

definition usize_saturating_add :: "nat \<Rightarrow> nat \<Rightarrow> nat" where
  "usize_saturating_add a b = min (a + b) (2 ^ 64 - 1)"

text \<open>The loop of \<open>validate_request_args\<close> over the arguments, with the running \<open>total\<close>.\<close>

fun validate_request_args_loop ::
  "(regex \<Rightarrow> string \<Rightarrow> bool) \<Rightarrow> resolved_route \<Rightarrow> nat \<Rightarrow> string list \<Rightarrow> error + nat" where
  "validate_request_args_loop is_match r tot [] = Inr tot"
| "validate_request_args_loop is_match r tot (arg # as) =
     (let ra = r_request_args r;
          has_allowlist = (allowed_values ra \<noteq> [] \<or> r_patterns r \<noteq> [])
      in if contains_any [NUL] arg then Inl (RouteError ArgumentNul)
         else if length arg > unat (max_item_bytes ra)
         then Inl (RouteError (ArgumentTooLong (max_item_bytes ra)))
         else if has_allowlist \<and> \<not> list_ex (\<lambda>v. v = arg) (allowed_values ra)
                 \<and> \<not> list_ex (\<lambda>rx. is_match rx arg) (r_patterns r)
         then Inl (RouteError ArgumentNotListed)
         else validate_request_args_loop is_match r (usize_saturating_add tot (length arg)) as)"

definition validate_request_args ::
  "(regex \<Rightarrow> string \<Rightarrow> bool) \<Rightarrow> resolved_route \<Rightarrow> string list \<Rightarrow> error + unit" where
  "validate_request_args is_match r as =
     (let ra = r_request_args r in
      and_then (bail_if (\<not> args_enabled ra \<and> as \<noteq> []) (RouteError (ArgumentsNotAllowed (r_path r)))) (\<lambda>_.
      and_then (bail_if (length as > unat (max_count ra)) (RouteError (ArgumentsTooMany (max_count ra)))) (\<lambda>_.
      and_then (validate_request_args_loop is_match r 0 as) (\<lambda>tot.
      bail_if (tot > unat (max_total_bytes ra)) (RouteError (ArgumentsTotalTooLong (max_total_bytes ra)))))))"

definition resolve_token :: "config_env \<Rightarrow> string \<Rightarrow> token_source \<Rightarrow> error + token_verifier" where
  "resolve_token E base src =
     (case src of
        Pbkdf2Sha256 hash \<Rightarrow> from_pbkdf2_sha256 (ce_crypto E) hash
      | _ \<Rightarrow>
         and_then
           (case src of
              Environment variable \<Rightarrow>
                and_then (bail_if (is_blank variable \<or> contains_any [CHR ''='', NUL] variable)
                            (ConfigError TokenVariableInvalid)) (\<lambda>_.
                or_err (ce_env_var E variable) (ConfigError (EnvironmentUnset variable)))
            | WindowsDpapi file \<Rightarrow>
                and_then (or_err (ce_canonicalize E (absolute_from base file))
                            (ConfigError (DpapiFileMissing (absolute_from base file)))) (\<lambda>p.
                unprotect_from_file (ce_dpapi E) (ce_os E) (ce_keys E) p))
           (\<lambda>token. and_then (validate_token token) (\<lambda>_. Inr (from_token (ce_crypto E) token))))"

definition canonical_file :: "config_env \<Rightarrow> string \<Rightarrow> string \<Rightarrow> string \<Rightarrow> error + string" where
  "canonical_file E base v label =
     and_then (or_err (ce_canonicalize E (absolute_from base v))
                 (ConfigError (TlsFileMissing label (absolute_from base v)))) (\<lambda>p.
     and_then (bail_if (\<not> ce_is_file E p) (ConfigError (TlsNotFile label p))) (\<lambda>_. Inr p))"

definition resolve_tls :: "config_env \<Rightarrow> string \<Rightarrow> tls_config option \<Rightarrow> error + tls_config option" where
  "resolve_tls E base t =
     (case t of
        None \<Rightarrow> Inr None
      | Some t \<Rightarrow>
          and_then (canonical_file E base (certificate t) ''certificate'') (\<lambda>c.
          and_then (canonical_file E base (private_key t) ''private key'') (\<lambda>k.
          and_then (canonical_file E base (client_ca_certificate t) ''client CA'') (\<lambda>ca.
          Inr (Some \<lparr>certificate = c, private_key = k, client_ca_certificate = ca\<rparr>)))))"

fun compile_patterns :: "config_env \<Rightarrow> string \<Rightarrow> string list \<Rightarrow> error + regex list" where
  "compile_patterns E rt [] = Inr []"
| "compile_patterns E rt (p # ps) =
     (if ce_regex_new E p
      then and_then (compile_patterns E rt ps) (\<lambda>rs. Inr (Regex p # rs))
      else Inl (RouteError (PatternInvalid rt p)))"

text \<open>One round of the loop over the routes in \<open>Config::resolve\<close>; \<open>paths\<close> are those seen before.\<close>

definition resolve_route ::
  "config_env \<Rightarrow> string \<Rightarrow> windows_service_account \<Rightarrow> string list \<Rightarrow> route_config \<Rightarrow> error + resolved_route" where
  "resolve_route E base account paths r =
     and_then (validate_route r) (\<lambda>_.
     and_then (bail_if (account = LocalSystem \<and> args_enabled (request_args r)
                        \<and> allowed_values (request_args r) = [] \<and> allowed_patterns (request_args r) = [])
                 (RouteError (LocalSystemNeedsAllowlist (path r)))) (\<lambda>_.
     and_then (bail_if (path r \<in> set paths) (RouteError (RouteDuplicate (path r)))) (\<lambda>_.
     and_then (or_err (ce_canonicalize E (absolute_from base (script r)))
                 (RouteError (ScriptMissing (path r) (absolute_from base (script r))))) (\<lambda>scr.
     and_then (bail_if (\<not> ce_is_file E scr) (RouteError (ScriptNotFile (path r) scr))) (\<lambda>_.
     and_then (case working_directory r of
                 Some d \<Rightarrow> Inr (absolute_from base d)
               | None \<Rightarrow> or_err (path_parent scr) (RouteError ScriptWithoutParent)) (\<lambda>wd0.
     and_then (or_err (ce_canonicalize E wd0) (RouteError (WorkingDirectoryMissing (path r) wd0))) (\<lambda>wd.
     and_then (bail_if (\<not> ce_is_dir E wd) (RouteError (WorkingDirectoryNotDir (path r) wd))) (\<lambda>_.
     and_then (compile_patterns E (path r) (allowed_patterns (request_args r))) (\<lambda>pats.
     Inr \<lparr>r_path = path r, r_executor = executor r,
          r_program = (case program r of
                         Some p \<Rightarrow> absolute_if_path_like base p
                       | None \<Rightarrow> default_program (ce_os E) (executor r)),
          r_script = scr, r_fixed_args = fixed_args r, r_request_args = request_args r,
          r_patterns = pats, r_working_directory = wd, r_env = env r,
          r_max_concurrency = max_concurrency r,
          r_max_execution_seconds = max_execution_seconds r,
          r_graceful_shutdown_seconds = graceful_shutdown_seconds r,
          r_merge_stdout_stderr = merge_stdout_stderr r,
          r_output_encoding = route_encoding r\<rparr>)))))))))"

fun resolve_routes ::
  "config_env \<Rightarrow> string \<Rightarrow> windows_service_account \<Rightarrow> string list \<Rightarrow> route_config list
     \<Rightarrow> error + resolved_route list" where
  "resolve_routes E base account paths [] = Inr []"
| "resolve_routes E base account paths (r # rs) =
     and_then (resolve_route E base account paths r) (\<lambda>rr.
     and_then (resolve_routes E base account (path r # paths) rs) (\<lambda>rrs. Inr (rr # rrs)))"

text \<open>\<open>Config::resolve\<close> up to the creation of the log directory.\<close>

definition resolve_checks ::
  "config_env \<Rightarrow> config \<Rightarrow> string
     \<Rightarrow> error + (string \<times> listener_config list \<times> token_verifier \<times> tls_config option \<times> string)" where
  "resolve_checks E c src =
     and_then (resolve_server (server c)) (\<lambda>ls.
     and_then (validate_access (access c)) (\<lambda>_.
     and_then (bail_if (max_total_concurrency (execution c) = 0) (ConfigError TotalConcurrencyZero)) (\<lambda>_.
     and_then (bail_if (shutdown_timeout_seconds (execution c) = 0) (ConfigError ShutdownTimeoutZero)) (\<lambda>_.
     and_then (bail_if (retention_seconds (logging c) = 0) (ConfigError RetentionZero)) (\<lambda>_.
     and_then (bail_if (max_output_bytes_per_task (logging c) = 0) (ConfigError MaxOutputZero)) (\<lambda>_.
     and_then (bail_if (routes c = []) (ConfigError RoutesEmpty)) (\<lambda>_.
     and_then (validate_service_name (service_name (windows_service c))) (\<lambda>_.
     and_then (or_err (path_parent src) (ConfigError ConfigWithoutParent)) (\<lambda>base.
     and_then (resolve_token E base (auth_token (auth c))) (\<lambda>tok.
     and_then (resolve_tls E base (tls c)) (\<lambda>t.
     Inr (base, ls, tok, t, absolute_from base (directory (logging c))))))))))))))"

text \<open>The first component is the list of directories passed to \<open>create_dir_all\<close>.\<close>

definition resolve :: "config_env \<Rightarrow> config \<Rightarrow> string \<Rightarrow> string list \<times> (error + resolved_config)" where
  "resolve E c src =
     (case resolve_checks E c src of
        Inl e \<Rightarrow> ([], Inl e)
      | Inr (base, ls, tok, t, log0) \<Rightarrow>
         ([path_join log0 ''tasks''],
          and_then (bail_if (\<not> ce_create_dir_all E (path_join log0 ''tasks''))
                      (ConfigError (LogDirectoryCreate log0))) (\<lambda>_.
          and_then (or_err (ce_canonicalize E log0) (ConfigError (LogDirectoryAccess log0))) (\<lambda>log.
          and_then (resolve_routes E base (service_account (windows_service c)) [] (routes c)) (\<lambda>rts.
          Inr \<lparr>source_path = src, rc_listeners = ls, rc_access = access c, rc_tls = t,
               rc_token = tok, rc_logging = (logging c)\<lparr>directory := log\<rparr>,
               rc_execution = execution c, rc_windows_service = windows_service c,
               rc_routes = rts\<rparr>)))))"

definition load :: "config_env \<Rightarrow> string \<Rightarrow> string list \<times> (error + resolved_config)" where
  "load E p =
     (case ce_canonicalize E p of
        None \<Rightarrow> ([], Inl (ConfigError (ConfigUnreadable p)))
      | Some src \<Rightarrow>
         (case ce_read_to_string E src of
            None \<Rightarrow> ([], Inl (ConfigError (ConfigUnreadable src)))
          | Some content \<Rightarrow>
             (case ce_from_yaml E content of
                None \<Rightarrow> ([], Inl (ConfigError (YamlInvalid src)))
              | Some c \<Rightarrow> resolve E c src)))"

section \<open>Specifications\<close>

definition reserved_path :: "string \<Rightarrow> bool" where
  "reserved_path p \<longleftrightarrow>
     p \<in> {''/'', ''/healthz'', ''/tasks'', ''/system''} \<or>
     starts_with ''/tasks/'' p \<or> starts_with ''/system/'' p"

definition route_path_ok :: "string \<Rightarrow> bool" where
  "route_path_ok p \<longleftrightarrow>
     starts_with ''/'' p \<and> 2 \<le> length p \<and> last p \<noteq> CHR ''/'' \<and>
     CHR ''?'' \<notin> set p \<and> CHR ''#'' \<notin> set p \<and>
     ''..'' \<notin> set (split_on CHR ''/'' p) \<and> \<not> reserved_path p"

definition request_args_ok :: "request_args_config \<Rightarrow> bool" where
  "request_args_ok ra \<longleftrightarrow>
     (args_enabled ra \<longrightarrow> 0 < max_count ra \<and> 0 < max_item_bytes ra \<and> 0 < max_total_bytes ra)"

definition resolved_route_ok :: "windows_service_account \<Rightarrow> resolved_route \<Rightarrow> bool" where
  "resolved_route_ok account r \<longleftrightarrow>
     route_path_ok (r_path r) \<and>
     0 < r_max_concurrency r \<and> 0 < r_max_execution_seconds r \<and> 0 < r_graceful_shutdown_seconds r \<and>
     request_args_ok (r_request_args r) \<and>
     (args_enabled (r_request_args r) \<longrightarrow> r_executor r \<noteq> Cmd) \<and>
     (\<forall>a\<in>set (r_fixed_args r). NUL \<notin> set a) \<and>
     r_patterns r = map Regex (allowed_patterns (r_request_args r)) \<and>
     (account = LocalSystem \<and> args_enabled (r_request_args r) \<longrightarrow>
        allowed_values (r_request_args r) \<noteq> [] \<or> r_patterns r \<noteq> [])"

definition resolved_config_ok :: "resolved_config \<Rightarrow> bool" where
  "resolved_config_ok c \<longleftrightarrow>
     rc_listeners c \<noteq> [] \<and> distinct (rc_listeners c) \<and>
     allowed_cidrs (rc_access c) \<noteq> [] \<and>
     (cooldown_enabled (token_failure_cooldown (rc_access c)) \<longrightarrow>
        0 < cooldown_seconds (token_failure_cooldown (rc_access c)) \<and>
        0 < max_tracked_ips (token_failure_cooldown (rc_access c))) \<and>
     0 < max_total_concurrency (rc_execution c) \<and> 0 < shutdown_timeout_seconds (rc_execution c) \<and>
     0 < retention_seconds (rc_logging c) \<and> 0 < max_output_bytes_per_task (rc_logging c) \<and>
     rc_routes c \<noteq> [] \<and> distinct (map r_path (rc_routes c)) \<and>
     (\<forall>r\<in>set (rc_routes c). resolved_route_ok (service_account (rc_windows_service c)) r)"

text \<open>What loading promises beyond the limits: everything the configuration refers to was there.\<close>

definition token_acceptable :: "string \<Rightarrow> bool" where
  "token_acceptable t \<longleftrightarrow> 32 \<le> length t \<and> length t \<le> 4096 \<and> CR \<notin> set t \<and> LF \<notin> set t \<and> NUL \<notin> set t"

definition token_loaded :: "config_env \<Rightarrow> string \<Rightarrow> token_source \<Rightarrow> token_verifier \<Rightarrow> bool" where
  "token_loaded E base src v \<longleftrightarrow>
     (case src of
        Environment x \<Rightarrow> CHR ''='' \<notin> set x \<and> NUL \<notin> set x \<and>
          (\<exists>t. ce_env_var E x = Some t \<and> token_acceptable t \<and> v = from_token (ce_crypto E) t)
      | WindowsDpapi file \<Rightarrow>
          (\<exists>key t. ce_canonicalize E (absolute_from base file) = Some key \<and>
             unprotect_from_file (ce_dpapi E) (ce_os E) (ce_keys E) key = Inr t \<and>
             token_acceptable t \<and> v = from_token (ce_crypto E) t)
      | Pbkdf2Sha256 hash \<Rightarrow> validate_pbkdf2_sha256 (ce_crypto E) hash = Inr () \<and> v = Pbkdf2V hash None)"

definition file_loaded :: "config_env \<Rightarrow> string \<Rightarrow> string \<Rightarrow> string \<Rightarrow> bool" where
  "file_loaded E base v q \<longleftrightarrow> ce_canonicalize E (absolute_from base v) = Some q \<and> ce_is_file E q"

definition tls_loaded :: "config_env \<Rightarrow> string \<Rightarrow> tls_config option \<Rightarrow> tls_config option \<Rightarrow> bool" where
  "tls_loaded E base t t' \<longleftrightarrow>
     rel_option (\<lambda>a b. file_loaded E base (certificate a) (certificate b) \<and>
       file_loaded E base (private_key a) (private_key b) \<and>
       file_loaded E base (client_ca_certificate a) (client_ca_certificate b)) t t'"

definition route_loaded :: "config_env \<Rightarrow> string \<Rightarrow> route_config \<Rightarrow> resolved_route \<Rightarrow> bool" where
  "route_loaded E base r rr \<longleftrightarrow>
     r_path rr = path r \<and> r_executor rr = executor r \<and> r_fixed_args rr = fixed_args r \<and>
     r_request_args rr = request_args r \<and> r_env rr = env r \<and> r_max_concurrency rr = max_concurrency r \<and>
     r_max_execution_seconds rr = max_execution_seconds r \<and>
     r_graceful_shutdown_seconds rr = graceful_shutdown_seconds r \<and>
     file_loaded E base (script r) (r_script rr) \<and> ce_is_dir E (r_working_directory rr) \<and>
     (\<exists>d. ce_canonicalize E d = Some (r_working_directory rr) \<and>
        (working_directory r = None \<longrightarrow> path_parent (r_script rr) = Some d) \<and>
        (\<forall>w. working_directory r = Some w \<longrightarrow> d = absolute_from base w)) \<and>
     (args_enabled (request_args r) \<longrightarrow> \<not> script_is_batch r \<and> \<not> program_is_cmd r) \<and>
     (\<forall>x\<in>set (allowed_patterns (request_args r)). ce_regex_new E x)"

definition listeners_loaded :: "server_config \<Rightarrow> listener_config list \<Rightarrow> bool" where
  "listeners_loaded s ls \<longleftrightarrow>
     (if listeners s \<noteq> [] then hosts s = None \<and> server_port s = None \<and> ls = listeners s
      else map host ls = (case hosts s of None \<Rightarrow> [V4 0x7F000001] | Some hs \<Rightarrow> hs) \<and>
        (\<forall>l\<in>set ls. port l = (case server_port s of None \<Rightarrow> 27415 | Some n \<Rightarrow> n)))"

definition service_name_ok :: "string \<Rightarrow> bool" where
  "service_name_ok n \<longleftrightarrow> n \<noteq> [] \<and> length n \<le> 128 \<and> CHR ''/'' \<notin> set n \<and> CHR 0x5C \<notin> set n"

definition config_loaded :: "config_env \<Rightarrow> string \<Rightarrow> resolved_config \<Rightarrow> bool" where
  "config_loaded E p rc \<longleftrightarrow>
     (\<exists>content c base.
        ce_canonicalize E p = Some (source_path rc) \<and> ce_read_to_string E (source_path rc) = Some content \<and>
        ce_from_yaml E content = Some c \<and> path_parent (source_path rc) = Some base \<and>
        listeners_loaded (server c) (rc_listeners rc) \<and> token_loaded E base (auth_token (auth c)) (rc_token rc) \<and>
        tls_loaded E base (tls c) (rc_tls rc) \<and> list_all2 (route_loaded E base) (routes c) (rc_routes rc) \<and>
        service_name_ok (service_name (rc_windows_service rc)) \<and>
        ce_create_dir_all E (path_join (absolute_from base (directory (logging c))) ''tasks'') \<and>
        ce_canonicalize E (absolute_from base (directory (logging c))) = Some (directory (rc_logging rc)) \<and>
        rc_logging rc = (logging c)\<lparr>directory := directory (rc_logging rc)\<rparr> \<and> rc_access rc = access c \<and>
        rc_execution rc = execution c \<and> rc_windows_service rc = windows_service c)"

definition arg_admitted :: "(regex \<Rightarrow> string \<Rightarrow> bool) \<Rightarrow> resolved_route \<Rightarrow> string \<Rightarrow> bool" where
  "arg_admitted is_match r a \<longleftrightarrow>
     NUL \<notin> set a \<and> length a \<le> unat (max_item_bytes (r_request_args r)) \<and>
     (allowed_values (r_request_args r) = [] \<and> r_patterns r = [] \<or>
      a \<in> set (allowed_values (r_request_args r)) \<or> (\<exists>rx\<in>set (r_patterns r). is_match rx a))"

definition total_bytes :: "string list \<Rightarrow> nat" where
  "total_bytes as = sum_list (map length as)"

definition the_default :: "'a \<Rightarrow> 'a option \<Rightarrow> 'a" where
  "the_default d x = (case x of None \<Rightarrow> d | Some y \<Rightarrow> y)"

section \<open>Lemmas\<close>

lemma word_pos_iff: "(0::'a::len word) < w \<longleftrightarrow> w \<noteq> 0"
  by (rule word_neq_0_conv [symmetric])

lemma validate_route_ok:
  assumes "validate_route r = Inr ()"
  shows "route_path_ok (path r)" and "0 < max_concurrency r" and "0 < max_execution_seconds r"
    and "0 < graceful_shutdown_seconds r" and "request_args_ok (request_args r)"
    and "args_enabled (request_args r) \<Longrightarrow> executor r \<noteq> Cmd \<and> \<not> script_is_batch r \<and> \<not> program_is_cmd r"
    and "\<forall>a\<in>set (fixed_args r). NUL \<notin> set a"
  using assms unfolding validate_route_def Let_def
  by (auto simp: result_simps validate_args_def route_path_ok_def reserved_path_def request_args_ok_def
      text_simps list_ex_iff word_pos_iff split: if_splits)

lemma check_unique_ok: "check_unique seen ls = Inr () \<longleftrightarrow> distinct ls \<and> set seen \<inter> set ls = {}"
  by (induction ls arbitrary: seen) auto

lemma validate_listeners_ok [result_simps]:
  "validate_listeners ls = Inr () \<longleftrightarrow> ls \<noteq> [] \<and> distinct ls"
  by (auto simp: validate_listeners_def check_unique_ok result_simps)

lemma resolve_server_ok: "resolve_server s = Inr ls \<Longrightarrow> ls \<noteq> [] \<and> distinct ls"
  unfolding resolve_server_def by (auto simp: result_simps)

lemma compile_patterns_ok: "compile_patterns E rt ps = Inr rs \<Longrightarrow> rs = map Regex ps"
  by (induction ps arbitrary: rs) (auto simp: result_simps split: if_splits)

lemma resolve_route_ok:
  assumes "resolve_route E base account paths r = Inr rr"
  shows "resolved_route_ok account rr" and "r_path rr = path r" and "path r \<notin> set paths"
proof -
  from assms have v: "validate_route r = Inr ()"
    by (auto simp: resolve_route_def result_simps)
  from assms show "resolved_route_ok account rr" "r_path rr = path r" "path r \<notin> set paths"
    using validate_route_ok [OF v]
    by (auto simp: resolve_route_def result_simps resolved_route_ok_def dest!: compile_patterns_ok)
qed

lemma resolve_routes_ok:
  "resolve_routes E base account paths rs = Inr rrs \<Longrightarrow>
     map r_path rrs = map path rs \<and> distinct (map path rs) \<and>
     set paths \<inter> set (map path rs) = {} \<and> (\<forall>rr\<in>set rrs. resolved_route_ok account rr)"
proof (induction rs arbitrary: paths rrs)
  case Nil
  then show ?case by simp
next
  case (Cons r rs)
  from Cons.prems obtain rr tl where r: "resolve_route E base account paths r = Inr rr"
    and rest: "resolve_routes E base account (path r # paths) rs = Inr tl" and rrs: "rrs = rr # tl"
    by (auto simp: result_simps)
  from Cons.IH [OF rest] resolve_route_ok [OF r] rrs show ?case by auto
qed

lemma resolve_checks_ok:
  assumes "resolve_checks E c src = Inr (base, ls, tok, t, log0)"
  shows "resolve_server (server c) = Inr ls" and "validate_access (access c) = Inr ()"
    and "max_total_concurrency (execution c) \<noteq> 0" and "shutdown_timeout_seconds (execution c) \<noteq> 0"
    and "retention_seconds (logging c) \<noteq> 0" and "max_output_bytes_per_task (logging c) \<noteq> 0"
    and "routes c \<noteq> []"
  using assms unfolding resolve_checks_def by (auto simp: result_simps)

lemma validate_access_ok [result_simps]:
  "validate_access a = Inr () \<longleftrightarrow> allowed_cidrs a \<noteq> [] \<and>
     (cooldown_enabled (token_failure_cooldown a) \<longrightarrow>
        cooldown_seconds (token_failure_cooldown a) \<noteq> 0 \<and> max_tracked_ips (token_failure_cooldown a) \<noteq> 0)"
  by (auto simp: validate_access_def result_simps)

lemma resolve_ok:
  assumes "resolve E c src = (ds, Inr rc)"
  shows "resolved_config_ok rc" and "source_path rc = src"
proof -
  from assms obtain base ls tok t log0 log rts where
    k: "resolve_checks E c src = Inr (base, ls, tok, t, log0)"
    and rts: "resolve_routes E base (service_account (windows_service c)) [] (routes c) = Inr rts"
    and rc: "rc = \<lparr>source_path = src, rc_listeners = ls, rc_access = access c, rc_tls = t,
               rc_token = tok, rc_logging = (logging c)\<lparr>directory := log\<rparr>,
               rc_execution = execution c, rc_windows_service = windows_service c,
               rc_routes = rts\<rparr>"
    by (auto simp: resolve_def result_simps split: sum.splits)
  from resolve_checks_ok [OF k] resolve_server_ok resolve_routes_ok [OF rts] rc
  show "resolved_config_ok rc" "source_path rc = src"
    by (auto simp: resolved_config_ok_def result_simps word_pos_iff)
qed

lemma resolve_token_ok: "resolve_token E base src = Inr v \<Longrightarrow> token_loaded E base src v"
  by (cases src)
    (auto simp: resolve_token_def token_loaded_def from_pbkdf2_sha256_def result_simps token_acceptable_def text_simps)

lemma canonical_file_ok: "canonical_file E base v label = Inr q \<longleftrightarrow> file_loaded E base v q"
  by (auto simp: canonical_file_def file_loaded_def result_simps)

lemma resolve_tls_ok: "resolve_tls E base t = Inr t' \<Longrightarrow> tls_loaded E base t t'"
  by (cases t) (auto simp: resolve_tls_def tls_loaded_def result_simps canonical_file_ok)

lemma resolve_listeners_ok: "resolve_server s = Inr ls \<Longrightarrow> listeners_loaded s ls"
  by (auto simp: resolve_server_def listeners_loaded_def result_simps Let_def default_hosts_def default_port_def o_def
      split: if_splits option.splits)

lemma compile_patterns_valid: "compile_patterns E rt ps = Inr rs \<Longrightarrow> \<forall>x\<in>set ps. ce_regex_new E x"
  by (induction ps arbitrary: rs) (auto simp: result_simps split: if_splits)

lemma resolve_route_loaded:
  assumes "resolve_route E base account paths r = Inr rr"
  shows "route_loaded E base r rr"
proof -
  from assms have v: "validate_route r = Inr ()" by (auto simp: resolve_route_def result_simps)
  from assms validate_route_ok(6) [OF v] show ?thesis
    by (cases "working_directory r")
      (auto simp: resolve_route_def route_loaded_def file_loaded_def result_simps dest: compile_patterns_valid)
qed

lemma resolve_routes_loaded:
  "resolve_routes E base account paths rs = Inr rrs \<Longrightarrow> list_all2 (route_loaded E base) rs rrs"
  by (induction rs arbitrary: paths rrs) (auto simp: result_simps dest: resolve_route_loaded)

lemma resolve_loaded:
  assumes "resolve E c src = (ds, Inr rc)" and "ce_canonicalize E p = Some src"
    and "ce_read_to_string E src = Some content" and "ce_from_yaml E content = Some c"
  shows "config_loaded E p rc"
proof -
  from assms(1) obtain base ls tok t log0 log rts where
    k: "resolve_checks E c src = Inr (base, ls, tok, t, log0)"
    and rts: "resolve_routes E base (service_account (windows_service c)) [] (routes c) = Inr rts"
    and log: "ce_create_dir_all E (path_join log0 ''tasks'')" "ce_canonicalize E log0 = Some log"
    and rc: "rc = \<lparr>source_path = src, rc_listeners = ls, rc_access = access c, rc_tls = t,
               rc_token = tok, rc_logging = (logging c)\<lparr>directory := log\<rparr>,
               rc_execution = execution c, rc_windows_service = windows_service c,
               rc_routes = rts\<rparr>"
    by (auto simp: resolve_def result_simps split: sum.splits)
  from k have "path_parent src = Some base" "listeners_loaded (server c) ls" "token_loaded E base (auth_token (auth c)) tok"
    "tls_loaded E base (tls c) t" "service_name_ok (service_name (windows_service c))"
    "log0 = absolute_from base (directory (logging c))"
    by (auto simp: resolve_checks_def result_simps validate_service_name_def service_name_ok_def text_simps
        dest: resolve_listeners_ok resolve_token_ok resolve_tls_ok)
  with log rc resolve_routes_loaded [OF rts] assms(2-4) show ?thesis
    unfolding config_loaded_def by (intro exI [of _ content] exI [of _ c] exI [of _ base]) simp
qed

lemma load_ok_cases:
  assumes "load E p = (ds, Inr rc)"
  obtains src content c where "ce_canonicalize E p = Some src" and "ce_read_to_string E src = Some content"
    and "ce_from_yaml E content = Some c" and "resolve E c src = (ds, Inr rc)"
  using assms by (auto simp: load_def split: option.splits)

lemma validate_request_args_loop_ok:
  "validate_request_args_loop is_match r tot as = Inr n \<longleftrightarrow>
     (\<forall>a\<in>set as. arg_admitted is_match r a) \<and> n = fold (\<lambda>a t. usize_saturating_add t (length a)) as tot"
  by (induction as arbitrary: tot)
    (auto simp: arg_admitted_def text_simps list_ex_iff Let_def split: if_splits)

lemma fold_saturating:
  "tot \<le> 2 ^ 64 - 1 \<Longrightarrow>
     fold (\<lambda>a t. usize_saturating_add t (length a)) as tot = min (tot + total_bytes as) (2 ^ 64 - 1)"
proof (induction as arbitrary: tot)
  case Nil
  then show ?case by (simp add: total_bytes_def)
next
  case (Cons a as)
  have "usize_saturating_add tot (length a) \<le> 2 ^ 64 - 1"
    by (simp add: usize_saturating_add_def)
  from Cons.IH [OF this] show ?case
    by (auto simp: usize_saturating_add_def total_bytes_def)
qed

lemma validate_request_args_ok:
  "validate_request_args is_match r as = Inr () \<longleftrightarrow>
     (as = [] \<or> args_enabled (r_request_args r)) \<and>
     length as \<le> unat (max_count (r_request_args r)) \<and>
     (\<forall>a\<in>set as. arg_admitted is_match r a) \<and>
     min (total_bytes as) (2 ^ 64 - 1) \<le> unat (max_total_bytes (r_request_args r))"
  unfolding validate_request_args_def Let_def
  by (auto simp: result_simps validate_request_args_loop_ok fold_saturating not_less)

lemma to_ipv4_mapped_of: "to_ipv4_mapped (push_bit 32 0xFFFF + ucast b) = Some b"
proof -
  let ?a = "push_bit 32 0xFFFF + ucast b :: 128 word"
  have lt: "unat b < 4294967296" using unsigned_less [of b] by simp
  have u: "unat ?a = 0xFFFF * 4294967296 + unat b"
    using lt by (simp add: unat_word_ariths unsigned_ucast_eq take_bit_eq_mod)
  have "unat (drop_bit 32 ?a) = unat (0xFFFF :: 128 word)"
    using lt by (simp only: unat_drop_bit_eq u) (simp add: drop_bit_eq_div)
  then have d: "drop_bit 32 ?a = 0xFFFF"
    by (simp only: word_unat_eq_iff)
  have "(0xFFFF * 4294967296 + unat b) mod 4294967296 = unat b"
    using lt by (simp only: mod_mult_self3 mod_less)
  then have "unat (ucast ?a :: 32 word) = unat b"
    by (simp only: unsigned_ucast_eq u take_bit_eq_mod) simp
  then have "ucast ?a = b" by (simp only: word_unat_eq_iff)
  with d show ?thesis unfolding to_ipv4_mapped_def by simp
qed
lemma normalize_ip_idem: "normalize_ip (normalize_ip a) = normalize_ip a"
  by (cases a) (auto split: option.splits)

section \<open>Properties\<close>

text \<open>A configuration and an environment for the witnesses.\<close>

definition demo_route :: route_config where
  "demo_route =
     \<lparr>path = ''/run'', executor = Sh, program = None, script = ''run.sh'', fixed_args = [''fixed''],
      request_args = request_args_default\<lparr>args_enabled := True, allowed_values := [''status'']\<rparr>,
      working_directory = None, env = [], max_concurrency = 1, max_execution_seconds = 10,
      graceful_shutdown_seconds = 1, merge_stdout_stderr = False, route_encoding = Utf8\<rparr>"

definition demo_config :: config where
  "demo_config =
     \<lparr>server = \<lparr>hosts = None, server_port = None, listeners = []\<rparr>,
      access = \<lparr>allowed_cidrs = [IpNet (V4 0x7F000000) 8],
                token_failure_cooldown = cooldown_default\<lparr>cooldown_enabled := True\<rparr>\<rparr>,
      tls = None, auth = \<lparr>auth_token = Environment ''TOKEN''\<rparr>,
      logging = \<lparr>directory = ''logs'', retention_seconds = default_retention_seconds,
                 max_output_bytes_per_task = default_max_output_bytes\<rparr>,
      execution = execution_default, windows_service = windows_service_default,
      routes = [demo_route]\<rparr>"

definition demo_env :: config_env where
  "demo_env =
     \<lparr>ce_os = Unix, ce_canonicalize = Some, ce_is_file = (\<lambda>_. True), ce_is_dir = (\<lambda>_. True),
      ce_create_dir_all = (\<lambda>_. True), ce_read_to_string = (\<lambda>_. Some ''yaml''),
      ce_from_yaml = (\<lambda>_. Some demo_config), ce_env_var = (\<lambda>_. Some demo_token),
      ce_regex_new = (\<lambda>_. True), ce_crypto = demo_crypto, ce_dpapi = demo_dpapi,
      ce_keys = demo_key_files\<rparr>"

definition demo_resolved_route :: resolved_route where
  "demo_resolved_route =
     \<lparr>r_path = ''/run'', r_executor = Sh, r_program = ''sh'', r_script = ''/etc/api/run.sh'',
      r_fixed_args = [''fixed''],
      r_request_args = request_args_default\<lparr>args_enabled := True, allowed_values := [''status'']\<rparr>,
      r_patterns = [], r_working_directory = ''/etc/api'', r_env = [], r_max_concurrency = 1,
      r_max_execution_seconds = 10, r_graceful_shutdown_seconds = 1,
      r_merge_stdout_stderr = False, r_output_encoding = Utf8\<rparr>"

definition demo_resolved :: resolved_config where
  "demo_resolved =
     \<lparr>source_path = ''/etc/api/config.yaml'',
      rc_listeners = [\<lparr>host = V4 0x7F000001, port = 27415\<rparr>],
      rc_access = access demo_config, rc_tls = None, rc_token = from_token demo_crypto demo_token,
      rc_logging = (logging demo_config)\<lparr>directory := ''/etc/api/logs''\<rparr>,
      rc_execution = execution_default, rc_windows_service = windows_service_default,
      rc_routes = [demo_resolved_route]\<rparr>"

lemmas demo_config_defs =
  demo_route_def demo_config_def demo_env_def demo_resolved_route_def demo_resolved_def
  cooldown_default_def request_args_default_def execution_default_def windows_service_default_def
  default_service_name_def default_hosts_def default_port_def default_token_failure_cooldown_seconds_def
  default_token_failure_max_tracked_ips_def default_max_total_concurrency_def
  default_shutdown_timeout_seconds_def default_retention_seconds_def default_max_output_bytes_def
  default_max_arg_count_def default_max_arg_bytes_def default_max_total_arg_bytes_def

lemma demo_parents:
  "path_parent ''/etc/api/config.yaml'' = Some ''/etc/api''"
  "path_parent ''/etc/api/run.sh'' = Some ''/etc/api''"
  by (simp_all add: path_parent_def path_components_def segment_components_def path_of_def)

lemma demo_joins:
  "absolute_from ''/etc/api'' ''logs'' = ''/etc/api/logs''"
  "absolute_from ''/etc/api'' ''run.sh'' = ''/etc/api/run.sh''"
  by (simp_all add: absolute_from_def path_join_def is_absolute_def ends_with_def)

lemma demo_validate_route: "validate_route demo_route = Inr ()"
  by (simp add: validate_route_def validate_args_def demo_route_def request_args_default_def
      script_is_batch_def program_is_cmd_def path_extension_def path_file_name_def path_components_def
      segment_components_def rsplit_dot_def ends_with_def to_ascii_lowercase_def ascii_lower_def
      default_max_arg_count_def default_max_arg_bytes_def default_max_total_arg_bytes_def)

lemma demo_resolve_route:
  "resolve_route demo_env ''/etc/api'' LocalService [] demo_route = Inr demo_resolved_route"
  by (simp add: resolve_route_def demo_validate_route)
    (simp add: demo_config_defs demo_parents demo_joins)

lemma demo_resolve_token:
  "resolve_token demo_env ''/etc/api'' (Environment ''TOKEN'') = Inr (from_token demo_crypto demo_token)"
  by (simp add: resolve_token_def demo_env_def demo_token_valid is_blank_def strip_blank_def)

lemma demo_load: "load demo_env ''/etc/api/config.yaml'' = ([''/etc/api/logs/tasks''], Inr demo_resolved)"
proof -
  have "resolve_checks demo_env demo_config ''/etc/api/config.yaml'' =
    Inr (''/etc/api'', [\<lparr>host = V4 0x7F000001, port = 27415\<rparr>], from_token demo_crypto demo_token, None,
         ''/etc/api/logs'')"
    using demo_resolve_token
    by (simp add: resolve_checks_def resolve_server_def validate_listeners_def validate_access_def
        validate_service_name_def resolve_tls_def demo_parents demo_joins demo_config_defs)
  moreover have "resolve_routes demo_env ''/etc/api'' LocalService [] (routes demo_config) = Inr [demo_resolved_route]"
    by (simp add: demo_config_def demo_resolve_route)
  moreover have "service_account (windows_service demo_config) = LocalService"
    by (simp add: demo_config_defs)
  ultimately have "resolve demo_env demo_config ''/etc/api/config.yaml'' = ([''/etc/api/logs/tasks''], Inr demo_resolved)"
    by (simp add: resolve_def demo_env_def demo_resolved_def path_join_def is_absolute_def ends_with_def)
      (simp add: demo_config_defs)
  then show ?thesis by (simp add: load_def demo_env_def)
qed

text \<open>
  C18. Every configuration that \<open>Config::load\<close> accepts is well formed: at least one
  listener and no two equal ones, at least one CIDR, no limit that is zero, at least one
  route, route paths pairwise distinct and none on or below a system endpoint, dynamic
  arguments never for the \<open>cmd\<close> executor and, under LocalSystem, only with an allowlist,
  and the compiled patterns exactly the configured ones. Everything it refers to was there: every
  script a file, every working directory a directory, TLS files, the token of a usable length from one
  of the three sources, the log directory; the old and the new form of listeners are not mixed, no route
  with dynamic arguments has a batch file or \<open>cmd\<close> as its program, and the service name is one the
  system accepts.
\<close>

theorem loaded_config_ok:
  assumes "load E p = (ds, Inr rc)"
  shows "resolved_config_ok rc \<and> config_loaded E p rc"
  using assms by (rule load_ok_cases) (blast intro: resolve_ok resolve_loaded)

theorem loaded_config_ok_witness:
  "load demo_env ''/etc/api/config.yaml'' = ([''/etc/api/logs/tasks''], Inr demo_resolved) \<and>
   resolved_config_ok demo_resolved \<and> config_loaded demo_env ''/etc/api/config.yaml'' demo_resolved"
  using demo_load loaded_config_ok [OF demo_load] by simp

text \<open>
  C19. \<open>validate_request_args\<close> accepts exactly the argument lists the route admits: none
  at all where dynamic arguments are off, no more than \<open>max_count\<close>, each within its byte
  limit, free of NUL and on the allowlist when there is one, and in total within
  \<open>max_total_bytes\<close> (the sum saturates at the largest \<open>usize\<close>).
\<close>

theorem request_args_exact:
  "validate_request_args is_match r as = Inr () \<longleftrightarrow>
     (as = [] \<or> args_enabled (r_request_args r)) \<and>
     length as \<le> unat (max_count (r_request_args r)) \<and>
     (\<forall>a\<in>set as. arg_admitted is_match r a) \<and>
     min (total_bytes as) (2 ^ 64 - 1) \<le> unat (max_total_bytes (r_request_args r))"
  by (rule validate_request_args_ok)

theorem request_args_exact_witness:
  "validate_request_args (\<lambda>_ _. False) demo_resolved_route [''status''] = Inr () \<and>
   validate_request_args (\<lambda>_ _. False) demo_resolved_route [''; rm''] \<noteq> Inr ()"
  by (simp only: request_args_exact)
    (simp add: demo_config_defs arg_admitted_def total_bytes_def)

text \<open>
  Address normalisation identifies exactly the IPv4-mapped IPv6 form of an IPv4 address
  with that address and leaves every other address alone, so no second spelling of a peer
  address can escape the CIDR list or the cooldown table.
\<close>

theorem normalize_ip_exact:
  "(normalize_ip a = V4 b \<longleftrightarrow> a = V4 b \<or> a = V6 (push_bit 32 0xFFFF + ucast b)) \<and>
   (normalize_ip a = V6 c \<longleftrightarrow> a = V6 c \<and> to_ipv4_mapped c = None)"
proof -
  have m: "to_ipv4_mapped (push_bit 32 0xFFFF + ucast b) = Some b" for b :: "32 word"
    by (rule to_ipv4_mapped_of)
  show ?thesis
  proof (cases a)
    case (V4 x)
    then show ?thesis by auto
  next
    case (V6 x)
    show ?thesis
    proof (cases "to_ipv4_mapped x")
      case None
      with m have "x \<noteq> push_bit 32 0xFFFF + ucast b" by force
      with None V6 show ?thesis by auto
    next
      case (Some y)
      with m have "x = push_bit 32 0xFFFF + ucast b \<longleftrightarrow> y = b"
        using to_ipv4_mapped_Some by fastforce
      with Some V6 show ?thesis by auto
    qed
  qed
qed

text \<open>
  \<open>resolve_server\<close> accepts exactly a non-empty list of pairwise distinct endpoints,
  given either as \<open>listeners\<close> alone or as hosts sharing one port (with the defaults
  127.0.0.1 and 27415), and returns that list; mixing the two forms is refused.
\<close>

theorem resolve_server_exact:
  "resolve_server s = Inr ls \<longleftrightarrow>
     ls \<noteq> [] \<and> distinct ls \<and>
     (if listeners s = [] then
        ls = map (\<lambda>h. \<lparr>host = h, port = the_default default_port (server_port s)\<rparr>)
               (the_default default_hosts (hosts s))
      else hosts s = None \<and> server_port s = None \<and> ls = listeners s)"
  unfolding resolve_server_def the_default_def
  by (auto simp: result_simps Let_def)

end
