(* ===== verification/Files.thy ===== *)
theory Files
  imports Std
begin

text \<open>
  The file system as the task store and the output readers use it (\<open>std::fs\<close>,
  \<open>tokio::fs\<close>): files with their bytes, directories, and a schedule of failures. The
  \<open>n\<close>-th operation succeeds when the schedule has \<open>None\<close> there; \<open>FailOpen\<close> fails
  before anything changes, and \<open>FailAfter k\<close> fails after \<open>k\<close> bytes of the data have
  reached the file. A \<open>remove_dir_all\<close> that fails as the \<open>n\<close>-th operation leaves the entries
  that \<open>fs_left n\<close> admits. A theorem over an arbitrary schedule covers every pattern of I/O
  errors, torn writes included.
\<close>

datatype io_fault = FailOpen | FailAfter nat

record fs =
  fs_files :: "string \<Rightarrow> bytes option"
  fs_dirs :: "string \<Rightarrow> bool"
  fs_fault :: "nat \<Rightarrow> io_fault option"
  fs_left :: "nat \<Rightarrow> string \<Rightarrow> bool"
  fs_clock :: nat

definition fs_tick :: "fs \<Rightarrow> fs" where
  "fs_tick f = f\<lparr>fs_clock := Suc (fs_clock f)\<rparr>"

definition fs_next_fault :: "fs \<Rightarrow> io_fault option" where
  "fs_next_fault f = fs_fault f (fs_clock f)"

definition fs_put :: "string \<Rightarrow> bytes \<Rightarrow> fs \<Rightarrow> fs" where
  "fs_put p data f = f\<lparr>fs_files := (fs_files f)(p := Some data)\<rparr>"

definition fs_content :: "fs \<Rightarrow> string \<Rightarrow> bytes" where
  "fs_content f p = (case fs_files f p of None \<Rightarrow> [] | Some data \<Rightarrow> data)"

text \<open>\<open>create_dir\<close> fails on a path that exists; \<open>create_dir_all\<close> makes all ancestors too.\<close>

definition fs_create_dir :: "string \<Rightarrow> fs \<Rightarrow> fs \<times> bool" where
  "fs_create_dir p f =
     (if fs_next_fault f \<noteq> None \<or> fs_dirs f p \<or> fs_files f p \<noteq> None then (fs_tick f, False)
      else (fs_tick (f\<lparr>fs_dirs := (fs_dirs f)(p := True)\<rparr>), True))"

definition fs_create_dir_all :: "string \<Rightarrow> fs \<Rightarrow> fs \<times> bool" where
  "fs_create_dir_all p f =
     (if fs_next_fault f \<noteq> None then (fs_tick f, False)
      else (fs_tick (f\<lparr>fs_dirs := (\<lambda>q. fs_dirs f q \<or> q = p \<or> starts_with (q @ ''/'') p)\<rparr>), True))"

definition fs_write :: "string \<Rightarrow> bytes \<Rightarrow> fs \<Rightarrow> fs \<times> bool" where
  "fs_write p data f =
     (case fs_next_fault f of
        None \<Rightarrow> (fs_tick (fs_put p data f), True)
      | Some FailOpen \<Rightarrow> (fs_tick f, False)
      | Some (FailAfter k) \<Rightarrow> (fs_tick (fs_put p (take k data) f), False))"

text \<open>\<open>OpenOptions::new().create(true).append(true)\<close>, \<open>write_all\<close> and \<open>flush\<close>.\<close>

definition fs_append :: "string \<Rightarrow> bytes \<Rightarrow> fs \<Rightarrow> fs \<times> bool" where
  "fs_append p data f =
     (case fs_next_fault f of
        None \<Rightarrow> (fs_tick (fs_put p (fs_content f p @ data) f), True)
      | Some FailOpen \<Rightarrow> (fs_tick f, False)
      | Some (FailAfter k) \<Rightarrow> (fs_tick (fs_put p (fs_content f p @ take k data) f), False))"

text \<open>Opening for reading: a missing file is told apart from any other failure.\<close>

datatype open_result = Opened bytes | NotFound | OpenFailed

definition fs_open :: "string \<Rightarrow> fs \<Rightarrow> fs \<times> open_result" where
  "fs_open p f =
     (fs_tick f,
      if fs_next_fault f \<noteq> None then OpenFailed
      else (case fs_files f p of None \<Rightarrow> NotFound | Some data \<Rightarrow> Opened data))"

text \<open>A call on an open handle or a path that only succeeds or fails (\<open>metadata\<close>, \<open>seek\<close>, a read).\<close>

definition fs_query :: "fs \<Rightarrow> fs \<times> bool" where
  "fs_query f = (fs_tick f, fs_next_fault f = None)"

text \<open>\<open>remove_dir_all\<close>; a failed call may have removed a part.\<close>

definition fs_below :: "string \<Rightarrow> string \<Rightarrow> bool" where
  "fs_below p q \<longleftrightarrow> q = p \<or> starts_with (p @ ''/'') q"

definition fs_remove_dir_all :: "string \<Rightarrow> fs \<Rightarrow> fs \<times> bool" where
  "fs_remove_dir_all p f =
     (let gone = (\<lambda>q. fs_below p q \<and> (fs_next_fault f = None \<or> \<not> fs_left f (fs_clock f) q)) in
      (fs_tick (f\<lparr>fs_files := (\<lambda>q. if gone q then None else fs_files f q),
                  fs_dirs := (\<lambda>q. \<not> gone q \<and> fs_dirs f q)\<rparr>), fs_next_fault f = None))"

text \<open>A schedule without failures.\<close>

definition fs_reliable :: "fs \<Rightarrow> bool" where
  "fs_reliable f \<longleftrightarrow> (\<forall>n. fs_fault f n = None)"

section \<open>Lemmas\<close>

lemma fs_tick_simps [simp]:
  "fs_files (fs_tick f) = fs_files f" "fs_dirs (fs_tick f) = fs_dirs f"
  "fs_fault (fs_tick f) = fs_fault f" "fs_clock (fs_tick f) = Suc (fs_clock f)"
  by (simp_all add: fs_tick_def)

lemma fs_put_simps [simp]:
  "fs_files (fs_put p d f) = (fs_files f)(p := Some d)" "fs_dirs (fs_put p d f) = fs_dirs f"
  "fs_fault (fs_put p d f) = fs_fault f" "fs_clock (fs_put p d f) = fs_clock f"
  by (simp_all add: fs_put_def)

lemma fs_content_put [simp]: "fs_content (fs_put p d f) q = (if q = p then d else fs_content f q)"
  by (simp add: fs_content_def)

lemma fs_content_tick [simp]: "fs_content (fs_tick f) q = fs_content f q"
  by (simp add: fs_content_def)

lemma fs_reliable_tick [simp]: "fs_reliable (fs_tick f) = fs_reliable f"
  by (simp add: fs_reliable_def)

lemma fs_reliable_put [simp]: "fs_reliable (fs_put p d f) = fs_reliable f"
  by (simp add: fs_reliable_def)

lemma fs_append_ok:
  "fs_append p d f = (f', True) \<Longrightarrow> f' = fs_tick (fs_put p (fs_content f p @ d) f)"
  by (auto simp: fs_append_def split: option.splits io_fault.splits)

lemma fs_append_reliable:
  "fs_reliable f \<Longrightarrow> fs_append p d f = (fs_tick (fs_put p (fs_content f p @ d) f), True)"
  by (simp add: fs_append_def fs_reliable_def fs_next_fault_def)

text \<open>Whatever happens, an append only adds a prefix of its data to its own file.\<close>

lemma fs_append_prefix:
  assumes "fs_append p d f = (f', ok)"
  shows "\<exists>k. fs_content f' p = fs_content f p @ take k d" and "q \<noteq> p \<Longrightarrow> fs_files f' q = fs_files f q"
proof -
  show "\<exists>k. fs_content f' p = fs_content f p @ take k d"
  proof (cases "fs_next_fault f")
    case None
    with assms have "fs_content f' p = fs_content f p @ take (length d) d"
      by (auto simp: fs_append_def)
    then show ?thesis ..
  next
    case (Some e)
    with assms have "fs_content f' p = fs_content f p @ take (case e of FailOpen \<Rightarrow> 0 | FailAfter k \<Rightarrow> k) d"
      by (auto simp: fs_append_def split: io_fault.splits)
    then show ?thesis ..
  qed
  from assms show "q \<noteq> p \<Longrightarrow> fs_files f' q = fs_files f q"
    by (auto simp: fs_append_def split: option.splits io_fault.splits)
qed

lemma fs_append_fault: "fs_append p d f = (f', ok) \<Longrightarrow> fs_fault f' = fs_fault f"
  by (auto simp: fs_append_def split: option.splits io_fault.splits)

end
