(* ===== verification/Store.thy ===== *)
theory Store
  imports Model Files
begin

text \<open>
  The task store (\<open>src/src/store.rs\<close>): one record per task with its snapshot, output
  counters and stop channel; the append-only journal \<open>events.jsonl\<close> and its recovery
  after a restart; reading output in chunks; expiry. A record is a value of
  \<open>task_record\<close> and its methods are state-passing functions on it and the file
  system; the store maps ids to records. \<open>serde_json\<close>, \<open>encoding_rs\<close>, \<open>base64\<close>,
  the text of a UUID and the \<open>time\<close> crate are parameters (\<open>store_lib\<close>). Of the stop
  channel (\<open>tokio::sync::watch\<close>) the record keeps the values passed to
  \<open>send_replace\<close>, oldest first. A \<open>HashMap\<close> yields its keys in an unspecified order,
  which is an argument where the code iterates.
\<close>

section \<open>Parameters and state\<close>

record store_lib =
  uuid_text :: "uuid \<Rightarrow> string"
  snapshot_to_json :: "task_snapshot \<Rightarrow> bytes option"
  snapshot_from_json :: "string \<Rightarrow> task_snapshot option"
  decode_bytes :: "output_encoding \<Rightarrow> bytes \<Rightarrow> string \<times> bool"
  base64_encode :: "bytes \<Rightarrow> string"
  store_time :: time_lib

record task_record =
  rec_id :: uuid
  rec_directory :: string
  rec_snapshot :: task_snapshot
  stdout_bytes :: u64
  stderr_bytes :: u64
  combined_bytes :: u64
  captured_bytes :: u64
  rec_truncated :: bool
  stop_sent :: "stop_reason option list"

record task_store =
  root :: string
  max_output_bytes :: u64
  retention :: u64
  tasks :: "uuid \<Rightarrow> task_record option"
  active_count :: usize
  notifications :: nat

section \<open>Records\<close>

definition record_new :: "task_snapshot \<Rightarrow> string \<Rightarrow> task_record" where
  "record_new s dir =
     \<lparr>rec_id = task_id s, rec_directory = dir, rec_snapshot = s, stdout_bytes = 0,
      stderr_bytes = 0, combined_bytes = 0, captured_bytes = 0, rec_truncated = False,
      stop_sent = []\<rparr>"

definition snapshot :: "task_record \<Rightarrow> task_snapshot" where
  "snapshot r = (rec_snapshot r)\<lparr>output_truncated := rec_truncated r\<rparr>"

definition request_stop_now :: "stop_reason \<Rightarrow> task_record \<Rightarrow> task_record" where
  "request_stop_now why r = r\<lparr>stop_sent := stop_sent r @ [Some why]\<rparr>"

definition events_path :: "task_record \<Rightarrow> string" where
  "events_path r = path_join (rec_directory r) ''events.jsonl''"

definition stream_path :: "task_record \<Rightarrow> output_stream \<Rightarrow> string" where
  "stream_path r s = path_join (rec_directory r) (stream_file_name s)"

definition persist :: "store_lib \<Rightarrow> task_record \<Rightarrow> fs \<Rightarrow> fs \<times> (error + unit)" where
  "persist L r f =
     (case snapshot_to_json L (snapshot r) of
        None \<Rightarrow> (f, Inl (StoreError SnapshotNotJson))
      | Some line \<Rightarrow>
         (case fs_append (events_path r) (line @ [LF]) f of
            (f', ok) \<Rightarrow> (f', if ok then Inr () else Inl (StoreError (StoreIo (events_path r))))))"

definition update_snapshot :: "(task_snapshot \<Rightarrow> task_snapshot) \<Rightarrow> task_record \<Rightarrow> task_record" where
  "update_snapshot upd r =
     r\<lparr>rec_snapshot := (upd (rec_snapshot r))\<lparr>output_truncated := rec_truncated r\<rparr>\<rparr>"

text \<open>The lock of the snapshot is given up between the update and the append. Only the executor of the
  task updates the snapshot, so the two are one step here; the truncation flag, which a reader thread may
  raise in between, is taken as it is at the update.\<close>

definition transition ::
  "store_lib \<Rightarrow> (task_snapshot \<Rightarrow> task_snapshot) \<Rightarrow> task_record \<Rightarrow> fs
     \<Rightarrow> task_record \<times> fs \<times> (error + unit)" where
  "transition L upd r f = (let r' = update_snapshot upd r in (r', persist L r' f))"

definition view_sizes :: "task_record \<Rightarrow> output_sizes" where
  "view_sizes r =
     (case output_mode (snapshot r) of
        Separate \<Rightarrow> \<lparr>size_stdout = Some (stdout_bytes r), size_stderr = Some (stderr_bytes r),
                      size_combined = None\<rparr>
      | CombinedMode \<Rightarrow> \<lparr>size_stdout = None, size_stderr = None,
                          size_combined = Some (combined_bytes r)\<rparr>)"

definition view_links :: "store_lib \<Rightarrow> task_record \<Rightarrow> task_links" where
  "view_links L r =
     (let base = ''/tasks/'' @ uuid_text L (rec_id r) in
      case output_mode (snapshot r) of
        Separate \<Rightarrow>
          \<lparr>link_status = base, link_stdout = Some (base @ ''/output?stream=stdout''),
           link_stderr = Some (base @ ''/output?stream=stderr''), link_combined = None,
           link_cancel = base @ ''/cancel'', link_kill = base @ ''/kill''\<rparr>
      | CombinedMode \<Rightarrow>
          \<lparr>link_status = base, link_stdout = None, link_stderr = None,
           link_combined = Some (base @ ''/output?stream=combined''),
           link_cancel = base @ ''/cancel'', link_kill = base @ ''/kill''\<rparr>)"

definition record_view :: "store_lib \<Rightarrow> int \<Rightarrow> task_record \<Rightarrow> task_view" where
  "record_view L now r =
     (let s = snapshot r in
      \<lparr>view_success = (status s = Succeeded), view_task = s,
       duration_ms = elapsed_ms (store_time L) now
         (case started_at s of Some t \<Rightarrow> t | None \<Rightarrow> created_at s) (finished_at s),
       output_bytes = view_sizes r, links = view_links L r\<rparr>)"

fun set_stream_bytes :: "output_stream \<Rightarrow> u64 \<Rightarrow> task_record \<Rightarrow> task_record" where
  "set_stream_bytes Stdout n r = r\<lparr>stdout_bytes := n\<rparr>"
| "set_stream_bytes Stderr n r = r\<lparr>stderr_bytes := n\<rparr>"
| "set_stream_bytes CombinedStream n r = r\<lparr>combined_bytes := n\<rparr>"

text \<open>The loop of \<open>refresh_output_sizes\<close>: \<open>metadata\<close> of each file, skipped when it fails.\<close>

fun refresh_loop :: "output_stream list \<Rightarrow> u64 \<Rightarrow> task_record \<Rightarrow> fs \<Rightarrow> u64 \<times> task_record \<times> fs" where
  "refresh_loop [] tot r f = (tot, r, f)"
| "refresh_loop (s # ss) tot r f =
     (case fs_open (stream_path r s) f of
        (f', Opened data) \<Rightarrow>
          refresh_loop ss (saturating_add tot (of_nat (length data)))
            (set_stream_bytes s (of_nat (length data)) r) f'
      | (f', _) \<Rightarrow> refresh_loop ss tot r f')"

definition refresh_output_sizes :: "task_record \<Rightarrow> fs \<Rightarrow> task_record \<times> fs" where
  "refresh_output_sizes r f =
     (case refresh_loop [Stdout, Stderr, CombinedStream] 0 r f of
        (tot, r', f') \<Rightarrow> (r'\<lparr>captured_bytes := tot\<rparr>, f'))"

section \<open>Store operations\<close>

definition task_directory :: "store_lib \<Rightarrow> task_store \<Rightarrow> uuid \<Rightarrow> string" where
  "task_directory L st tid = path_join (path_join (root st) ''tasks'') (uuid_text L tid)"

definition initial_snapshot :: "uuid \<Rightarrow> string \<Rightarrow> string \<Rightarrow> output_mode \<Rightarrow> output_encoding \<Rightarrow> task_snapshot" where
  "initial_snapshot tid ts rt mode enc =
     \<lparr>task_id = tid, route = rt, status = Starting, output_mode = mode, output_encoding = enc,
      created_at = ts, started_at = None, finished_at = None, exit_code = None,
      task_termination = None, error_text = None, output_truncated = False\<rparr>"

fun mode_streams :: "output_mode \<Rightarrow> output_stream list" where
  "mode_streams Separate = [Stdout, Stderr]"
| "mode_streams CombinedMode = [CombinedStream]"

fun write_empty :: "string list \<Rightarrow> fs \<Rightarrow> fs \<times> (error + unit)" where
  "write_empty [] f = (f, Inr ())"
| "write_empty (p # ps) f =
     (case fs_write p [] f of
        (f', True) \<Rightarrow> write_empty ps f'
      | (f', False) \<Rightarrow> (f', Inl (StoreError (StoreIo p))))"

text \<open>\<open>tid\<close> is the fresh UUID and \<open>ts\<close> the time stamp that the call draws. The call is one step: the
  moment between the insertion of the record and the increment of the counter is not seen.\<close>

definition create ::
  "store_lib \<Rightarrow> uuid \<Rightarrow> string \<Rightarrow> string \<Rightarrow> output_mode \<Rightarrow> output_encoding \<Rightarrow> task_store \<Rightarrow> fs
     \<Rightarrow> task_store \<times> fs \<times> (error + task_record)" where
  "create L tid ts rt mode enc st f =
     (let dir = task_directory L st tid;
          s = initial_snapshot tid ts rt mode enc
      in case fs_create_dir dir f of
           (f1, False) \<Rightarrow> (st, f1, Inl (StoreError (TaskDirectoryCreate dir)))
         | (f1, True) \<Rightarrow>
            (case write_empty (map (\<lambda>x. path_join dir (stream_file_name x)) (mode_streams mode)) f1 of
               (f2, Inl e) \<Rightarrow> (st, f2, Inl e)
             | (f2, Inr _) \<Rightarrow>
                (let r = record_new s dir in
                 case persist L r f2 of
                   (f3, Inl e) \<Rightarrow> (st, f3, Inl e)
                 | (f3, Inr _) \<Rightarrow>
                    (st\<lparr>tasks := (tasks st)(tid \<mapsto> r), active_count := active_count st + 1\<rparr>, f3, Inr r))))"

definition get :: "task_store \<Rightarrow> uuid \<Rightarrow> task_record option" where
  "get st tid = tasks st tid"

definition store_view :: "store_lib \<Rightarrow> int \<Rightarrow> task_store \<Rightarrow> uuid \<Rightarrow> task_view option" where
  "store_view L now st tid = map_option (record_view L now) (get st tid)"

definition request_stop :: "task_store \<Rightarrow> uuid \<Rightarrow> stop_reason \<Rightarrow> task_store \<times> bool" where
  "request_stop st tid why =
     (case get st tid of
        None \<Rightarrow> (st, False)
      | Some r \<Rightarrow>
          if is_finished (status (snapshot r)) then (st, False)
          else (st\<lparr>tasks := (tasks st)(tid \<mapsto> request_stop_now why r)\<rparr>, True))"

text \<open>\<open>ids\<close> lists the keys of the map in the order its iterator yields them.\<close>

definition cancel_one :: "stop_reason \<Rightarrow> uuid \<Rightarrow> task_store \<Rightarrow> task_store" where
  "cancel_one why tid st =
     (case tasks st tid of
        None \<Rightarrow> st
      | Some r \<Rightarrow>
          if is_finished (status (snapshot r)) then st
          else st\<lparr>tasks := (tasks st)(tid \<mapsto> request_stop_now why r)\<rparr>)"

definition cancel_all :: "uuid list \<Rightarrow> stop_reason \<Rightarrow> task_store \<Rightarrow> task_store" where
  "cancel_all ids why st = fold (cancel_one why) ids st"

definition mark_finished :: "task_store \<Rightarrow> task_store" where
  "mark_finished st = st\<lparr>active_count := active_count st - 1, notifications := notifications st + 1\<rparr>"

definition decode_output :: "store_lib \<Rightarrow> output_encoding \<Rightarrow> bytes \<Rightarrow> string \<times> bool" where
  "decode_output L enc data = decode_bytes L enc data"

definition max_limit :: usize where
  "max_limit = 1024 * 1024"

fun mode_mismatch :: "output_mode \<Rightarrow> output_stream \<Rightarrow> store_error option" where
  "mode_mismatch Separate CombinedStream = Some TaskOutputSeparate"
| "mode_mismatch CombinedMode Stdout = Some TaskOutputCombined"
| "mode_mismatch CombinedMode Stderr = Some TaskOutputCombined"
| "mode_mismatch _ _ = None"

definition chunk_read_limit :: "output_encoding \<Rightarrow> usize \<Rightarrow> u64 \<Rightarrow> u64 \<Rightarrow> usize" where
  "chunk_read_limit enc limit file_size offset =
     (let n = min limit (file_size - offset)
      in if enc = Utf16le \<and> odd n then n - 1 else n)"

definition output_chunk ::
  "store_lib \<Rightarrow> task_store \<Rightarrow> uuid \<Rightarrow> output_stream \<Rightarrow> u64 \<Rightarrow> usize \<Rightarrow> fs
     \<Rightarrow> fs \<times> (error + output_chunk)" where
  "output_chunk L st tid stream offset limit f =
     (if limit = 0 \<or> limit > max_limit then (f, Inl (StoreError LimitOutOfRange))
      else (case get st tid of
        None \<Rightarrow> (f, Inl (StoreError TaskMissing))
      | Some r \<Rightarrow>
       (let s = rec_snapshot r; p = stream_path r stream in
        case mode_mismatch (output_mode s) stream of
          Some e \<Rightarrow> (f, Inl (StoreError e))
        | None \<Rightarrow>
         (case fs_open p f of
            (f1, Opened content) \<Rightarrow>
             (case fs_query f1 of
                (f2, False) \<Rightarrow> (f2, Inl (StoreError (StoreIo p)))
              | (f2, True) \<Rightarrow>
                 (let file_size = of_nat (length content) :: u64 in
                  if offset > file_size then (f2, Inl (StoreError (OffsetBeyondSize offset file_size)))
                  else (case fs_query f2 of
                     (f3, False) \<Rightarrow> (f3, Inl (StoreError (StoreIo p)))
                   | (f3, True) \<Rightarrow>
                      (let n = chunk_read_limit (output_encoding s) limit file_size offset;
                           data = take (unat n) (drop (unat offset) content)
                       in case fs_query f3 of
                            (f4, False) \<Rightarrow> (f4, Inl (StoreError (StoreIo p)))
                          | (f4, True) \<Rightarrow>
                             (let next = offset + of_nat (length data);
                                  (text, errors) = decode_output L (output_encoding s) data
                              in (f4, Inr
                                   \<lparr>chunk_success = True, chunk_task = tid, chunk_stream = stream,
                                    chunk_encoding = encoding_label (output_encoding s),
                                    chunk_offset = offset, next_offset = next,
                                    chunk_eof = (is_finished (status s) \<and> next \<ge> file_size),
                                    chunk_content = text, decoding_errors = errors,
                                    content_base64 =
                                      (if errors then Some (base64_encode L data) else None)\<rparr>))))))
          | (f1, _) \<Rightarrow> (f1, Inl (StoreError (OutputFileMissing p)))))))"

section \<open>Recovery and expiry\<close>

text \<open>The fold of \<open>read_latest_snapshot\<close>: a line that is no UTF-8 ends it with an error, a line
  that is no snapshot is skipped.\<close>

fun latest_snapshot :: "store_lib \<Rightarrow> string \<Rightarrow> task_snapshot option \<Rightarrow> string list \<Rightarrow> error + task_snapshot option" where
  "latest_snapshot L p acc [] = Inr acc"
| "latest_snapshot L p acc (l # ls) =
     (if \<not> utf8_valid l then Inl (StoreError (LineNotUtf8 p))
      else latest_snapshot L p
             (case snapshot_from_json L l of Some s \<Rightarrow> Some s | None \<Rightarrow> acc) ls)"

definition read_latest_snapshot :: "store_lib \<Rightarrow> string \<Rightarrow> fs \<Rightarrow> fs \<times> (error + task_snapshot option)" where
  "read_latest_snapshot L p f =
     (case fs_open p f of
        (f', NotFound) \<Rightarrow> (f', Inr None)
      | (f', OpenFailed) \<Rightarrow> (f', Inl (StoreError (StoreIo p)))
      | (f', Opened data) \<Rightarrow> (f', latest_snapshot L p None (raw_lines data)))"

definition interrupt_unfinished :: "string \<Rightarrow> task_snapshot \<Rightarrow> task_snapshot" where
  "interrupt_unfinished ts s =
     (if is_finished (status s) then s
      else s\<lparr>status := Interrupted, finished_at := Some ts,
             error_text := Some M_interrupted_at_restart\<rparr>)"

text \<open>What \<open>read_dir\<close> yields: an entry with its file type, or an error of either call.\<close>

datatype dir_entry = DirEntry string | OtherEntry string | EntryError

definition recover_dir :: "store_lib \<Rightarrow> string \<Rightarrow> string \<Rightarrow> task_store \<Rightarrow> fs \<Rightarrow> task_store \<times> fs \<times> (error + unit)" where
  "recover_dir L ts dir st f =
     (case read_latest_snapshot L (path_join dir ''events.jsonl'') f of
        (f1, Inl e) \<Rightarrow> (st, f1, Inl e)
      | (f1, Inr None) \<Rightarrow> (st, f1, Inr ())
      | (f1, Inr (Some s)) \<Rightarrow>
         (case refresh_output_sizes (record_new (interrupt_unfinished ts s) dir) f1 of
            (r, f2) \<Rightarrow>
              (case (if status (rec_snapshot r) = Interrupted then persist L r f2 else (f2, Inr ())) of
                 (f3, Inl e) \<Rightarrow> (st, f3, Inl e)
               | (f3, Inr _) \<Rightarrow> (st\<lparr>tasks := (tasks st)(rec_id r \<mapsto> r)\<rparr>, f3, Inr ()))))"

fun recover_loop :: "store_lib \<Rightarrow> string \<Rightarrow> dir_entry list \<Rightarrow> task_store \<Rightarrow> fs \<Rightarrow> task_store \<times> fs \<times> (error + unit)" where
  "recover_loop L ts [] st f = (st, f, Inr ())"
| "recover_loop L ts (EntryError # es) st f =
     (st, f, Inl (StoreError (StoreIo (path_join (root st) ''tasks''))))"
| "recover_loop L ts (OtherEntry _ # es) st f = recover_loop L ts es st f"
| "recover_loop L ts (DirEntry dir # es) st f =
     (case recover_dir L ts dir st f of
        (st', f', Inl e) \<Rightarrow> (st', f', Inl e)
      | (st', f', Inr _) \<Rightarrow> recover_loop L ts es st' f')"

definition recover :: "store_lib \<Rightarrow> string \<Rightarrow> dir_entry list \<Rightarrow> task_store \<Rightarrow> fs \<Rightarrow> task_store \<times> fs \<times> (error + unit)" where
  "recover L ts entries st f =
     (case fs_query f of
        (f', False) \<Rightarrow> (st, f', Inl (StoreError (StoreIo (path_join (root st) ''tasks''))))
      | (f', True) \<Rightarrow> recover_loop L ts entries st f')"

text \<open>\<open>(now - finished_at).whole_seconds() >= self.retention.as_secs() as i64\<close>: the cast
  reads the 64 bits as a signed number.\<close>

definition expired :: "store_lib \<Rightarrow> int \<Rightarrow> u64 \<Rightarrow> task_snapshot \<Rightarrow> bool" where
  "expired L now keep s =
     (case Option.bind (finished_at s) (parse_rfc3339 (store_time L)) of
        None \<Rightarrow> False
      | Some t \<Rightarrow> whole_seconds (store_time L) (now - t) \<ge> sint keep)"

definition remove_task :: "uuid \<Rightarrow> task_store \<times> fs \<Rightarrow> task_store \<times> fs" where
  "remove_task tid sf =
     (case sf of (st, f) \<Rightarrow>
        (case tasks st tid of
           None \<Rightarrow> (st, f)
         | Some r \<Rightarrow> (st\<lparr>tasks := (tasks st)(tid := None)\<rparr>, fst (fs_remove_dir_all (rec_directory r) f))))"

definition expired_ids :: "store_lib \<Rightarrow> int \<Rightarrow> uuid list \<Rightarrow> task_store \<Rightarrow> uuid list" where
  "expired_ids L now ids st =
     filter (\<lambda>tid. case tasks st tid of None \<Rightarrow> False
                  | Some r \<Rightarrow> expired L now (retention st) (rec_snapshot r)) ids"

definition cleanup_expired :: "store_lib \<Rightarrow> int \<Rightarrow> uuid list \<Rightarrow> task_store \<Rightarrow> fs \<Rightarrow> task_store \<times> fs" where
  "cleanup_expired L now ids st f = fold remove_task (expired_ids L now ids st) (st, f)"

text \<open>\<open>locked\<close> is the outcome of \<open>FileExt::try_lock_exclusive\<close> (the \<open>fs2\<close> crate); \<open>ids\<close>
  the key order of the recovered map.\<close>

definition open_store ::
  "store_lib \<Rightarrow> string \<Rightarrow> int \<Rightarrow> bool \<Rightarrow> dir_entry list \<Rightarrow> (task_store \<Rightarrow> uuid list)
     \<Rightarrow> string \<Rightarrow> u64 \<Rightarrow> u64 \<Rightarrow> fs \<Rightarrow> fs \<times> (error + task_store)" where
  "open_store L ts now locked entries ids rt keep max_out f =
     (case fs_create_dir_all (path_join rt ''tasks'') f of
        (f1, False) \<Rightarrow> (f1, Inl (StoreError (StoreDirectoryCreate rt)))
      | (f1, True) \<Rightarrow>
         (case fs_append (path_join rt ''command-api.lock'') [] f1 of
            (f2, False) \<Rightarrow> (f2, Inl (StoreError (LockOpen (path_join rt ''command-api.lock''))))
          | (f2, True) \<Rightarrow>
             if \<not> locked then (f2, Inl (StoreError (LockHeld rt)))
             else
               (let st0 = \<lparr>root = rt, max_output_bytes = max_out, retention = keep,
                           tasks = (\<lambda>_. None), active_count = 0, notifications = 0\<rparr>
                in case recover L ts entries st0 f2 of
                     (st1, f3, Inl e) \<Rightarrow> (f3, Inl e)
                   | (st1, f3, Inr _) \<Rightarrow>
                      (case cleanup_expired L now (ids st1) st1 f3 of
                         (st2, f4) \<Rightarrow> (f4, Inr st2)))))"

section \<open>Specifications\<close>

text \<open>
  What \<open>serde_json\<close> is documented to do for one snapshot: its text reads back as the same
  snapshot, is UTF-8 and has no line break (control characters are escaped).
\<close>

definition json_roundtrips :: "store_lib \<Rightarrow> task_snapshot \<Rightarrow> bool" where
  "json_roundtrips L s \<longleftrightarrow>
     (\<exists>l. snapshot_to_json L s = Some l \<and> snapshot_from_json L l = Some s \<and>
          LF \<notin> set l \<and> CR \<notin> set l \<and> utf8_valid l)"

text \<open>A journal of complete lines from which recovery reads \<open>a\<close>.\<close>

definition journal_reads :: "store_lib \<Rightarrow> string \<Rightarrow> bytes \<Rightarrow> task_snapshot option \<Rightarrow> bool" where
  "journal_reads L p content a \<longleftrightarrow>
     (content = [] \<or> last content = LF) \<and> latest_snapshot L p None (raw_lines content) = Inr a"

definition enumerates :: "uuid list \<Rightarrow> task_store \<Rightarrow> bool" where
  "enumerates ids st \<longleftrightarrow> distinct ids \<and> set ids = dom (tasks st)"

section \<open>Lemmas on records\<close>

lemma snapshot_simps [simp]:
  "status (snapshot r) = status (rec_snapshot r)"
  "finished_at (snapshot r) = finished_at (rec_snapshot r)"
  "output_mode (snapshot r) = output_mode (rec_snapshot r)"
  "task_termination (snapshot r) = task_termination (rec_snapshot r)"
  "error_text (snapshot r) = error_text (rec_snapshot r)"
  "exit_code (snapshot r) = exit_code (rec_snapshot r)"
  "output_truncated (snapshot r) = rec_truncated r"
  by (simp_all add: snapshot_def)

lemma request_stop_now_simps [simp]:
  "rec_snapshot (request_stop_now why r) = rec_snapshot r"
  "rec_id (request_stop_now why r) = rec_id r"
  "rec_directory (request_stop_now why r) = rec_directory r"
  "stop_sent (request_stop_now why r) = stop_sent r @ [Some why]"
  "rec_truncated (request_stop_now why r) = rec_truncated r"
  by (simp_all add: request_stop_now_def)

lemma update_snapshot_simps [simp]:
  "rec_id (update_snapshot u r) = rec_id r"
  "rec_directory (update_snapshot u r) = rec_directory r"
  "rec_snapshot (update_snapshot u r) = (u (rec_snapshot r))\<lparr>output_truncated := rec_truncated r\<rparr>"
  "rec_truncated (update_snapshot u r) = rec_truncated r"
  "stop_sent (update_snapshot u r) = stop_sent r"
  "captured_bytes (update_snapshot u r) = captured_bytes r"
  "stdout_bytes (update_snapshot u r) = stdout_bytes r"
  "stderr_bytes (update_snapshot u r) = stderr_bytes r"
  "combined_bytes (update_snapshot u r) = combined_bytes r"
  "events_path (update_snapshot u r) = events_path r"
  by (simp_all add: update_snapshot_def events_path_def)

lemma record_new_simps [simp]:
  "rec_id (record_new s d) = task_id s" "rec_directory (record_new s d) = d"
  "rec_snapshot (record_new s d) = s" "rec_truncated (record_new s d) = False"
  "stop_sent (record_new s d) = []"
  by (simp_all add: record_new_def)

lemma set_stream_bytes_simps [simp]:
  "rec_id (set_stream_bytes s n r) = rec_id r"
  "rec_snapshot (set_stream_bytes s n r) = rec_snapshot r"
  "rec_truncated (set_stream_bytes s n r) = rec_truncated r"
  "rec_directory (set_stream_bytes s n r) = rec_directory r"
  by (cases s; simp)+

lemma refresh_loop_frame:
  "refresh_loop ss tot r f = (tot', r', f') \<Longrightarrow>
     rec_id r' = rec_id r \<and> rec_snapshot r' = rec_snapshot r \<and> rec_truncated r' = rec_truncated r
     \<and> rec_directory r' = rec_directory r"
  by (induction ss tot r f rule: refresh_loop.induct)
    (auto split: prod.splits open_result.splits)

lemma refresh_output_sizes_frame:
  "refresh_output_sizes r f = (r', f') \<Longrightarrow>
     rec_id r' = rec_id r \<and> rec_snapshot r' = rec_snapshot r \<and> rec_truncated r' = rec_truncated r
     \<and> rec_directory r' = rec_directory r"
  by (auto simp: refresh_output_sizes_def simp del: refresh_loop.simps dest!: refresh_loop_frame
      split: prod.splits)

section \<open>Lemmas on the journal\<close>

lemma latest_snapshot_snoc:
  "latest_snapshot L p acc (ls @ [l]) =
     and_then (latest_snapshot L p acc ls) (\<lambda>a.
       if \<not> utf8_valid l then Inl (StoreError (LineNotUtf8 p))
       else Inr (case snapshot_from_json L l of Some s \<Rightarrow> Some s | None \<Rightarrow> a))"
  by (induction ls arbitrary: acc) (auto simp: and_then_def)

lemma journal_reads_Nil: "journal_reads L p [] None"
  by (simp add: journal_reads_def)

lemma journal_reads_append:
  assumes "journal_reads L p content a" and "LF \<notin> set l" and "CR \<notin> set l" and "utf8_valid l"
  shows "journal_reads L p (content @ l @ [LF])
           (case snapshot_from_json L l of Some s \<Rightarrow> Some s | None \<Rightarrow> a)"
  using assms
  by (auto simp: journal_reads_def raw_lines_append_line latest_snapshot_snoc)

lemma persist_ok:
  assumes "persist L r f = (f', Inr ())"
  obtains l where "snapshot_to_json L (snapshot r) = Some l"
    and "f' = fs_tick (fs_put (events_path r) (fs_content f (events_path r) @ l @ [LF]) f)"
  using assms
  by (auto simp: persist_def split: option.splits prod.splits if_splits dest: fs_append_ok)

lemma persist_journal:
  assumes "persist L r f = (f', Inr ())" and "json_roundtrips L (snapshot r)"
    and "journal_reads L p (fs_content f (events_path r)) a"
  shows "journal_reads L p (fs_content f' (events_path r)) (Some (snapshot r))"
proof -
  from assms(1) obtain l where l: "snapshot_to_json L (snapshot r) = Some l"
    and f': "f' = fs_tick (fs_put (events_path r) (fs_content f (events_path r) @ l @ [LF]) f)"
    by (rule persist_ok)
  from assms(2) l have "snapshot_from_json L l = Some (snapshot r)" "LF \<notin> set l" "CR \<notin> set l" "utf8_valid l"
    by (auto simp: json_roundtrips_def)
  with journal_reads_append [OF assms(3)] f' show ?thesis by fastforce
qed

lemma read_latest_reliable:
  "fs_reliable f \<Longrightarrow> fs_files f p \<noteq> None \<Longrightarrow>
     read_latest_snapshot L p f = (fs_tick f, latest_snapshot L p None (raw_lines (fs_content f p)))"
  by (auto simp: read_latest_snapshot_def fs_open_def fs_reliable_def fs_next_fault_def fs_content_def
      split: option.splits)

section \<open>Lemmas on recovery, stops and expiry\<close>

lemma interrupt_unfinished_simps [simp]:
  "is_finished (status (interrupt_unfinished ts s))"
  "task_id (interrupt_unfinished ts s) = task_id s"
  "is_finished (status s) \<Longrightarrow> interrupt_unfinished ts s = s"
  by (auto simp: interrupt_unfinished_def)

lemma recover_dir_ok:
  assumes "recover_dir L ts dir st f = (st', f', Inr ())"
  shows "st' = st \<or> (\<exists>s r f1. read_latest_snapshot L (path_join dir ''events.jsonl'') f = (f1, Inr (Some s)) \<and>
           rec_snapshot r = interrupt_unfinished ts s \<and> rec_id r = task_id s \<and> \<not> rec_truncated r \<and>
           rec_directory r = dir \<and> st' = st\<lparr>tasks := (tasks st)(task_id s \<mapsto> r)\<rparr>)"
  using assms
  by (fastforce simp: recover_dir_def dest!: refresh_output_sizes_frame
      split: prod.splits sum.splits option.splits if_splits)

lemma cancel_one_tasks:
  "tasks (cancel_one why i st) =
     (tasks st)(i := (case tasks st i of None \<Rightarrow> None
        | Some r \<Rightarrow> Some (if is_finished (status (rec_snapshot r)) then r else request_stop_now why r)))"
  by (auto simp: cancel_one_def fun_eq_iff split: option.splits)

lemma cancel_all_tasks:
  "distinct ids \<Longrightarrow> tasks (cancel_all ids why st) i =
     (if i \<in> set ids then
        (case tasks st i of None \<Rightarrow> None
         | Some r \<Rightarrow> Some (if is_finished (status (rec_snapshot r)) then r else request_stop_now why r))
      else tasks st i)"
proof (induction ids arbitrary: st)
  case Nil
  then show ?case by (simp add: cancel_all_def)
next
  case (Cons j ids)
  have "cancel_all (j # ids) why st = cancel_all ids why (cancel_one why j st)"
    by (simp add: cancel_all_def)
  with Cons show ?case by (auto simp: cancel_one_tasks)
qed

lemma remove_task_frame: "retention (fst (remove_task i sf)) = retention (fst sf)"
  by (auto simp: remove_task_def split: prod.splits option.splits)

lemma remove_task_tasks: "tasks (fst (remove_task i sf)) = (tasks (fst sf))(i := None)"
  by (auto simp: remove_task_def fun_eq_iff split: prod.splits option.splits)

lemma fold_remove_tasks:
  "tasks (fst (fold remove_task ids sf)) i = (if i \<in> set ids then None else tasks (fst sf) i)"
  by (induction ids arbitrary: sf) (auto simp: remove_task_tasks)

lemma cleanup_tasks:
  assumes "enumerates ids st"
  shows "tasks (fst (cleanup_expired L now ids st f)) i =
    (case tasks st i of None \<Rightarrow> None
     | Some r \<Rightarrow> if expired L now (retention st) (rec_snapshot r) then None else Some r)"
  using assms
  by (auto simp: cleanup_expired_def fold_remove_tasks expired_ids_def enumerates_def domI split: option.splits)

text \<open>The number of bytes a chunk carries, over the naturals.\<close>

definition chunk_len :: "output_encoding \<Rightarrow> nat \<Rightarrow> nat \<Rightarrow> nat" where
  "chunk_len enc limit remaining =
     (let n = min limit remaining in if enc = Utf16le \<and> odd n then n - 1 else n)"

lemma even_unat: "even (unat (w :: 'a::len word)) \<longleftrightarrow> even w"
proof -
  have "bit (unat w) 0 = bit w 0" by (simp add: bit_unsigned_iff del: bit_0)
  then show ?thesis by (simp add: bit_0)
qed

lemma unat_pred_odd: "odd (w :: 'a::len word) \<Longrightarrow> unat (w - 1) = unat w - 1"
  by (metis even_zero unat_minus_one)

lemma unat_chunk_read_limit:
  assumes "sz < 2 ^ 64" and "unat offset \<le> sz"
  shows "unat (chunk_read_limit enc limit (of_nat sz) offset) =
           chunk_len enc (unat limit) (sz - unat offset)"
proof -
  have s: "unat (of_nat sz :: u64) = sz"
    using assms(1) by (simp add: unsigned_of_nat take_bit_nat_eq_self)
  then have "offset \<le> of_nat sz"
    using assms(2) by (simp add: word_le_nat_alt)
  then have d: "unat (of_nat sz - offset) = sz - unat offset"
    by (simp add: unat_sub s)
  have m: "unat (min limit (of_nat sz - offset)) = min (unat limit) (sz - unat offset)"
    by (simp add: min_def word_le_nat_alt d)
  show ?thesis
    using m even_unat [of "min limit (of_nat sz - offset)"]
    by (auto simp: chunk_read_limit_def chunk_len_def Let_def unat_pred_odd)
qed

lemma fs_reliable_steps [simp]:
  "fs_reliable f \<Longrightarrow> fs_query f = (fs_tick f, True)"
  "fs_reliable f \<Longrightarrow> fs_files f p = Some data \<Longrightarrow> fs_open p f = (fs_tick f, Opened data)"
  by (simp_all add: fs_query_def fs_open_def fs_reliable_def fs_next_fault_def)

definition chunk_bytes :: "output_encoding \<Rightarrow> nat \<Rightarrow> nat \<Rightarrow> bytes \<Rightarrow> bytes" where
  "chunk_bytes enc limit offset content =
     take (chunk_len enc limit (length content - offset)) (drop offset content)"

lemma length_chunk_bytes:
  "length (chunk_bytes enc limit offset content) = chunk_len enc limit (length content - offset)"
  by (auto simp: chunk_bytes_def chunk_len_def Let_def)

lemma chunk_len_le: "chunk_len enc limit remaining \<le> remaining"
  by (auto simp: chunk_len_def Let_def)

lemma unat_of_nat_small: "n < 2 ^ 64 \<Longrightarrow> unat (of_nat n :: u64) = n"
  by (simp add: unsigned_of_nat take_bit_nat_eq_self)

lemma output_chunk_reliable:
  assumes "fs_reliable f" and "get st i = Some r"
    and "mode_mismatch (output_mode (rec_snapshot r)) stream = None"
    and "fs_files f (stream_path r stream) = Some content" and "length content < 2 ^ 64"
    and "0 < limit" and "limit \<le> max_limit" and "unat offset \<le> length content"
  shows "\<exists>f' c. output_chunk L st i stream offset limit f = (f', Inr c) \<and>
    (let data = chunk_bytes (output_encoding (rec_snapshot r)) (unat limit) (unat offset) content in
       chunk_offset c = offset \<and> unat (next_offset c) = unat offset + length data \<and>
       chunk_eof c = (is_finished (status (rec_snapshot r)) \<and> unat (next_offset c) = length content) \<and>
       (chunk_content c, decoding_errors c) = decode_bytes L (output_encoding (rec_snapshot r)) data \<and>
       content_base64 c = (if decoding_errors c then Some (base64_encode L data) else None))"
proof -
  let ?enc = "output_encoding (rec_snapshot r)"
  let ?data = "chunk_bytes ?enc (unat limit) (unat offset) content"
  let ?dec = "decode_bytes L ?enc ?data"
  let ?next = "offset + of_nat (length ?data)"
  have sz: "unat (of_nat (length content) :: u64) = length content"
    using assms(5) by (rule unat_of_nat_small)
  have le: "\<not> offset > of_nat (length content)"
    using assms(8) by (simp add: word_less_nat_alt sz)
  have lim: "\<not> (limit = 0 \<or> limit > max_limit)"
    using assms(6,7) by auto
  have dl: "length ?data \<le> length content - unat offset"
    by (simp add: length_chunk_bytes chunk_len_le)
  have lt: "length ?data < 2 ^ 64"
    using dl assms(5) by linarith
  have nx: "unat ?next = unat offset + length ?data"
    using dl assms(5,8) lt by (simp add: unat_word_ariths unat_of_nat_small)
  have ge: "?next \<ge> of_nat (length content) \<longleftrightarrow> unat ?next = length content"
    unfolding word_le_nat_alt sz nx using dl assms(8) by linarith
  have data: "take (unat (chunk_read_limit ?enc limit (of_nat (length content)) offset)) (drop (unat offset) content) = ?data"
    using unat_chunk_read_limit [OF assms(5,8)] by (simp add: chunk_bytes_def)
  let ?c = "\<lparr>chunk_success = True, chunk_task = i, chunk_stream = stream,
     chunk_encoding = encoding_label ?enc, chunk_offset = offset, next_offset = ?next,
     chunk_eof = (is_finished (status (rec_snapshot r)) \<and> ?next \<ge> of_nat (length content)),
     chunk_content = fst ?dec, decoding_errors = snd ?dec,
     content_base64 = (if snd ?dec then Some (base64_encode L ?data) else None)\<rparr>"
  have "output_chunk L st i stream offset limit f = (fs_tick (fs_tick (fs_tick (fs_tick f))), Inr ?c)"
    using assms(1-4) le lim
    by (simp add: output_chunk_def Let_def data decode_output_def split_beta)
  then show ?thesis
    using nx ge by (intro exI [of _ "fs_tick (fs_tick (fs_tick (fs_tick f)))"] exI [of _ ?c]) (simp add: Let_def)
qed

section \<open>The journal contract\<close>

text \<open>
  What the task executor relies on when it calls \<open>transition\<close>: the snapshot in memory is
  always the updated one, and a call that succeeds leaves a journal from which the new
  snapshot is read back. \<open>storable\<close> says which snapshots the serialiser round-trips,
  \<open>intact\<close> that the journal consists of complete lines, \<open>stored\<close> what recovery reads.
\<close>

locale task_journal =
  fixes trans :: "(task_snapshot \<Rightarrow> task_snapshot) \<Rightarrow> 'r \<Rightarrow> 'w \<Rightarrow> 'r \<times> 'w \<times> (error + unit)"
    and snap :: "'r \<Rightarrow> task_snapshot"
    and flag :: "'r \<Rightarrow> bool"
    and storable :: "task_snapshot \<Rightarrow> bool"
    and intact :: "'r \<Rightarrow> 'w \<Rightarrow> bool"
    and stored :: "'r \<Rightarrow> 'w \<Rightarrow> task_snapshot option"
  assumes trans_snap: "trans u r w = (r', w', res) \<Longrightarrow> snap r' = (u (snap r))\<lparr>output_truncated := flag r\<rparr>"
    and trans_flag: "trans u r w = (r', w', res) \<Longrightarrow> flag r' = flag r"
    and trans_stored: "trans u r w = (r', w', Inr ()) \<Longrightarrow> intact r w \<Longrightarrow> storable (snap r') \<Longrightarrow>
           intact r' w' \<and> stored r' w' = Some (snap r')"
begin

fun trans_all :: "(task_snapshot \<Rightarrow> task_snapshot) list \<Rightarrow> 'r \<Rightarrow> 'w \<Rightarrow> 'r \<times> 'w \<times> (error + unit)" where
  "trans_all [] r w = (r, w, Inr ())"
| "trans_all (u # us) r w =
     (case trans u r w of
        (r', w', Inl e) \<Rightarrow> (r', w', Inl e)
      | (r', w', Inr _) \<Rightarrow> trans_all us r' w')"

definition apply_all :: "bool \<Rightarrow> (task_snapshot \<Rightarrow> task_snapshot) list \<Rightarrow> task_snapshot \<Rightarrow> task_snapshot" where
  "apply_all b us s = fold (\<lambda>u s. (u s)\<lparr>output_truncated := b\<rparr>) us s"

text \<open>After a sequence of updates that all succeeded, the journal holds the snapshot in memory.\<close>

lemma trans_all_stored:
  "trans_all us r w = (r', w', Inr ()) \<Longrightarrow> (\<And>k. storable (apply_all (flag r) (take (Suc k) us) (snap r))) \<Longrightarrow>
     intact r w \<Longrightarrow> us \<noteq> [] \<Longrightarrow> intact r' w' \<and> stored r' w' = Some (snap r')"
proof (induction us arbitrary: r w)
  case Nil
  then show ?case by simp
next
  case (Cons u us)
  obtain r1 w1 res where t: "trans u r w = (r1, w1, res)" by (cases "trans u r w")
  with Cons.prems(1) have res: "res = Inr ()" and rest: "trans_all us r1 w1 = (r', w', Inr ())"
    by (auto split: sum.splits)
  have st: "storable (apply_all (flag r1) (take k us) (snap r1))" for k
    using Cons.prems(2) [of k] trans_snap [OF t] trans_flag [OF t] by (simp add: apply_all_def)
  have one: "intact r1 w1 \<and> stored r1 w1 = Some (snap r1)"
    using trans_stored [OF t [unfolded res] Cons.prems(3)] st [of 0] by (simp add: apply_all_def)
  show ?case
  proof (cases "us = []")
    case True
    with rest one show ?thesis by simp
  next
    case False
    with Cons.IH [OF rest st] one show ?thesis by blast
  qed
qed

text \<open>Whatever fails, the snapshot in memory is reached by a prefix of the updates.\<close>

lemma trans_all_prefix:
  "trans_all us r w = (r', w', res) \<Longrightarrow>
     \<exists>k \<le> length us. snap r' = apply_all (flag r) (take k us) (snap r) \<and> (res = Inr () \<longrightarrow> k = length us)"
proof (induction us arbitrary: r w)
  case Nil
  then show ?case by (simp add: apply_all_def)
next
  case (Cons u us)
  obtain r1 w1 res1 where t: "trans u r w = (r1, w1, res1)" by (cases "trans u r w")
  note step = trans_snap [OF t] trans_flag [OF t]
  show ?case
  proof (cases res1)
    case (Inl e)
    with Cons.prems t have "res = Inl e" "r' = r1" by auto
    with step show ?thesis by (intro exI [of _ 1]) (simp add: apply_all_def)
  next
    case (Inr _)
    with Cons.prems t have "trans_all us r1 w1 = (r', w', res)" by simp
    from Cons.IH [OF this] step obtain k where "k \<le> length us" "res = Inr () \<longrightarrow> k = length us"
      and "snap r' = apply_all (flag r) (take k us) (snap r1)" by auto
    with step show ?thesis by (intro exI [of _ "Suc k"]) (simp add: apply_all_def)
  qed
qed

end

definition journal_intact :: "store_lib \<Rightarrow> task_record \<Rightarrow> fs \<Rightarrow> bool" where
  "journal_intact L r f \<longleftrightarrow> (\<exists>a. journal_reads L (events_path r) (fs_content f (events_path r)) a)"

definition journal_stored :: "store_lib \<Rightarrow> task_record \<Rightarrow> fs \<Rightarrow> task_snapshot option" where
  "journal_stored L r f =
     (case latest_snapshot L (events_path r) None (raw_lines (fs_content f (events_path r))) of
        Inl e \<Rightarrow> None | Inr a \<Rightarrow> a)"

lemma transition_eqs:
  assumes "transition L u r f = (r', f', res)"
  shows "r' = update_snapshot u r" and "persist L r' f = (f', res)"
  using assms by (auto simp: transition_def Let_def)

lemma persist_stored:
  assumes "persist L r f = (f', Inr ())" and "journal_intact L r f" and "json_roundtrips L (snapshot r)"
  shows "journal_intact L r f' \<and> journal_stored L r f' = Some (snapshot r)"
proof -
  from assms(2) obtain a where "journal_reads L (events_path r) (fs_content f (events_path r)) a"
    by (auto simp: journal_intact_def)
  from persist_journal [OF assms(1,3) this] show ?thesis
    by (auto simp: journal_intact_def journal_stored_def journal_reads_def)
qed

lemma snapshot_update: "snapshot (update_snapshot u r) = (u (rec_snapshot r))\<lparr>output_truncated := rec_truncated r\<rparr>"
  by (simp add: snapshot_def update_snapshot_def)

interpretation journal: task_journal "transition L" rec_snapshot rec_truncated "json_roundtrips L"
  "journal_intact L" "journal_stored L" for L
proof
  fix u r f r' f' res
  assume "transition L u r f = (r', f', res)"
  then show "rec_snapshot r' = (u (rec_snapshot r))\<lparr>output_truncated := rec_truncated r\<rparr>"
    and "rec_truncated r' = rec_truncated r"
    using transition_eqs(1) by fastforce+
next
  fix u r f r' f'
  assume t: "transition L u r f = (r', f', Inr ())" and i: "journal_intact L r f"
    and s: "json_roundtrips L (rec_snapshot r')"
  note r' = transition_eqs(1) [OF t]
  have "journal_intact L r' f" using i r' by (simp add: journal_intact_def)
  moreover have "snapshot r' = rec_snapshot r'" using r' by (simp add: snapshot_update)
  ultimately show "journal_intact L r' f' \<and> journal_stored L r' f' = Some (rec_snapshot r')"
    using persist_stored [OF transition_eqs(2) [OF t]] s by simp
qed

section \<open>Recovery\<close>

text \<open>The snapshot that the journal of a task directory yields after a restart.\<close>

definition recovered_snapshot :: "store_lib \<Rightarrow> string \<Rightarrow> string \<Rightarrow> fs \<Rightarrow> error + task_snapshot option" where
  "recovered_snapshot L ts dir f =
     and_then (latest_snapshot L (path_join dir ''events.jsonl'') None
                 (raw_lines (fs_content f (path_join dir ''events.jsonl''))))
       (\<lambda>a. Inr (map_option (interrupt_unfinished ts) a))"

definition recoverable :: "store_lib \<Rightarrow> string \<Rightarrow> string \<Rightarrow> fs \<Rightarrow> bool" where
  "recoverable L ts dir f \<longleftrightarrow>
     (case recovered_snapshot L ts dir f of
        Inl _ \<Rightarrow> False | Inr None \<Rightarrow> True
      | Inr (Some s) \<Rightarrow> snapshot_to_json L (s\<lparr>output_truncated := False\<rparr>) \<noteq> None)"

lemma refresh_loop_fs:
  "refresh_loop ss tot r f = (tot', r', f') \<Longrightarrow> fs_files f' = fs_files f \<and> fs_fault f' = fs_fault f"
  by (induction ss tot r f rule: refresh_loop.induct)
    (auto simp: fs_open_def split: prod.splits open_result.splits)

lemma refresh_output_sizes_fs:
  "refresh_output_sizes r f = (r', f') \<Longrightarrow> fs_files f' = fs_files f \<and> fs_fault f' = fs_fault f"
  by (auto simp: refresh_output_sizes_def simp del: refresh_loop.simps dest!: refresh_loop_fs
      split: prod.splits)

lemma persist_reliable:
  "fs_reliable f \<Longrightarrow> snapshot_to_json L (snapshot r) \<noteq> None \<Longrightarrow>
     \<exists>f'. persist L r f = (f', Inr ()) \<and> fs_reliable f' \<and> (\<forall>q. q \<noteq> events_path r \<longrightarrow> fs_files f' q = fs_files f q)"
  by (auto simp: persist_def fs_append_reliable)

lemma read_latest_content:
  "fs_reliable f \<Longrightarrow>
     read_latest_snapshot L p f = (fs_tick f, latest_snapshot L p None (raw_lines (fs_content f p)))"
  by (cases "fs_files f p")
    (simp_all add: read_latest_snapshot_def fs_open_def fs_reliable_def fs_next_fault_def fs_content_def)

lemma recover_dir_reliable:
  assumes "fs_reliable f" and "recoverable L ts dir f"
  obtains st' f' where "recover_dir L ts dir st f = (st', f', Inr ())" and "fs_reliable f'"
    and "\<And>q. q \<noteq> path_join dir ''events.jsonl'' \<Longrightarrow> fs_files f' q = fs_files f q"
    and "recovered_snapshot L ts dir f = Inr None \<Longrightarrow> st' = st"
    and "\<And>s. recovered_snapshot L ts dir f = Inr (Some s) \<Longrightarrow>
           \<exists>r. rec_snapshot r = s \<and> st' = st\<lparr>tasks := (tasks st)(task_id s \<mapsto> r)\<rparr>"
proof -
  let ?p = "path_join dir ''events.jsonl''"
  have rd: "read_latest_snapshot L ?p f = (fs_tick f, latest_snapshot L ?p None (raw_lines (fs_content f ?p)))"
    using assms(1) by (rule read_latest_content)
  from assms(2) consider "latest_snapshot L ?p None (raw_lines (fs_content f ?p)) = Inr None"
    | s where "latest_snapshot L ?p None (raw_lines (fs_content f ?p)) = Inr (Some s)"
        "snapshot_to_json L ((interrupt_unfinished ts s)\<lparr>output_truncated := False\<rparr>) \<noteq> None"
    by (auto simp: recoverable_def recovered_snapshot_def and_then_def split: sum.splits option.splits)
  then show ?thesis
  proof cases
    case 1
    then have "recover_dir L ts dir st f = (st, fs_tick f, Inr ())"
      by (simp add: recover_dir_def rd)
    with 1 assms(1) show ?thesis
      by (intro that [of st "fs_tick f"]) (auto simp: recovered_snapshot_def and_then_def)
  next
    case (2 s)
    let ?s = "interrupt_unfinished ts s"
    obtain r f2 where rf: "refresh_output_sizes (record_new ?s dir) (fs_tick f) = (r, f2)" by fastforce
    note fr = refresh_output_sizes_frame [OF rf] refresh_output_sizes_fs [OF rf]
    have rel: "fs_reliable f2" using assms(1) fr by (simp add: fs_reliable_def)
    have sn: "snapshot r = ?s\<lparr>output_truncated := False\<rparr>" and ev: "events_path r = ?p"
      using fr by (simp_all add: snapshot_def events_path_def)
    from persist_reliable [OF rel, of L r] 2(2) sn obtain f3 where pf: "persist L r f2 = (f3, Inr ())"
      "fs_reliable f3" "\<forall>q. q \<noteq> ?p \<longrightarrow> fs_files f3 q = fs_files f2 q" by (auto simp: ev)
    let ?f' = "if status ?s = Interrupted then f3 else f2"
    have "recover_dir L ts dir st f = (st\<lparr>tasks := (tasks st)(task_id s \<mapsto> r)\<rparr>, ?f', Inr ())"
      using 2(1) rf fr pf by (auto simp: recover_dir_def rd)
    moreover have "recovered_snapshot L ts dir f = Inr (Some ?s)"
      using 2(1) by (simp add: recovered_snapshot_def and_then_def)
    ultimately show ?thesis
      using pf rel fr by (intro that [of "st\<lparr>tasks := (tasks st)(task_id s \<mapsto> r)\<rparr>" ?f']) auto
  qed
qed

text \<open>The abstract recovery: the journals of the task directories as a map from ids to snapshots.\<close>

definition recover_into :: "store_lib \<Rightarrow> string \<Rightarrow> fs \<Rightarrow> string \<Rightarrow> (uuid \<rightharpoonup> task_snapshot) \<Rightarrow> uuid \<rightharpoonup> task_snapshot" where
  "recover_into L ts f dir m =
     (case recovered_snapshot L ts dir f of Inr (Some s) \<Rightarrow> m(task_id s \<mapsto> s) | _ \<Rightarrow> m)"

fun entry_dirs :: "dir_entry list \<Rightarrow> string list" where
  "entry_dirs [] = []"
| "entry_dirs (DirEntry d # es) = d # entry_dirs es"
| "entry_dirs (_ # es) = entry_dirs es"

definition snapshots :: "task_store \<Rightarrow> uuid \<rightharpoonup> task_snapshot" where
  "snapshots st i = map_option rec_snapshot (tasks st i)"

definition recovery_input :: "store_lib \<Rightarrow> string \<Rightarrow> dir_entry list \<Rightarrow> fs \<Rightarrow> bool" where
  "recovery_input L ts es f \<longleftrightarrow>
     EntryError \<notin> set es \<and> distinct (map (\<lambda>d. path_join d ''events.jsonl'') (entry_dirs es)) \<and>
     list_all (\<lambda>d. recoverable L ts d f) (entry_dirs es)"

lemma recovered_snapshot_cong:
  "fs_files f' (path_join d ''events.jsonl'') = fs_files f (path_join d ''events.jsonl'') \<Longrightarrow>
     recovered_snapshot L ts d f' = recovered_snapshot L ts d f"
  by (simp add: recovered_snapshot_def fs_content_def)

lemma recover_dir_refines:
  assumes "fs_reliable f" and "recoverable L ts dir f"
  obtains st' f' where "recover_dir L ts dir st f = (st', f', Inr ())" and "fs_reliable f'"
    and "snapshots st' = recover_into L ts f dir (snapshots st)"
    and "\<And>e. path_join e ''events.jsonl'' \<noteq> path_join dir ''events.jsonl'' \<Longrightarrow>
           recovered_snapshot L ts e f' = recovered_snapshot L ts e f"
proof (rule recover_dir_reliable [OF assms, where st = st])
  fix st' f'
  assume eq: "recover_dir L ts dir st f = (st', f', Inr ())" "fs_reliable f'"
    and fr: "\<And>q. q \<noteq> path_join dir ''events.jsonl'' \<Longrightarrow> fs_files f' q = fs_files f q"
    and n: "recovered_snapshot L ts dir f = Inr None \<Longrightarrow> st' = st"
    and s: "\<And>s. recovered_snapshot L ts dir f = Inr (Some s) \<Longrightarrow>
           \<exists>r. rec_snapshot r = s \<and> st' = st\<lparr>tasks := (tasks st)(task_id s \<mapsto> r)\<rparr>"
  have "snapshots st' = recover_into L ts f dir (snapshots st)"
  proof (cases "recovered_snapshot L ts dir f")
    case (Inl e)
    with assms(2) show ?thesis by (simp add: recoverable_def)
  next
    case (Inr a)
    show ?thesis
    proof (cases a)
      case None
      with Inr n show ?thesis by (simp add: recover_into_def)
    next
      case (Some s')
      with Inr s obtain r where "rec_snapshot r = s'" "st' = st\<lparr>tasks := (tasks st)(task_id s' \<mapsto> r)\<rparr>" by blast
      with Inr Some show ?thesis by (auto simp: recover_into_def snapshots_def)
    qed
  qed
  with eq fr show thesis by (intro that [of st' f']) (auto intro: recovered_snapshot_cong)
qed

lemma recover_loop_refines:
  "fs_reliable f \<Longrightarrow> recovery_input L ts es f \<Longrightarrow>
     \<exists>st' f'. recover_loop L ts es st f = (st', f', Inr ()) \<and> fs_reliable f' \<and>
       snapshots st' = fold (recover_into L ts f) (entry_dirs es) (snapshots st)"
proof (induction es arbitrary: st f)
  case Nil
  then show ?case by simp
next
  case (Cons e es)
  show ?case
  proof (cases e)
    case (DirEntry d)
    with Cons.prems have "recoverable L ts d f" by (simp add: recovery_input_def)
    with Cons.prems(1) obtain st1 f1 where r1: "recover_dir L ts d st f = (st1, f1, Inr ())" "fs_reliable f1"
      and sn: "snapshots st1 = recover_into L ts f d (snapshots st)"
      and fr: "\<And>e. path_join e ''events.jsonl'' \<noteq> path_join d ''events.jsonl'' \<Longrightarrow>
           recovered_snapshot L ts e f1 = recovered_snapshot L ts e f"
      using recover_dir_refines [where st = st] by metis
    have eq: "recovered_snapshot L ts e f1 = recovered_snapshot L ts e f" if "e \<in> set (entry_dirs es)" for e
      using that Cons.prems(2) DirEntry by (intro fr) (auto simp: recovery_input_def image_iff)
    have "recovery_input L ts es f1"
      using Cons.prems(2) DirEntry eq by (auto simp: recovery_input_def list_all_iff recoverable_def)
    from Cons.IH [OF r1(2) this, of st1] sn have
      "\<exists>st' f'. recover_loop L ts (e # es) st f = (st', f', Inr ()) \<and> fs_reliable f' \<and>
         snapshots st' = fold (recover_into L ts f1) (entry_dirs es) (recover_into L ts f d (snapshots st))"
      by (auto simp: DirEntry r1(1))
    moreover have "fold (recover_into L ts f1) (entry_dirs es) m = fold (recover_into L ts f) (entry_dirs es) m" for m
      using eq by (intro fold_cong) (auto simp: recover_into_def fun_eq_iff)
    ultimately show ?thesis by (simp add: DirEntry)
  qed (use Cons in \<open>auto simp: recovery_input_def\<close>)
qed

text \<open>
  The specification of recovery, apart from its code: a journal is a list of lines, the last of them
  perhaps cut short; the state of its task is the last line that is a snapshot; a task that had not
  finished was interrupted by the restart.
\<close>

definition journal_of :: "bytes \<Rightarrow> string list \<Rightarrow> bool" where
  "journal_of content lines \<longleftrightarrow>
     (\<exists>ls rest. content = line_file ls rest \<and> lines = ls @ (if rest = [] then [] else [rest]) \<and>
        (\<forall>l\<in>set ls. LF \<notin> set l \<and> CR \<notin> set l) \<and> LF \<notin> set rest)"

definition last_record :: "store_lib \<Rightarrow> string list \<Rightarrow> task_snapshot option" where
  "last_record L lines =
     (let rs = List.map_filter (snapshot_from_json L) lines in if rs = [] then None else Some (last rs))"

definition after_restart :: "string \<Rightarrow> task_snapshot \<Rightarrow> task_snapshot" where
  "after_restart ts s =
     (case status s of
        Starting \<Rightarrow> s\<lparr>status := Interrupted, finished_at := Some ts, error_text := Some M_interrupted_at_restart\<rparr>
      | Running \<Rightarrow> s\<lparr>status := Interrupted, finished_at := Some ts, error_text := Some M_interrupted_at_restart\<rparr>
      | Stopping \<Rightarrow> s\<lparr>status := Interrupted, finished_at := Some ts, error_text := Some M_interrupted_at_restart\<rparr>
      | _ \<Rightarrow> s)"

definition restore :: "store_lib \<Rightarrow> string \<Rightarrow> string list \<Rightarrow> (uuid \<rightharpoonup> task_snapshot) \<Rightarrow> uuid \<rightharpoonup> task_snapshot" where
  "restore L ts lines m =
     (case last_record L lines of None \<Rightarrow> m | Some s \<Rightarrow> m(task_id s \<mapsto> after_restart ts s))"

text \<open>The directories hold these journals, readable, and what has to be written can be encoded.\<close>

definition journals :: "store_lib \<Rightarrow> string \<Rightarrow> fs \<Rightarrow> string list \<Rightarrow> string list list \<Rightarrow> bool" where
  "journals L ts f dirs js \<longleftrightarrow>
     list_all2 (\<lambda>d lines. journal_of (fs_content f (path_join d ''events.jsonl'')) lines \<and>
       (\<forall>l\<in>set lines. utf8_valid l) \<and>
       (\<forall>s. last_record L lines = Some s \<longrightarrow>
          snapshot_to_json L ((after_restart ts s)\<lparr>output_truncated := False\<rparr>) \<noteq> None)) dirs js"

lemma after_restart_eq: "interrupt_unfinished ts s = after_restart ts s"
  by (cases "status s") (simp_all add: interrupt_unfinished_def after_restart_def)

lemma latest_snapshot_eq:
  "\<forall>l\<in>set lines. utf8_valid l \<Longrightarrow>
     latest_snapshot L p acc lines = Inr (case last_record L lines of None \<Rightarrow> acc | Some s \<Rightarrow> Some s)"
  by (induction lines arbitrary: acc)
    (auto simp: last_record_def Let_def map_filter_simps split: option.splits)

lemma recovered_snapshot_eq:
  assumes "journal_of (fs_content f (path_join d ''events.jsonl'')) lines" and "\<forall>l\<in>set lines. utf8_valid l"
  shows "recovered_snapshot L ts d f = Inr (map_option (after_restart ts) (last_record L lines))"
proof -
  from assms(1) have "raw_lines (fs_content f (path_join d ''events.jsonl'')) = lines"
    by (auto simp: journal_of_def raw_lines_file)
  then show ?thesis
    using assms(2) by (cases "last_record L lines")
      (simp_all add: recovered_snapshot_def latest_snapshot_eq and_then_def after_restart_eq)
qed

lemma after_restart_id [simp]: "task_id (after_restart ts s) = task_id s"
  by (simp add: after_restart_def split: task_status.split)

lemma journals_recover:
  assumes "journals L ts f dirs js"
  shows "list_all (\<lambda>d. recoverable L ts d f) dirs \<and> fold (recover_into L ts f) dirs m = fold (restore L ts) js m"
  using assms unfolding journals_def
proof (induction dirs js arbitrary: m rule: list_all2_induct)
  case (Cons d dirs lines js)
  then have r: "recovered_snapshot L ts d f = Inr (map_option (after_restart ts) (last_record L lines))"
    by (blast intro: recovered_snapshot_eq)
  then have "recover_into L ts f d m = restore L ts lines m"
    by (cases "last_record L lines") (simp_all add: recover_into_def restore_def)
  moreover have "recoverable L ts d f"
    using r Cons.hyps(1) by (cases "last_record L lines") (simp_all add: recoverable_def)
  ultimately show ?case using Cons.IH by simp
qed simp

section \<open>Lemmas on the whole store\<close>

definition store_inv :: "task_store \<Rightarrow> bool" where
  "store_inv st \<longleftrightarrow> finite (dom (tasks st)) \<and> (\<forall>i r. tasks st i = Some r \<longrightarrow> rec_id r = i)"

definition all_recovered :: "task_store \<Rightarrow> bool" where
  "all_recovered st \<longleftrightarrow> store_inv st \<and>
     (\<forall>i r. tasks st i = Some r \<longrightarrow> is_finished (status (rec_snapshot r)) \<and> \<not> rec_truncated r)"

text \<open>The value a receiver of the stop channel borrows: the last one sent.\<close>

definition watch_value :: "task_record \<Rightarrow> stop_reason option" where
  "watch_value r = (if stop_sent r = [] then None else last (stop_sent r))"

lemma recover_dir_store:
  assumes "recover_dir L ts dir st f = (st', f', Inr ())" and "all_recovered st"
  shows "all_recovered st' \<and> active_count st' = active_count st \<and> retention st' = retention st"
  using recover_dir_ok [OF assms(1)] assms(2) by (auto simp: all_recovered_def store_inv_def split: if_splits)

lemma recover_loop_store:
  "recover_loop L ts es st f = (st', f', Inr ()) \<Longrightarrow> all_recovered st \<Longrightarrow>
     all_recovered st' \<and> active_count st' = active_count st \<and> retention st' = retention st"
proof (induction L ts es st f rule: recover_loop.induct)
  case (4 L ts dir es st f)
  obtain st1 f1 res where d: "recover_dir L ts dir st f = (st1, f1, res)" by (cases "recover_dir L ts dir st f")
  with "4.prems"(1) have res: "res = Inr ()" by (cases res) auto
  note st1 = recover_dir_store [OF d [unfolded res] "4.prems"(2)]
  from "4.IH" [OF d [symmetric] refl res] st1 "4.prems" d res show ?case by auto
qed auto

lemma fold_remove_frame:
  "active_count (fst (fold remove_task ids sf)) = active_count (fst sf)"
proof (induction ids arbitrary: sf)
  case (Cons i ids)
  have "active_count (fst (remove_task i sf)) = active_count (fst sf)"
    by (auto simp: remove_task_def split: prod.splits option.splits)
  with Cons show ?case by simp
qed simp

lemma cleanup_active: "active_count (fst (cleanup_expired L now ids st f)) = active_count st"
  by (simp add: cleanup_expired_def fold_remove_frame)

lemma open_store_ok:
  assumes "open_store L ts now locked entries ids rt keep max_out f = (f', Inr st)"
  obtains st0 f2 st1 f3 where "all_recovered st0" and "active_count st0 = 0" and "retention st0 = keep"
    and "recover L ts entries st0 f2 = (st1, f3, Inr ())"
    and "cleanup_expired L now (ids st1) st1 f3 = (st, f')" and "locked"
proof -
  have "all_recovered \<lparr>root = rt, max_output_bytes = max_out, retention = keep,
          tasks = (\<lambda>_. None), active_count = 0, notifications = 0\<rparr>"
    by (simp add: all_recovered_def store_inv_def)
  with assms show ?thesis
    by (auto simp: open_store_def Let_def split: prod.splits bool.splits if_splits sum.splits intro: that)
qed

lemma recover_ok:
  "recover L ts es st f = (st', f', Inr ()) \<Longrightarrow> \<exists>f1. recover_loop L ts es st f1 = (st', f', Inr ())"
  by (auto simp: recover_def split: prod.splits bool.splits)

section \<open>Example instances\<close>

definition demo_time :: time_lib where
  "demo_time = \<lparr>format_rfc3339 = (\<lambda>_. Some ''t''), parse_rfc3339 = (\<lambda>_. Some 0),
     whole_seconds = (\<lambda>d. sgn d * (\<bar>d\<bar> div 1000000000)),
     whole_milliseconds = (\<lambda>d. sgn d * (\<bar>d\<bar> div 1000000))\<rparr>"

definition demo_snapshot :: "task_status \<Rightarrow> task_snapshot" where
  "demo_snapshot s = (initial_snapshot 1 ''t'' ''/run'' Separate Utf8)\<lparr>status := s\<rparr>"

definition demo_to_json :: "task_snapshot \<Rightarrow> bytes option" where
  "demo_to_json s = Some (case status s of Starting \<Rightarrow> ''sss'' | Running \<Rightarrow> ''rrr'' | _ \<Rightarrow> ''fff'')"

definition demo_from_json :: "string \<Rightarrow> task_snapshot option" where
  "demo_from_json l =
     (if l = ''sss'' then Some (demo_snapshot Starting)
      else if l = ''rrr'' then Some (demo_snapshot Running)
      else if l = ''fff'' then Some (demo_snapshot Failed) else None)"

definition demo_store_lib :: store_lib where
  "demo_store_lib = \<lparr>uuid_text = (\<lambda>_. ''u''), snapshot_to_json = demo_to_json,
     snapshot_from_json = demo_from_json, decode_bytes = (\<lambda>_ d. (d, False)),
     base64_encode = (\<lambda>d. d), store_time = demo_time\<rparr>"

definition demo_record :: task_record where
  "demo_record = record_new (demo_snapshot Starting) ''/d''"

definition demo_fs :: "bytes \<Rightarrow> (nat \<Rightarrow> io_fault option) \<Rightarrow> fs" where
  "demo_fs journal faults =
     \<lparr>fs_files = (\<lambda>p. if p = ''/d/events.jsonl'' then Some journal
                     else if p = ''/d/stdout.log'' then Some ''hello'' else None),
      fs_dirs = (\<lambda>p. p = ''/d''), fs_fault = faults, fs_left = (\<lambda>_ _. True), fs_clock = 0\<rparr>"

definition demo_store :: "task_record \<Rightarrow> task_store" where
  "demo_store r = \<lparr>root = ''/'', max_output_bytes = 100, retention = 60, tasks = [1 \<mapsto> r],
     active_count = 1, notifications = 0\<rparr>"

lemmas demo_store_defs =
  demo_time_def demo_snapshot_def demo_to_json_def demo_from_json_def demo_store_lib_def
  demo_record_def demo_fs_def demo_store_def initial_snapshot_def record_new_def

lemma demo_events_path [simp]: "events_path demo_record = ''/d/events.jsonl''"
  by (simp add: events_path_def demo_store_defs path_join_def is_absolute_def text_simps)

lemma demo_roundtrips:
  "json_roundtrips demo_store_lib (demo_snapshot Starting)"
  "json_roundtrips demo_store_lib (demo_snapshot Running)"
  "json_roundtrips demo_store_lib (demo_snapshot Failed)"
  by (simp_all add: json_roundtrips_def demo_store_defs utf8_valid_def)

lemma demo_journal_intact: "journal_intact demo_store_lib demo_record (demo_fs (''sss'' @ [LF]) faults)"
  unfolding journal_intact_def
  by (intro exI [of _ "Some (demo_snapshot Starting)"])
    (simp add: journal_reads_def fs_content_def demo_store_defs raw_lines_def utf8_valid_def strip_cr_def text_simps events_path_def path_join_def is_absolute_def)

section \<open>Properties\<close>

text \<open>
  C12. Journal round trip: a status change that was persisted is what recovery reads back, exactly as
  clients see it, under three conditions: the journal before it consisted of complete lines, the
  snapshot's JSON text reads back as the snapshot, and reading meets no I/O error. (A journal
  with a torn record is the subject of another theorem.)
\<close>

theorem transition_recovers:
  assumes "transition L u r f = (r', f', Inr ())" and "journal_intact L r f"
    and "json_roundtrips L (rec_snapshot r')" and "fs_reliable f'"
  shows "snd (read_latest_snapshot L (events_path r) f') = Inr (Some (snapshot r'))"
proof -
  from journal.trans_stored [OF assms(1-3)]
  have "journal_intact L r' f'" "journal_stored L r' f' = Some (rec_snapshot r')" by auto
  moreover have "events_path r' = events_path r" "snapshot r' = rec_snapshot r'"
    using transition_eqs(1) [OF assms(1)] by (simp_all add: snapshot_update)
  ultimately show ?thesis
    using assms(4) by (auto simp: read_latest_content journal_stored_def journal_intact_def journal_reads_def)
qed

theorem transition_recovers_witness:
  "snd (read_latest_snapshot demo_store_lib ''/d/events.jsonl''
     (fst (snd (transition demo_store_lib (\<lambda>s. s\<lparr>status := Running\<rparr>) demo_record
        (demo_fs (''sss'' @ [LF]) (\<lambda>_. None)))))) = Inr (Some (demo_snapshot Running))"
proof -
  let ?f = "demo_fs (''sss'' @ [LF]) (\<lambda>_. None)"
  let ?t = "transition demo_store_lib (\<lambda>s. s\<lparr>status := Running\<rparr>) demo_record ?f"
  have t: "?t = (fst ?t, fst (snd ?t), Inr ())" and s: "snapshot (fst ?t) = demo_snapshot Running"
    and s': "rec_snapshot (fst ?t) = demo_snapshot Running" and rel: "fs_reliable (fst (snd ?t))"
    by (simp_all add: transition_def Let_def persist_def fs_append_def fs_next_fault_def
        fs_reliable_def snapshot_def update_snapshot_def demo_store_defs)
  from transition_recovers [OF t demo_journal_intact _ rel] s s' demo_roundtrips(2)
  show ?thesis by simp
qed

lemma open_store_result:
  assumes "open_store L ts now locked entries ids rt keep max_out f = (f', Inr st)"
    and "\<And>s. finite (dom (tasks s)) \<Longrightarrow> enumerates (ids s) s"
  shows "locked \<and> active_count st = 0 \<and>
    (\<forall>i r. tasks st i = Some r \<longrightarrow>
       rec_id r = i \<and> is_finished (status (snapshot r)) \<and> \<not> expired L now keep (rec_snapshot r) \<and>
       \<not> output_truncated (snapshot r))"
proof -
  from assms(1) obtain st0 f2 st1 f3 where o: "all_recovered st0" "active_count st0 = 0" "retention st0 = keep"
    "recover L ts entries st0 f2 = (st1, f3, Inr ())" "cleanup_expired L now (ids st1) st1 f3 = (st, f')" "locked"
    by (rule open_store_ok)
  from recover_ok [OF o(4)] recover_loop_store o(1-3)
  have st1: "all_recovered st1" "active_count st1 = 0" "retention st1 = keep" by fastforce+
  have "enumerates (ids st1) st1"
    using st1(1) by (intro assms(2)) (simp add: all_recovered_def store_inv_def)
  then have "tasks st i = (case tasks st1 i of None \<Rightarrow> None
          | Some r \<Rightarrow> if expired L now keep (rec_snapshot r) then None else Some r)" for i
    using cleanup_tasks [of "ids st1" st1 L now f3 i, unfolded st1(3)] o(5) by simp
  moreover have "active_count st = 0"
    using cleanup_active [of L now "ids st1" st1 f3] o(5) st1(2) by simp
  ultimately show ?thesis
    using st1(1) o(6)
    by (auto simp: all_recovered_def store_inv_def split: option.splits if_splits)
qed

text \<open>
  C14. Whatever I/O errors occurred, a store that opens holds the lock, has no active task,
  files every task under its own id, and all its tasks are finished and unexpired. Their
  truncation flag is down, also for a task whose journal says its output was truncated.
\<close>

theorem opened_store_ok:
  assumes "open_store L ts now locked entries ids rt keep max_out f = (f', Inr st)"
    and "\<And>s. finite (dom (tasks s)) \<Longrightarrow> enumerates (ids s) s"
  shows "locked \<and> active_count st = 0 \<and>
    (\<forall>i r. tasks st i = Some r \<longrightarrow>
       rec_id r = i \<and> is_finished (status (snapshot r)) \<and> \<not> expired L now keep (rec_snapshot r) \<and>
       \<not> output_truncated (snapshot r))"
  using open_store_result [OF assms] .

definition demo_open :: "fs \<times> (error + task_store)" where
  "demo_open = open_store demo_store_lib ''t'' 0 True [DirEntry ''/d'', OtherEntry ''/x'']
     (\<lambda>s. sorted_list_of_set (dom (tasks s))) ''/'' 60 100 (demo_fs (''rrr'' @ [LF]) (\<lambda>_. None))"

lemma sorted_ids_enumerate: "finite (dom (tasks s)) \<Longrightarrow> enumerates (sorted_list_of_set (dom (tasks s))) s"
  by (simp add: enumerates_def)

lemma demo_open_result: "\<exists>st r. snd demo_open = Inr st \<and> tasks st 1 = Some r"
  by (simp add: demo_open_def open_store_def recover_def recover_dir_def read_latest_snapshot_def
      refresh_output_sizes_def persist_def fs_append_def fs_next_fault_def fs_open_def fs_query_def
      fs_create_dir_all_def interrupt_unfinished_def cleanup_expired_def expired_ids_def expired_def
      demo_store_defs raw_lines_def utf8_valid_def strip_cr_def text_simps stream_path_def
      path_join_def is_absolute_def snapshot_def events_path_def fs_content_def)

theorem opened_store_ok_witness:
  "\<exists>st r. snd demo_open = Inr st \<and> tasks st 1 = Some r \<and> is_finished (status (snapshot r)) \<and> active_count st = 0"
proof -
  from demo_open_result obtain st r where d: "snd demo_open = Inr st" "tasks st 1 = Some r" by blast
  then have "demo_open = (fst demo_open, Inr st)" by (metis prod.collapse)
  note ok = opened_store_ok [OF this [unfolded demo_open_def] sorted_ids_enumerate]
  from d(2) have "is_finished (status (snapshot r))" "active_count st = 0" using ok by simp_all
  with d show ?thesis by blast
qed

text \<open>
  C13. Refinement of recovery: when the directory can be listed, the journals are lines of UTF-8 (the
  last one perhaps cut short) and no I/O error occurs, recovery succeeds, and the recovered store is
  the abstract map from task ids to the last snapshot of each journal, in which a starting, running
  or stopping task has become an interrupted one, with its finishing time and the reason.
\<close>

theorem recovery_refines_journals:
  assumes "fs_reliable f" and "EntryError \<notin> set entries"
    and "distinct (map (\<lambda>d. path_join d ''events.jsonl'') (entry_dirs entries))"
    and "journals L ts f (entry_dirs entries) js"
  shows "\<exists>st' f'. recover L ts entries st f = (st', f', Inr ()) \<and>
    snapshots st' = fold (restore L ts) js (snapshots st)"
proof -
  have "recovery_input L ts entries (fs_tick f)" "recover_into L ts (fs_tick f) = recover_into L ts f"
    using assms(2,3) journals_recover [OF assms(4)] recovered_snapshot_cong [of "fs_tick f" _ f L ts]
    by (auto simp: recovery_input_def recoverable_def recover_into_def fun_eq_iff list_all_iff)
  with recover_loop_refines [of "fs_tick f" L ts entries st] assms(1) journals_recover [OF assms(4)] show ?thesis
    by (auto simp: recover_def)
qed

theorem recovery_refines_journals_witness:
  "\<exists>st' f'. recover demo_store_lib ''t'' [DirEntry ''/d''] (demo_store demo_record)
      (demo_fs (''rrr'' @ [LF] @ ''to'') (\<lambda>_. None)) = (st', f', Inr ()) \<and>
    snapshots st' 1 = Some ((demo_snapshot Running)\<lparr>status := Interrupted, finished_at := Some ''t'',
      error_text := Some M_interrupted_at_restart\<rparr>)"
proof -
  let ?f = "demo_fs (''rrr'' @ [LF] @ ''to'') (\<lambda>_. None)"
  have r: "last_record demo_store_lib [''rrr'', ''to''] = Some (demo_snapshot Running)"
    by (simp add: last_record_def map_filter_simps demo_store_lib_def demo_from_json_def)
  have "fs_content ?f (path_join ''/d'' ''events.jsonl'') = line_file [''rrr''] ''to''"
    by (simp add: fs_content_def demo_fs_def line_file_def path_join_def is_absolute_def text_simps)
  then have "journal_of (fs_content ?f (path_join ''/d'' ''events.jsonl'')) [''rrr'', ''to'']"
    unfolding journal_of_def by (intro exI [of _ "[''rrr'']"] exI [of _ "''to''"]) simp
  then have "journals demo_store_lib ''t'' ?f (entry_dirs [DirEntry ''/d'']) [[''rrr'', ''to'']]"
    using r by (simp add: journals_def utf8_valid_def demo_store_lib_def demo_to_json_def)
  moreover have "fs_reliable ?f" by (simp add: fs_reliable_def demo_fs_def)
  ultimately show ?thesis
    using recovery_refines_journals [of ?f "[DirEntry ''/d'']" demo_store_lib "''t''" "[[''rrr'', ''to'']]" "demo_store demo_record"]
    by (auto simp: restore_def r after_restart_def demo_snapshot_def initial_snapshot_def)
qed

text \<open>
  C31. Reading output: with a limit between 1 and 1 MiB and an offset inside the file, the chunk
  carries exactly the bytes from the offset, at most \<open>limit\<close> of them (an even number for
  UTF-16LE), the next offset follows them, the text is their decoding, and the end is
  reported exactly when the task has finished and no byte is left.
\<close>

theorem output_chunk_exact:
  assumes "fs_reliable f" and "get st i = Some r"
    and "mode_mismatch (output_mode (rec_snapshot r)) stream = None"
    and "fs_files f (stream_path r stream) = Some content" and "length content < 2 ^ 64"
    and "0 < limit" and "limit \<le> max_limit" and "unat offset \<le> length content"
  shows "\<exists>f' c. output_chunk L st i stream offset limit f = (f', Inr c) \<and>
    (let data = chunk_bytes (output_encoding (rec_snapshot r)) (unat limit) (unat offset) content in
       chunk_offset c = offset \<and> unat (next_offset c) = unat offset + length data \<and>
       chunk_eof c = (is_finished (status (rec_snapshot r)) \<and> unat (next_offset c) = length content) \<and>
       (chunk_content c, decoding_errors c) = decode_bytes L (output_encoding (rec_snapshot r)) data \<and>
       content_base64 c = (if decoding_errors c then Some (base64_encode L data) else None))"
  using assms by (rule output_chunk_reliable)

lemma demo_stream_path [simp]: "stream_path demo_record Stdout = ''/d/stdout.log''"
  by (simp add: stream_path_def demo_store_defs path_join_def is_absolute_def text_simps)

theorem output_chunk_exact_witness:
  "\<exists>f' c. output_chunk demo_store_lib (demo_store demo_record) 1 Stdout 1 3 (demo_fs [] (\<lambda>_. None)) = (f', Inr c) \<and>
     chunk_content c = ''ell'' \<and> unat (next_offset c) = 4"
proof -
  have "fs_reliable (demo_fs [] (\<lambda>_. None))" by (simp add: fs_reliable_def demo_fs_def)
  moreover have "get (demo_store demo_record) 1 = Some demo_record" by (simp add: get_def demo_store_def)
  moreover have "mode_mismatch (output_mode (rec_snapshot demo_record)) Stdout = None"
    by (simp add: demo_store_defs)
  moreover have "fs_files (demo_fs [] (\<lambda>_. None)) (stream_path demo_record Stdout) = Some ''hello''"
    unfolding demo_stream_path by (simp add: demo_fs_def)
  ultimately have "\<exists>f' c. output_chunk demo_store_lib (demo_store demo_record) 1 Stdout 1 3 (demo_fs [] (\<lambda>_. None)) = (f', Inr c) \<and>
    (let data = chunk_bytes (output_encoding (rec_snapshot demo_record)) (unat (3::usize)) (unat (1::u64)) ''hello'' in
       chunk_offset c = 1 \<and> unat (next_offset c) = unat (1::u64) + length data \<and>
       chunk_eof c = (is_finished (status (rec_snapshot demo_record)) \<and> unat (next_offset c) = length ''hello'') \<and>
       (chunk_content c, decoding_errors c) = decode_bytes demo_store_lib (output_encoding (rec_snapshot demo_record)) data \<and>
       content_base64 c = (if decoding_errors c then Some (base64_encode demo_store_lib data) else None))"
    by (rule output_chunk_exact) (simp_all add: max_limit_def)
  moreover have "chunk_bytes (output_encoding (rec_snapshot demo_record)) (unat (3::usize)) (unat (1::u64)) ''hello'' = ''ell''"
    by (simp add: chunk_bytes_def chunk_len_def demo_store_defs)
  ultimately show ?thesis by (force simp: Let_def demo_store_lib_def)
qed

text \<open>
  Reading makes progress: below the end of the file a read returns at least one byte, unless
  the encoding is UTF-16LE and the limit or the remainder is a single byte.
\<close>

theorem output_chunk_progress:
  assumes "fs_reliable f" and "get st i = Some r"
    and "mode_mismatch (output_mode (rec_snapshot r)) stream = None"
    and "fs_files f (stream_path r stream) = Some content" and "length content < 2 ^ 64"
    and "0 < limit" and "limit \<le> max_limit" and "unat offset < length content"
  shows "\<exists>f' c. output_chunk L st i stream offset limit f = (f', Inr c) \<and>
    (offset < next_offset c \<longleftrightarrow>
       \<not> (output_encoding (rec_snapshot r) = Utf16le \<and> (limit = 1 \<or> length content = unat offset + 1)))"
proof -
  have lim: "0 < unat limit" using assms(6) by (simp add: unat_gt_0 word_neq_0_conv)
  have one: "limit = 1 \<longleftrightarrow> unat limit = 1" by (auto simp: word_unat_eq_iff)
  have pos: "0 < chunk_len enc (unat limit) (length content - unat offset) \<longleftrightarrow>
      \<not> (enc = Utf16le \<and> (limit = 1 \<or> length content = unat offset + 1))" for enc
    using lim assms(8) unfolding one
    by (auto simp: chunk_len_def Let_def min_def elim!: oddE) presburger
  from output_chunk_reliable [OF assms(1-7), of offset L] assms(8)
  obtain f' c where "output_chunk L st i stream offset limit f = (f', Inr c)"
    and "unat (next_offset c) = unat offset +
      chunk_len (output_encoding (rec_snapshot r)) (unat limit) (length content - unat offset)"
    by (auto simp: Let_def length_chunk_bytes)
  then show ?thesis
    using pos [of "output_encoding (rec_snapshot r)"] by (auto simp: word_less_nat_alt)
qed

theorem output_chunk_progress_witness:
  "\<exists>f' c. output_chunk demo_store_lib (demo_store demo_record) 1 Stdout 1 3 (demo_fs [] (\<lambda>_. None)) = (f', Inr c) \<and>
     (1 :: u64) < next_offset c"
proof -
  have "fs_reliable (demo_fs [] (\<lambda>_. None))" by (simp add: fs_reliable_def demo_fs_def)
  moreover have "get (demo_store demo_record) 1 = Some demo_record" by (simp add: get_def demo_store_def)
  moreover have "mode_mismatch (output_mode (rec_snapshot demo_record)) Stdout = None"
    by (simp add: demo_store_defs)
  moreover have "fs_files (demo_fs [] (\<lambda>_. None)) (stream_path demo_record Stdout) = Some ''hello''"
    unfolding demo_stream_path by (simp add: demo_fs_def)
  ultimately have "\<exists>f' c. output_chunk demo_store_lib (demo_store demo_record) 1 Stdout 1 3 (demo_fs [] (\<lambda>_. None)) = (f', Inr c) \<and>
    ((1 :: u64) < next_offset c \<longleftrightarrow>
       \<not> (output_encoding (rec_snapshot demo_record) = Utf16le \<and> ((3::usize) = 1 \<or> length ''hello'' = unat (1::u64) + 1)))"
    by (rule output_chunk_progress) (simp_all add: max_limit_def)
  then show ?thesis by (auto simp: demo_store_defs)
qed

text \<open>
  A UTF-16LE output of odd length is never reported as ended: reading it in chunks from
  an even offset keeps all offsets even, so the last byte is never delivered and \<open>eof\<close>
  stays false after the task has finished.
\<close>

theorem utf16_odd_tail_never_eof:
  assumes "output_chunk L st i stream offset limit f = (f', Inr c)" and "get st i = Some r"
    and "output_encoding (rec_snapshot r) = Utf16le" and "fs_files f (stream_path r stream) = Some content"
    and "length content < 2 ^ 64" and "odd (length content)" and "even (unat offset)"
  shows "\<not> chunk_eof c \<and> even (unat (next_offset c)) \<and> unat (next_offset c) < length content"
proof -
  have sz: "unat (of_nat (length content) :: u64) = length content"
    using assms(5) by (rule unat_of_nat_small)
  let ?n = "chunk_read_limit Utf16le limit (of_nat (length content)) offset"
  let ?data = "take (unat ?n) (drop (unat offset) content)"
  from assms(1-4) have off: "\<not> offset > of_nat (length content)"
    and c: "next_offset c = offset + of_nat (length ?data)"
      "chunk_eof c \<Longrightarrow> next_offset c \<ge> of_nat (length content)"
    by (auto simp: output_chunk_def Let_def fs_open_def fs_query_def
        split: if_splits option.splits prod.splits bool.splits)
  then have le: "unat offset \<le> length content" by (simp add: word_less_nat_alt sz)
  let ?k = "chunk_len Utf16le (unat limit) (length content - unat offset)"
  have k: "length ?data = ?k"
    using unat_chunk_read_limit [OF assms(5) le, of Utf16le limit]
      chunk_len_le [of Utf16le "unat limit" "length content - unat offset"] by simp
  have ev: "even ?k" by (auto simp: chunk_len_def Let_def)
  have lt: "unat offset + ?k < length content"
  proof -
    have "unat offset + ?k \<le> length content" using le chunk_len_le [of Utf16le "unat limit" "length content - unat offset"] by linarith
    moreover have "unat offset + ?k \<noteq> length content" using ev assms(6,7) by (metis even_add)
    ultimately show ?thesis by linarith
  qed
  have nx: "unat (next_offset c) = unat offset + ?k"
    using c(1) k lt assms(5) by (simp add: unat_word_ariths unat_of_nat_small)
  show ?thesis
    using c(2) nx lt ev assms(7) by (auto simp: word_le_nat_alt sz)
qed

definition demo_utf16 :: task_record where
  "demo_utf16 = demo_record\<lparr>rec_snapshot := (demo_snapshot Succeeded)\<lparr>output_encoding := Utf16le\<rparr>\<rparr>"

lemma demo_utf16_path [simp]: "stream_path demo_utf16 Stdout = ''/d/stdout.log''"
  by (simp add: stream_path_def demo_utf16_def demo_store_defs path_join_def is_absolute_def text_simps)

theorem utf16_odd_tail_never_eof_witness:
  "\<exists>f' c. output_chunk demo_store_lib (demo_store demo_utf16) 1 Stdout 4 100 (demo_fs [] (\<lambda>_. None)) = (f', Inr c) \<and>
     \<not> chunk_eof c"
proof -
  have g: "get (demo_store demo_utf16) 1 = Some demo_utf16" by (simp add: get_def demo_store_def)
  have f: "fs_files (demo_fs [] (\<lambda>_. None)) (stream_path demo_utf16 Stdout) = Some ''hello''"
    unfolding demo_utf16_path by (simp add: demo_fs_def)
  have e: "output_encoding (rec_snapshot demo_utf16) = Utf16le" by (simp add: demo_utf16_def)
  have m: "mode_mismatch (output_mode (rec_snapshot demo_utf16)) Stdout = None"
    by (simp add: demo_utf16_def demo_store_defs)
  have rel: "fs_reliable (demo_fs [] (\<lambda>_. None))" by (simp add: fs_reliable_def demo_fs_def)
  obtain f' c where o: "output_chunk demo_store_lib (demo_store demo_utf16) 1 Stdout 4 100 (demo_fs [] (\<lambda>_. None)) = (f', Inr c)"
    using output_chunk_reliable [OF rel g m f, of 100 4 demo_store_lib] by (auto simp: max_limit_def)
  from utf16_odd_tail_never_eof [OF o g e f] o show ?thesis by simp
qed

lemma watch_value_request [simp]: "watch_value (request_stop_now why r) = Some why"
  by (simp add: watch_value_def)

lemma sint_negative: "2 ^ 63 \<le> unat (w :: u64) \<Longrightarrow> sint w < 0"
proof -
  assume "2 ^ 63 \<le> unat w"
  moreover have "unat w < 2 ^ 64" using unsigned_less [of w] by simp
  ultimately have "unat w div 2 ^ 63 = 1" by simp
  then have "bit (unat w) 63" by (simp add: bit_iff_odd)
  then have "bit w 63" by (simp add: bit_unsigned_iff)
  then show ?thesis using bit_last_iff [of w] by simp
qed

lemma remove_task_files:
  assumes "\<not> fs_below (rec_directory r) p" and "tasks (fst sf) i = Some r"
  shows "fs_files (snd (remove_task i sf)) p = fs_files (snd sf) p"
  using assms by (cases sf) (auto simp: remove_task_def fs_remove_dir_all_def Let_def)

lemma fold_remove_files:
  assumes "\<forall>i r. i \<in> set ids \<longrightarrow> tasks (fst sf) i = Some r \<longrightarrow> \<not> fs_below (rec_directory r) p"
  shows "fs_files (snd (fold remove_task ids sf)) p = fs_files (snd sf) p"
  using assms
proof (induction ids arbitrary: sf)
  case (Cons i ids)
  have "fs_files (snd (remove_task i sf)) p = fs_files (snd sf) p"
  proof (cases "tasks (fst sf) i")
    case None
    then show ?thesis by (cases sf) (simp add: remove_task_def)
  next
    case (Some r)
    with Cons.prems show ?thesis by (intro remove_task_files) auto
  qed
  moreover have "fs_files (snd (fold remove_task ids (remove_task i sf))) p = fs_files (snd (remove_task i sf)) p"
    using Cons.prems by (intro Cons.IH) (auto simp: remove_task_tasks split: if_splits)
  ultimately show ?case by simp
qed simp

text \<open>
  Expiry removes exactly the tasks whose finishing time is known and at least the retention
  period ago, and it touches no file outside the directories of those tasks.
\<close>

theorem cleanup_exact:
  assumes "enumerates ids st" and "cleanup_expired L now ids st f = (st', f')"
  shows "tasks st' i = (case tasks st i of None \<Rightarrow> None
           | Some r \<Rightarrow> if expired L now (retention st) (rec_snapshot r) then None else Some r) \<and>
         (fs_files f' p \<noteq> fs_files f p \<longrightarrow>
            (\<exists>j r. tasks st j = Some r \<and> expired L now (retention st) (rec_snapshot r) \<and> fs_below (rec_directory r) p))"
proof -
  have "fs_files f' p = fs_files f p"
    if "\<not> (\<exists>j r. tasks st j = Some r \<and> expired L now (retention st) (rec_snapshot r) \<and> fs_below (rec_directory r) p)"
    using that fold_remove_files [of "expired_ids L now ids st" "(st, f)" p] assms(2)
    by (force simp: cleanup_expired_def expired_ids_def)
  then show ?thesis
    using cleanup_tasks [OF assms(1), of L now f i] assms(2) by auto
qed

definition demo_done :: task_record where
  "demo_done = demo_record\<lparr>rec_snapshot := (demo_snapshot Succeeded)\<lparr>finished_at := Some ''t''\<rparr>\<rparr>"

theorem cleanup_exact_witness:
  "tasks (fst (cleanup_expired demo_store_lib 60000000000 [1] (demo_store demo_done) (demo_fs [] (\<lambda>_. None)))) 1 = None"
proof -
  have e: "enumerates [1] (demo_store demo_done)" by (simp add: enumerates_def demo_store_def)
  have x: "expired demo_store_lib 60000000000 60 (rec_snapshot demo_done)"
    by (simp add: expired_def demo_done_def demo_store_lib_def demo_time_def)
  have "cleanup_expired demo_store_lib 60000000000 [1] (demo_store demo_done) (demo_fs [] (\<lambda>_. None)) =
    (fst (cleanup_expired demo_store_lib 60000000000 [1] (demo_store demo_done) (demo_fs [] (\<lambda>_. None))),
     snd (cleanup_expired demo_store_lib 60000000000 [1] (demo_store demo_done) (demo_fs [] (\<lambda>_. None))))" by simp
  from cleanup_exact [OF e this, of 1] x show ?thesis by (simp add: demo_store_def)
qed

text \<open>
  A retention period of \<open>2 ^ 63\<close> seconds or more becomes negative in the cast to \<open>i64\<close>:
  every task that has finished expires at the next clean-up instead of being kept.
\<close>

theorem huge_retention_expires_at_once:
  assumes "2 ^ 63 \<le> unat keep" and "finished_at s = Some t"
    and "parse_rfc3339 (store_time L) t = Some d" and "d \<le> now" and "time_lib_rounds (store_time L)"
  shows "expired L now keep s"
proof -
  have "sint keep < 0" using assms(1) by (rule sint_negative)
  moreover have "whole_seconds (store_time L) (now - d) \<ge> 0"
    using assms(4,5) by (simp add: time_lib_rounds_def sgn_if)
  ultimately show ?thesis
    using assms(2,3) by (simp add: expired_def)
qed

theorem huge_retention_expires_at_once_witness:
  "expired demo_store_lib 0 (2 ^ 63) (rec_snapshot demo_done)"
  by (rule huge_retention_expires_at_once [of _ _ "''t''" _ 0])
    (simp_all add: demo_done_def demo_store_lib_def demo_time_def time_lib_rounds_def)

text \<open>
  A stop request is accepted exactly for a known task that has not finished; it then is the
  value the executor sees next, whatever was requested before, and no other task changes.
\<close>

theorem request_stop_exact:
  assumes "request_stop st i why = (st', ok)"
  shows "(ok \<longleftrightarrow> (\<exists>r. get st i = Some r \<and> \<not> is_finished (status (snapshot r)))) \<and>
    (ok \<longrightarrow> (\<exists>r'. get st' i = Some r' \<and> watch_value r' = Some why)) \<and>
    (\<forall>j. j \<noteq> i \<or> \<not> ok \<longrightarrow> get st' j = get st j)"
  using assms
  by (auto simp: request_stop_def get_def split: option.splits if_splits)

theorem request_stop_exact_witness:
  "\<exists>r'. get (fst (request_stop (demo_store demo_record) 1 CancelledReason)) 1 = Some r' \<and>
     watch_value r' = Some CancelledReason"
proof -
  have "request_stop (demo_store demo_record) 1 CancelledReason =
     (fst (request_stop (demo_store demo_record) 1 CancelledReason), True)"
    by (simp add: request_stop_def get_def demo_store_defs snapshot_def)
  from request_stop_exact [OF this] show ?thesis by simp
qed

text \<open>
  Stopping all tasks sends the reason to exactly the unfinished ones, and it replaces a
  pending force-kill request that the executor has not read yet.
\<close>

theorem cancel_all_exact:
  assumes "enumerates ids st"
  shows "get (cancel_all ids why st) i =
     (case get st i of None \<Rightarrow> None
      | Some r \<Rightarrow> Some (if is_finished (status (rec_snapshot r)) then r else request_stop_now why r)) \<and>
     (\<forall>r. get st i = Some r \<longrightarrow> \<not> is_finished (status (rec_snapshot r)) \<longrightarrow>
        map_option watch_value (get (cancel_all ids why (fst (request_stop st i ForceKilled))) i) = Some (Some why))"
proof -
  have e: "enumerates ids (fst (request_stop st i ForceKilled))"
    using assms by (auto simp: enumerates_def request_stop_def get_def split: option.splits)
  have d: "distinct ids" "\<And>r. tasks st i = Some r \<Longrightarrow> i \<in> set ids"
    using assms by (auto simp: enumerates_def)
  have "get (cancel_all ids why st) i =
     (case get st i of None \<Rightarrow> None
      | Some r \<Rightarrow> Some (if is_finished (status (rec_snapshot r)) then r else request_stop_now why r))"
    using d by (auto simp: get_def cancel_all_tasks split: option.splits)
  moreover have "map_option watch_value (get (cancel_all ids why (fst (request_stop st i ForceKilled))) i) = Some (Some why)"
    if "get st i = Some r" "\<not> is_finished (status (rec_snapshot r))" for r
    using d that by (simp add: get_def cancel_all_tasks request_stop_def)
  ultimately show ?thesis by blast
qed

theorem cancel_all_exact_witness:
  "map_option watch_value (get (cancel_all [1] CancelledReason
     (fst (request_stop (demo_store demo_record) 1 ForceKilled))) 1) = Some (Some CancelledReason)"
proof -
  have "enumerates [1] (demo_store demo_record)" by (simp add: enumerates_def demo_store_def)
  from cancel_all_exact [OF this, of CancelledReason 1] show ?thesis
    by (simp add: get_def demo_store_defs)
qed

lemma path_join_inj:
  "\<not> is_absolute a \<Longrightarrow> \<not> is_absolute b \<Longrightarrow> path_join d a = path_join d b \<longleftrightarrow> a = b"
  by (auto simp: path_join_def)

lemma stream_file_name_relative [simp]: "\<not> is_absolute (stream_file_name s)" "stream_file_name s \<noteq> ''events.jsonl''"
  by (cases s; simp add: is_absolute_def text_simps)+

lemma events_relative [simp]: "\<not> is_absolute ''events.jsonl''"
  by (simp add: is_absolute_def text_simps)

lemma fs_write_ok: "fs_write p d f = (f', True) \<Longrightarrow> f' = fs_tick (fs_put p d f)"
  by (auto simp: fs_write_def split: option.splits io_fault.splits)

lemma write_empty_ok:
  "write_empty ps f = (f', Inr ()) \<Longrightarrow> (\<forall>p. fs_files f' p = (if p \<in> set ps then Some [] else fs_files f p))"
  by (induction ps f rule: write_empty.induct)
    (auto split: prod.splits bool.splits if_splits dest!: fs_write_ok)

lemma create_ok:
  assumes "create L i ts rt mode enc st f = (st', f', Inr r)"
  obtains f2 f1 where "r = record_new (initial_snapshot i ts rt mode enc) (task_directory L st i)"
    and "st' = st\<lparr>tasks := (tasks st)(i \<mapsto> r), active_count := active_count st + 1\<rparr>"
    and "fs_create_dir (task_directory L st i) f = (f1, True)"
    and "write_empty (map (stream_path r) (mode_streams mode)) f1 = (f2, Inr ())"
    and "persist L r f2 = (f', Inr ())"
proof -
  have "(\<lambda>x. path_join (task_directory L st i) (stream_file_name x)) =
      stream_path (record_new (initial_snapshot i ts rt mode enc) (task_directory L st i))"
    by (simp add: fun_eq_iff stream_path_def)
  with assms show ?thesis
    by (auto simp: create_def Let_def split: prod.splits bool.splits sum.splits intro: that)
qed

text \<open>
  Creating a task either fails and leaves the store as it was, or files a new record in
  status \<open>Starting\<close> under its id, counts it as active, leaves the output files of its mode empty
  and a journal that recovery reads as that record; no other task changes.
\<close>

theorem create_exact:
  assumes "create L i ts rt mode enc st f = (st', f', res)"
    and "fs_files f (path_join (task_directory L st i) ''events.jsonl'') = None"
    and "json_roundtrips L (initial_snapshot i ts rt mode enc)"
  shows "(\<forall>e. res = Inl e \<longrightarrow> st' = st) \<and>
    (\<forall>r. res = Inr r \<longrightarrow>
       get st' i = Some r \<and> snapshot r = initial_snapshot i ts rt mode enc \<and> rec_id r = i \<and>
       active_count st' = active_count st + 1 \<and> (\<forall>j. j \<noteq> i \<longrightarrow> get st' j = get st j) \<and>
       (\<forall>s\<in>set (mode_streams mode). fs_files f' (stream_path r s) = Some []) \<and>
       journal_stored L r f' = Some (snapshot r))"
proof -
  have "st' = st" if "res = Inl e" for e
    using assms(1) that
    by (auto simp: create_def Let_def split: prod.splits bool.splits sum.splits)
  moreover have "get st' i = Some r \<and> snapshot r = initial_snapshot i ts rt mode enc \<and> rec_id r = i \<and>
       active_count st' = active_count st + 1 \<and> (\<forall>j. j \<noteq> i \<longrightarrow> get st' j = get st j) \<and>
       (\<forall>s\<in>set (mode_streams mode). fs_files f' (stream_path r s) = Some []) \<and>
       journal_stored L r f' = Some (snapshot r)" if "res = Inr r" for r
  proof -
    let ?d = "task_directory L st i"
    from assms(1) that obtain f1 f2 where
      r: "r = record_new (initial_snapshot i ts rt mode enc) ?d"
      and st': "st' = st\<lparr>tasks := (tasks st)(i \<mapsto> r), active_count := active_count st + 1\<rparr>"
      and d: "fs_create_dir ?d f = (f1, True)"
      and w: "write_empty (map (stream_path r) (mode_streams mode)) f1 = (f2, Inr ())"
      and p: "persist L r f2 = (f', Inr ())" by (auto elim: create_ok)
    have sn: "snapshot r = initial_snapshot i ts rt mode enc"
      by (simp add: r snapshot_def initial_snapshot_def)
    have ne: "stream_path r s \<noteq> events_path r" for s
      by (simp add: stream_path_def events_path_def path_join_inj)
    have "fs_files f1 = fs_files f" using d by (auto simp: fs_create_dir_def split: if_splits)
    with assms(2) write_empty_ok [OF w] ne have "fs_content f2 (events_path r) = []"
      by (auto simp: fs_content_def events_path_def r image_iff)
    then have "journal_intact L r f2" by (auto simp: journal_intact_def intro: journal_reads_Nil)
    from persist_stored [OF p this] assms(3) sn have j: "journal_stored L r f' = Some (snapshot r)" by simp
    have "fs_files f' q = fs_files f2 q" if "q \<noteq> events_path r" for q
      using p that by (auto elim!: persist_ok)
    with ne write_empty_ok [OF w] have "\<forall>s\<in>set (mode_streams mode). fs_files f' (stream_path r s) = Some []" by auto
    with st' sn j show ?thesis by (auto simp: get_def r initial_snapshot_def)
  qed
  ultimately show ?thesis by blast
qed

theorem create_exact_witness:
  "\<exists>st' f' r. create demo_store_lib 1 ''t'' ''/run'' Separate Utf8 (demo_store demo_record) (demo_fs [] (\<lambda>_. None))
       = (st', f', Inr r) \<and> active_count st' = 2 \<and> journal_stored demo_store_lib r f' = Some (snapshot r)"
proof -
  let ?c = "create demo_store_lib 1 ''t'' ''/run'' Separate Utf8 (demo_store demo_record) (demo_fs [] (\<lambda>_. None))"
  have d: "task_directory demo_store_lib (demo_store demo_record) 1 = ''/tasks/u''"
    by (simp add: task_directory_def demo_store_defs path_join_def is_absolute_def text_simps)
  then have "fs_files (demo_fs [] (\<lambda>_. None))
      (path_join (task_directory demo_store_lib (demo_store demo_record) 1) ''events.jsonl'') = None"
    by (simp add: path_join_def is_absolute_def text_simps demo_fs_def)
  moreover have "json_roundtrips demo_store_lib (initial_snapshot 1 ''t'' ''/run'' Separate Utf8)"
    using demo_roundtrips(1) by (simp add: demo_snapshot_def initial_snapshot_def)
  moreover have "snapshot_to_json demo_store_lib = demo_to_json" by (simp add: demo_store_lib_def)
  then have "\<exists>r. snd (snd ?c) = Inr r"
    by (simp add: create_def Let_def d fs_create_dir_def fs_next_fault_def fs_write_def persist_def
        fs_append_def demo_fs_def demo_to_json_def)
  moreover have "?c = (fst ?c, fst (snd ?c), snd (snd ?c))" by simp
  ultimately show ?thesis
    using create_exact [of demo_store_lib 1 "''t''" "''/run''" Separate Utf8 "demo_store demo_record"
        "demo_fs [] (\<lambda>_. None)" "fst ?c" "fst (snd ?c)" "snd (snd ?c)"]
    by (metis demo_store_def one_add_one task_store.select_convs(5))
qed

text \<open>
  C40. A torn journal record swallows the next one: when an append fails after \<open>k\<close> bytes and the
  following status change is persisted successfully, its line continues the torn one. Recovery
  then sees the state before both, or, when the cut falls inside a multi-byte character, fails
  with an error instead of ignoring the damaged record.
\<close>

theorem torn_record_swallows_next:
  assumes "journal_reads L (events_path r) (fs_content f (events_path r)) a"
    and "fs_next_fault f = Some (FailAfter k)"
    and "transition L u r f = (r1, f1, res1)" and "snapshot_to_json L (snapshot r1) = Some l1" and "k \<le> length l1"
    and "transition L v r1 f1 = (r2, f2, Inr ())" and "snapshot_to_json L (snapshot r2) = Some l2"
    and "set (l1 @ l2) \<inter> {LF, CR} = {}" and "snapshot_from_json L (take k l1 @ l2) = None"
  shows "latest_snapshot L (events_path r) None (raw_lines (fs_content f2 (events_path r))) =
     (if utf8_valid (take k l1 @ l2) then Inr a else Inl (StoreError (LineNotUtf8 (events_path r))))"
proof -
  have ev: "events_path r1 = events_path r" "events_path r2 = events_path r"
    using transition_eqs(1) [OF assms(3)] transition_eqs(1) [OF assms(6)] by simp_all
  have "fs_content f1 (events_path r) = fs_content f (events_path r) @ take k l1"
    using transition_eqs(2) [OF assms(3)] assms(2,4,5) ev by (auto simp: persist_def fs_append_def)
  moreover have "fs_content f2 (events_path r) = fs_content f1 (events_path r) @ l2 @ [LF]"
    using transition_eqs(2) [OF assms(6)] assms(7) ev by (auto elim!: persist_ok)
  ultimately have c: "fs_content f2 (events_path r) = fs_content f (events_path r) @ (take k l1 @ l2) @ [LF]" by simp
  have nl: "LF \<notin> set (take k l1 @ l2)" "CR \<notin> set (take k l1 @ l2)"
    using assms(8) by (auto dest: in_set_takeD)
  from assms(1) have "fs_content f (events_path r) = [] \<or> last (fs_content f (events_path r)) = LF"
    and l: "latest_snapshot L (events_path r) None (raw_lines (fs_content f (events_path r))) = Inr a"
    by (auto simp: journal_reads_def)
  then have "raw_lines (fs_content f2 (events_path r)) = raw_lines (fs_content f (events_path r)) @ [take k l1 @ l2]"
    unfolding c using raw_lines_append_line [OF _ nl(1)] strip_cr_id [OF nl(2)] by metis
  with l assms(9) show ?thesis by (simp add: latest_snapshot_snoc)
qed

theorem torn_record_swallows_next_witness:
  "let faults = (\<lambda>n. if n = 0 then Some (FailAfter 2) else None);
       (r1, f1, res1) = transition demo_store_lib (\<lambda>s. s\<lparr>status := Running\<rparr>) demo_record (demo_fs (''sss'' @ [LF]) faults);
       (r2, f2, res2) = transition demo_store_lib (\<lambda>s. s\<lparr>status := Failed\<rparr>) r1 f1
   in res2 = Inr () \<and> latest_snapshot demo_store_lib ''/d/events.jsonl'' None
        (raw_lines (fs_content f2 ''/d/events.jsonl'')) = Inr (Some (demo_snapshot Starting))"
proof -
  define faults where "faults = (\<lambda>n::nat. if n = 0 then Some (FailAfter 2) else None)"
  let ?f = "demo_fs (''sss'' @ [LF]) faults"
  obtain r1 f1 res1 where t1: "transition demo_store_lib (\<lambda>s. s\<lparr>status := Running\<rparr>) demo_record ?f = (r1, f1, res1)"
    by (cases "transition demo_store_lib (\<lambda>s. s\<lparr>status := Running\<rparr>) demo_record ?f")
  obtain r2 f2 res2 where t2: "transition demo_store_lib (\<lambda>s. s\<lparr>status := Failed\<rparr>) r1 f1 = (r2, f2, res2)"
    by (cases "transition demo_store_lib (\<lambda>s. s\<lparr>status := Failed\<rparr>) r1 f1")
  have j: "journal_reads demo_store_lib (events_path demo_record) (fs_content ?f (events_path demo_record)) (Some (demo_snapshot Starting))"
    by (simp add: journal_reads_def fs_content_def demo_store_defs raw_lines_def utf8_valid_def
        strip_cr_def text_simps events_path_def path_join_def is_absolute_def)
  have s1: "status (rec_snapshot r1) = Running" and s2: "status (rec_snapshot r2) = Failed"
    using transition_eqs(1) [OF t1] transition_eqs(1) [OF t2] by simp_all
  have js: "snapshot_to_json demo_store_lib (snapshot r1) = Some ''rrr''"
    "snapshot_to_json demo_store_lib (snapshot r2) = Some ''fff''"
    using s1 s2 by (simp_all add: demo_store_lib_def demo_to_json_def)
  have "fs_fault f1 = faults" "fs_clock f1 = 1"
    using transition_eqs(2) [OF t1] js(1)
    by (auto simp: persist_def fs_append_def fs_next_fault_def demo_fs_def faults_def)
  then have res2: "res2 = Inr ()"
    using transition_eqs(2) [OF t2] js(2)
    by (auto simp: persist_def fs_append_def fs_next_fault_def faults_def)
  have "fs_next_fault ?f = Some (FailAfter 2)" by (simp add: fs_next_fault_def demo_fs_def faults_def)
  from torn_record_swallows_next [OF j this t1 js(1) _ t2 [unfolded res2] js(2)]
  have "latest_snapshot demo_store_lib ''/d/events.jsonl'' None
        (raw_lines (fs_content f2 ''/d/events.jsonl'')) = Inr (Some (demo_snapshot Starting))"
    by (simp add: demo_store_lib_def demo_from_json_def utf8_valid_def)
  with t1 t2 res2 show ?thesis by (simp add: faults_def)
qed

end
