(* ===== verification/Capture.thy ===== *)
theory Capture
  imports Store "HOL-Library.Sublist"
begin

text \<open>
  Capturing the output of a task (\<open>Capture\<close> and \<open>copy_output\<close> of
  \<open>src/src/process/mod.rs\<close>): pipes are opened per output mode, and one blocking reader per
  pipe copies at most \<open>limit\<close> bytes in all into the output files of the task. The readers
  share \<open>captured_bytes\<close>, whose \<open>fetch_add\<close> decides what each chunk may still write; a
  chunk is therefore handled in two steps, \<open>reserve\<close> and \<open>commit\<close>, that readers
  interleave (\<open>capture_step\<close>). The lemmas show what the files, counters and the truncation
  flag hold under every interleaving, failing writes included.
\<close>

section \<open>Pipes\<close>

text \<open>Pipes are numbered in the order of the calls; \<open>ok n\<close> is the outcome of the \<open>n\<close>-th
  \<open>os_pipe::pipe\<close> or \<open>try_clone\<close> call.\<close>

record capture =
  cap_stdout :: nat
  cap_stderr :: nat
  cap_readers :: "(output_stream \<times> nat) list"

fun capture_new :: "output_mode \<Rightarrow> (nat \<Rightarrow> bool) \<Rightarrow> error + capture" where
  "capture_new Separate ok =
     (if ok 0 \<and> ok 1 then
        Inr \<lparr>cap_stdout = 0, cap_stderr = 1, cap_readers = [(Stdout, 0), (Stderr, 1)]\<rparr>
      else Inl (ProcessError PipeFailed))"
| "capture_new CombinedMode ok =
     (if ok 0 \<and> ok 1 then
        Inr \<lparr>cap_stdout = 0, cap_stderr = 0, cap_readers = [(CombinedStream, 0)]\<rparr>
      else Inl (ProcessError PipeFailed))"

section \<open>Copying\<close>

fun stream_bytes :: "output_stream \<Rightarrow> task_record \<Rightarrow> u64" where
  "stream_bytes Stdout r = stdout_bytes r"
| "stream_bytes Stderr r = stderr_bytes r"
| "stream_bytes CombinedStream r = combined_bytes r"

text \<open>\<open>fetch_add\<close> on the shared counter and the number of bytes that may be written.\<close>

definition reserve :: "u64 \<Rightarrow> bytes \<Rightarrow> task_record \<Rightarrow> task_record \<times> u64" where
  "reserve limit data r =
     (let already = captured_bytes r;
          allowed = min (saturating_sub limit already) (of_nat (length data))
      in (r\<lparr>captured_bytes := already + of_nat (length data)\<rparr>, allowed))"

definition commit ::
  "output_stream \<Rightarrow> bytes \<Rightarrow> u64 \<Rightarrow> task_record \<Rightarrow> fs \<Rightarrow> task_record \<times> fs \<times> (error + unit)" where
  "commit stream data allowed r f =
     (let flag = (\<lambda>r. if allowed < of_nat (length data) then r\<lparr>rec_truncated := True\<rparr> else r) in
      if allowed > 0 then
        (case fs_append (stream_path r stream) (take (unat allowed) data) f of
           (f', False) \<Rightarrow> (r, f', Inl (ProcessError OutputWriteFailed))
         | (f', True) \<Rightarrow>
             (flag (set_stream_bytes stream (stream_bytes stream r + allowed) r), f', Inr ()))
      else (flag r, f, Inr ()))"

text \<open>What \<open>read\<close> returns: at most 8192 bytes, none of them at the end of the stream.\<close>

datatype read_result = ReadBytes bytes | ReadFailed

definition copy_open :: "output_stream \<Rightarrow> task_record \<Rightarrow> fs \<Rightarrow> fs \<times> (error + unit)" where
  "copy_open stream r f =
     (case fs_append (stream_path r stream) [] f of
        (f', True) \<Rightarrow> (f', Inr ())
      | (f', False) \<Rightarrow> (f', Inl (ProcessError OutputOpenFailed)))"

text \<open>The loop of \<open>copy_output\<close> over the results of \<open>read\<close>, one reader alone; \<open>None\<close>
  while the pipe is still open after the last of them.\<close>

fun copy_loop ::
  "output_stream \<Rightarrow> u64 \<Rightarrow> read_result list \<Rightarrow> task_record \<Rightarrow> fs
     \<Rightarrow> task_record \<times> fs \<times> (error + unit) option" where
  "copy_loop stream limit [] r f = (r, f, None)"
| "copy_loop stream limit (ReadFailed # _) r f = (r, f, Some (Inl (ProcessError OutputReadFailed)))"
| "copy_loop stream limit (ReadBytes data # rs) r f =
     (if data = [] then (r, f, Some (Inr ()))
      else (case reserve limit data r of
        (r1, allowed) \<Rightarrow>
          (case commit stream data allowed r1 f of
             (r2, f2, Inl e) \<Rightarrow> (r2, f2, Some (Inl e))
           | (r2, f2, Inr _) \<Rightarrow> copy_loop stream limit rs r2 f2)))"

definition copy_output ::
  "output_stream \<Rightarrow> u64 \<Rightarrow> read_result list \<Rightarrow> task_record \<Rightarrow> fs
     \<Rightarrow> task_record \<times> fs \<times> (error + unit) option" where
  "copy_output stream limit rs r f =
     (case copy_open stream r f of
        (f', Inl e) \<Rightarrow> (r, f', Some (Inl e))
      | (f', Inr _) \<Rightarrow> copy_loop stream limit rs r f')"

text \<open>The closure of \<open>start_readers\<close>: a failure also asks the executor to stop the task.\<close>

definition run_reader ::
  "output_stream \<Rightarrow> u64 \<Rightarrow> read_result list \<Rightarrow> task_record \<Rightarrow> fs
     \<Rightarrow> task_record \<times> fs \<times> (error + unit) option" where
  "run_reader stream limit rs r f =
     (case copy_output stream limit rs r f of
        (r', f', Some (Inl e)) \<Rightarrow> (request_stop_now LoggingFailure r', f', Some (Inl e))
      | other \<Rightarrow> other)"

section \<open>Interleaved readers\<close>

text \<open>
  \<open>cs_pending\<close> is the chunk a reader has reserved and not yet written, \<open>cs_input\<close> all the
  bytes it has read so far, \<open>cs_failed\<close> the readers that ended with an error.
\<close>

record cap_state =
  cs_record :: task_record
  cs_fs :: fs
  cs_pending :: "output_stream \<Rightarrow> (bytes \<times> u64) option"
  cs_input :: "output_stream \<Rightarrow> bytes"
  cs_failed :: "output_stream \<Rightarrow> bool"

text \<open>What the executor, the store and the clients leave alone while readers run.\<close>

definition same_output :: "task_record \<Rightarrow> task_record \<Rightarrow> bool" where
  "same_output r r' \<longleftrightarrow>
     rec_directory r' = rec_directory r \<and> captured_bytes r' = captured_bytes r \<and>
     rec_truncated r' = rec_truncated r \<and> (\<forall>x. stream_bytes x r' = stream_bytes x r)"

inductive capture_step :: "u64 \<Rightarrow> cap_state \<Rightarrow> cap_state \<Rightarrow> bool" for limit where
  cap_reserve: "\<lbrakk>cs_pending s x = None; \<not> cs_failed s x; data \<noteq> []; length data \<le> 8192;
     reserve limit data (cs_record s) = (r', allowed)\<rbrakk> \<Longrightarrow>
     capture_step limit s
       (s\<lparr>cs_record := r', cs_pending := (cs_pending s)(x := Some (data, allowed)),
          cs_input := (cs_input s)(x := cs_input s x @ data)\<rparr>)"
| cap_commit: "\<lbrakk>cs_pending s x = Some (data, allowed);
     commit x data allowed (cs_record s) (cs_fs s) = (r', f', Inr ())\<rbrakk> \<Longrightarrow>
     capture_step limit s
       (s\<lparr>cs_record := r', cs_fs := f', cs_pending := (cs_pending s)(x := None)\<rparr>)"
| cap_fail: "\<lbrakk>cs_pending s x = Some (data, allowed);
     commit x data allowed (cs_record s) (cs_fs s) = (r', f', Inl e)\<rbrakk> \<Longrightarrow>
     capture_step limit s
       (s\<lparr>cs_record := request_stop_now LoggingFailure r', cs_fs := f',
          cs_pending := (cs_pending s)(x := None), cs_failed := (cs_failed s)(x := True)\<rparr>)"
| cap_read_error: "\<lbrakk>cs_pending s x = None; \<not> cs_failed s x\<rbrakk> \<Longrightarrow>
     capture_step limit s
       (s\<lparr>cs_record := request_stop_now LoggingFailure (cs_record s),
          cs_failed := (cs_failed s)(x := True)\<rparr>)"
| cap_executor: "\<lbrakk>same_output (cs_record s) r'; \<forall>x. fs_content f' (stream_path r' x) = fs_content (cs_fs s) (stream_path r' x)\<rbrakk> \<Longrightarrow>
     capture_step limit s (s\<lparr>cs_record := r', cs_fs := f'\<rparr>)"

inductive_cases capture_stepE: "capture_step limit s s'"

definition cap_start :: "task_record \<Rightarrow> fs \<Rightarrow> cap_state" where
  "cap_start r f =
     \<lparr>cs_record = r, cs_fs = f, cs_pending = (\<lambda>_. None), cs_input = (\<lambda>_. []), cs_failed = (\<lambda>_. False)\<rparr>"

inductive capture_reachable :: "u64 \<Rightarrow> task_record \<Rightarrow> fs \<Rightarrow> cap_state \<Rightarrow> bool" for limit r f where
  cr_start: "capture_reachable limit r f (cap_start r f)"
| cr_step: "capture_reachable limit r f s \<Longrightarrow> capture_step limit s s' \<Longrightarrow> capture_reachable limit r f s'"

section \<open>Lemmas\<close>

definition total_of :: "(output_stream \<Rightarrow> nat) \<Rightarrow> nat" where
  "total_of g = g Stdout + g Stderr + g CombinedStream"

lemma total_of_upd: "total_of (\<lambda>y. if y = x then v else g y) + g x = total_of g + v"
  by (cases x) (simp_all add: total_of_def)

lemma total_of_ge: "g x \<le> total_of g"
  by (cases x) (simp_all add: total_of_def)

lemma total_of_cong: "(\<And>x. g x = h x) \<Longrightarrow> total_of g = total_of h"
  by (simp add: total_of_def)

lemma total_of_add: "total_of (\<lambda>x. g x + h x) = total_of g + total_of h"
  by (simp add: total_of_def)

definition cap_content :: "cap_state \<Rightarrow> output_stream \<Rightarrow> bytes" where
  "cap_content s x = fs_content (cs_fs s) (stream_path (cs_record s) x)"

definition pend_data :: "cap_state \<Rightarrow> output_stream \<Rightarrow> bytes" where
  "pend_data s x = (case cs_pending s x of None \<Rightarrow> [] | Some (d, a) \<Rightarrow> d)"

definition pend_allowed :: "cap_state \<Rightarrow> output_stream \<Rightarrow> nat" where
  "pend_allowed s x = (case cs_pending s x of None \<Rightarrow> 0 | Some (d, a) \<Rightarrow> unat a)"

definition cap_read :: "cap_state \<Rightarrow> nat" where
  "cap_read s = total_of (\<lambda>x. length (cs_input s x))"

definition cap_written :: "cap_state \<Rightarrow> nat" where
  "cap_written s = total_of (\<lambda>x. length (cap_content s x))"

text \<open>One stream: its file holds a prefix of what its reader has read, the whole of it until the
  shared limit is reached.\<close>

definition stream_inv :: "u64 \<Rightarrow> cap_state \<Rightarrow> output_stream \<Rightarrow> bool" where
  "stream_inv limit s x \<longleftrightarrow>
     (if cs_failed s x then cs_pending s x = None \<and> prefix (cap_content s x) (cs_input s x)
      else (\<exists>dn. cs_input s x = dn @ pend_data s x \<and> prefix (cap_content s x) dn \<and>
              pend_allowed s x \<le> length (pend_data s x) \<and>
              (length (cap_content s x) < length dn \<longrightarrow> unat limit \<le> cap_read s \<and> pend_allowed s x = 0) \<and>
              (pend_allowed s x < length (pend_data s x) \<longrightarrow> unat limit < cap_read s) \<and>
              unat (stream_bytes x (cs_record s)) = length (cap_content s x)))"

definition cap_inv :: "u64 \<Rightarrow> cap_state \<Rightarrow> bool" where
  "cap_inv limit s \<longleftrightarrow>
     unat (captured_bytes (cs_record s)) = cap_read s \<and>
     (\<forall>x. stream_inv limit s x) \<and>
     cap_written s + total_of (pend_allowed s) \<le> min (unat limit) (cap_read s) \<and>
     ((\<forall>x. \<not> cs_failed s x) \<longrightarrow> cap_written s + total_of (pend_allowed s) = min (unat limit) (cap_read s)) \<and>
     (rec_truncated (cs_record s) \<longrightarrow> unat limit < cap_read s) \<and>
     (unat limit < cap_read s \<longrightarrow> rec_truncated (cs_record s) \<or> (\<exists>x. cs_failed s x) \<or>
        (\<exists>x. pend_allowed s x < length (pend_data s x)))"

lemma set_stream_bytes_output [simp]:
  "stream_bytes y (set_stream_bytes x n r) = (if y = x then n else stream_bytes y r)"
  "captured_bytes (set_stream_bytes x n r) = captured_bytes r"
  "stream_path (set_stream_bytes x n r) = stream_path r"
  by (cases x; cases y; simp add: stream_path_def fun_eq_iff)+

lemma stream_bytes_frame [simp]:
  "stream_bytes x (r\<lparr>captured_bytes := n\<rparr>) = stream_bytes x r"
  "stream_bytes x (r\<lparr>rec_truncated := b\<rparr>) = stream_bytes x r"
  "stream_bytes x (request_stop_now why r) = stream_bytes x r"
  by (cases x; simp add: request_stop_now_def)+

lemma stream_path_frame [simp]:
  "stream_path (r\<lparr>captured_bytes := n\<rparr>) = stream_path r"
  "stream_path (r\<lparr>rec_truncated := b\<rparr>) = stream_path r"
  "stream_path (request_stop_now why r) = stream_path r"
  by (simp_all add: stream_path_def fun_eq_iff)

lemma stream_path_eq [simp]: "stream_path r x = stream_path r y \<longleftrightarrow> x = y"
  by (simp add: stream_path_def path_join_inj stream_file_name_inj)

lemma reserve_amount:
  assumes "reserve limit data r = (r', a)" and "length data < 2 ^ 64"
  shows "unat a = min (unat limit - unat (captured_bytes r)) (length data)"
  using assms
  by (auto simp: reserve_def Let_def min_def word_le_nat_alt unat_saturating_sub unat_of_nat_small)

lemma cap_inv_start:
  assumes "captured_bytes r = 0" and "\<not> rec_truncated r" and "\<forall>x. stream_bytes x r = 0"
    and "\<forall>x. fs_content f (stream_path r x) = []"
  shows "cap_inv limit (cap_start r f)"
  using assms
  by (simp add: cap_inv_def stream_inv_def cap_start_def cap_read_def cap_written_def cap_content_def
      pend_data_def pend_allowed_def total_of_def)

text \<open>Only the amount read matters when nothing else of a stream changes.\<close>

lemma stream_inv_mono:
  assumes "stream_inv limit s x" and "cap_read s \<le> cap_read s'"
    and "cs_failed s' x = cs_failed s x" and "cs_pending s' x = cs_pending s x"
    and "cs_input s' x = cs_input s x" and "cap_content s' x = cap_content s x"
    and "stream_bytes x (cs_record s') = stream_bytes x (cs_record s)"
  shows "stream_inv limit s' x"
  using assms by (fastforce simp: stream_inv_def pend_data_def pend_allowed_def split: if_splits)

lemma cap_inv_reserve:
  assumes inv: "cap_inv limit s" and p: "cs_pending s x = None" and nf: "\<not> cs_failed s x"
    and r: "reserve limit data (cs_record s) = (r', a)" and d: "length data \<le> 8192"
    and s': "s' = s\<lparr>cs_record := r', cs_pending := (cs_pending s)(x := Some (data, a)),
          cs_input := (cs_input s)(x := cs_input s x @ data)\<rparr>"
    and lt: "cap_read s' < 2 ^ 64"
  shows "cap_inv limit s'"
proof -
  have r': "r' = (cs_record s)\<lparr>captured_bytes := captured_bytes (cs_record s) + of_nat (length data)\<rparr>"
    using r by (auto simp: reserve_def Let_def)
  have "(\<lambda>y. length (cs_input s' y)) = (\<lambda>y. if y = x then length (cs_input s x @ data) else length (cs_input s y))"
    by (simp add: s' fun_eq_iff)
  with total_of_upd [of x "length (cs_input s x @ data)" "\<lambda>y. length (cs_input s y)"]
  have rd: "cap_read s' = cap_read s + length data" by (simp add: cap_read_def)
  have cap: "unat (captured_bytes (cs_record s)) = cap_read s" using inv by (simp add: cap_inv_def)
  have a: "unat a = min (unat limit - cap_read s) (length data)"
    using reserve_amount [OF r] d cap by simp
  have cap': "unat (captured_bytes (cs_record s')) = cap_read s'"
    using lt rd cap by (simp add: s' r' unat_word_ariths unat_of_nat_small)
  have con: "cap_content s' y = cap_content s y" for y by (simp add: cap_content_def s' r')
  have "pend_allowed s' = (\<lambda>y. if y = x then unat a else pend_allowed s y)"
    by (simp add: s' pend_allowed_def fun_eq_iff)
  with total_of_upd [of x "unat a" "pend_allowed s"] p
  have pa: "total_of (pend_allowed s') = total_of (pend_allowed s) + unat a"
    by (simp add: pend_allowed_def)
  have wr: "cap_written s' = cap_written s" by (simp add: cap_written_def con)
  have st: "stream_inv limit s' y" for y
  proof (cases "y = x")
    case True
    from inv nf p have old: "prefix (cap_content s x) (cs_input s x)"
      "length (cap_content s x) < length (cs_input s x) \<longrightarrow> unat limit \<le> cap_read s"
      "unat (stream_bytes x (cs_record s)) = length (cap_content s x)"
      by (auto simp: cap_inv_def stream_inv_def pend_data_def pend_allowed_def dest!: spec [of _ x])
    have "length (cap_content s x) < length (cs_input s x) \<Longrightarrow> unat a = 0" using old(2) a by simp
    moreover have "unat a < length data \<Longrightarrow> unat limit < cap_read s'" using a rd by linarith
    moreover have "unat a \<le> length data" using a by simp
    moreover have "pend_data s' x = data" "pend_allowed s' x = unat a" "cs_input s' x = cs_input s x @ data"
      "\<not> cs_failed s' x" "stream_bytes x (cs_record s') = stream_bytes x (cs_record s)"
      using nf by (simp_all add: s' r' pend_data_def pend_allowed_def)
    ultimately have "stream_inv limit s' x"
      unfolding stream_inv_def con using old rd by auto
    with True show ?thesis by simp
  next
    case False
    show ?thesis
    proof (rule stream_inv_mono)
      show "stream_inv limit s y" using inv by (simp add: cap_inv_def)
      show "cap_read s \<le> cap_read s'" using rd by simp
      show "cap_content s' y = cap_content s y" by (rule con)
    qed (use False in \<open>simp_all add: s' r'\<close>)
  qed
  have tr: "rec_truncated (cs_record s') = rec_truncated (cs_record s)" and fl: "cs_failed s' = cs_failed s"
    by (simp_all add: s' r')
  have over: "unat limit < cap_read s' \<Longrightarrow> unat limit < cap_read s \<or> pend_allowed s' x < length (pend_data s' x)"
    using a rd by (auto simp: pend_allowed_def pend_data_def s')
  have keep: "pend_allowed s y < length (pend_data s y) \<Longrightarrow> pend_allowed s' y < length (pend_data s' y)" for y
    using p by (auto simp: pend_allowed_def pend_data_def s')
  from inv have old: "cap_written s + total_of (pend_allowed s) \<le> min (unat limit) (cap_read s)"
    "(\<forall>x. \<not> cs_failed s x) \<Longrightarrow> cap_written s + total_of (pend_allowed s) = min (unat limit) (cap_read s)"
    "rec_truncated (cs_record s) \<Longrightarrow> unat limit < cap_read s"
    "unat limit < cap_read s \<Longrightarrow> rec_truncated (cs_record s) \<or> (\<exists>x. cs_failed s x) \<or>
        (\<exists>x. pend_allowed s x < length (pend_data s x))" by (simp_all add: cap_inv_def)
  show ?thesis
    unfolding cap_inv_def
  proof (intro conjI impI)
    show "cap_written s' + total_of (pend_allowed s') \<le> min (unat limit) (cap_read s')"
      using old(1) pa wr a rd by linarith
    show "cap_written s' + total_of (pend_allowed s') = min (unat limit) (cap_read s')"
      if "\<forall>x. \<not> cs_failed s' x" using old(2) that fl pa wr a rd by simp
    show "unat limit < cap_read s'" if "rec_truncated (cs_record s')" using old(3) that tr rd by simp
    show "rec_truncated (cs_record s') \<or> (\<exists>x. cs_failed s' x) \<or> (\<exists>x. pend_allowed s' x < length (pend_data s' x))"
      if "unat limit < cap_read s'" using over [OF that] old(4) tr fl keep by metis
  qed (use cap' st in auto)
qed

lemma commit_ok:
  assumes "commit x data a r f = (r', f', Inr ())"
  shows "fs_content f' (stream_path r y) =
           (if y = x then fs_content f (stream_path r x) @ take (unat a) data else fs_content f (stream_path r y))"
    and "stream_bytes y r' = (if y = x then stream_bytes x r + a else stream_bytes y r)"
    and "captured_bytes r' = captured_bytes r" and "stream_path r' = stream_path r"
    and "rec_truncated r' \<longleftrightarrow> rec_truncated r \<or> a < of_nat (length data)"
  using assms
  by (cases "a = 0"; auto simp: commit_def Let_def word_neq_0_conv
      split: if_splits prod.splits bool.splits dest!: fs_append_ok)+

lemma commit_fail:
  assumes "commit x data a r f = (r', f', Inl e)"
  shows "\<exists>k. fs_content f' (stream_path r x) = fs_content f (stream_path r x) @ take k (take (unat a) data)"
    and "y \<noteq> x \<Longrightarrow> fs_content f' (stream_path r y) = fs_content f (stream_path r y)" and "r' = r"
proof -
  from assms have r: "r' = r" and f: "fs_append (stream_path r x) (take (unat a) data) f = (f', False)"
    by (auto simp: commit_def Let_def split: if_splits prod.splits bool.splits)
  show "\<exists>k. fs_content f' (stream_path r x) = fs_content f (stream_path r x) @ take k (take (unat a) data)"
    using fs_append_prefix(1) [OF f] .
  show "y \<noteq> x \<Longrightarrow> fs_content f' (stream_path r y) = fs_content f (stream_path r y)"
    using fs_append_prefix(2) [OF f, of "stream_path r y"] by (simp add: fs_content_def)
  show "r' = r" by (rule r)
qed

lemma cap_inv_commit:
  assumes inv: "cap_inv limit s" and p: "cs_pending s x = Some (data, a)"
    and c: "commit x data a (cs_record s) (cs_fs s) = (r', f', Inr ())"
    and s': "s' = s\<lparr>cs_record := r', cs_fs := f', cs_pending := (cs_pending s)(x := None)\<rparr>"
    and lt: "cap_read s' < 2 ^ 64"
  shows "cap_inv limit s'"
proof -
  note c = commit_ok [OF c]
  have rd: "cap_read s' = cap_read s" by (simp add: cap_read_def s')
  have con: "cap_content s' y = (if y = x then cap_content s x @ take (unat a) data else cap_content s y)" for y
    using c(1) by (simp add: cap_content_def s' c(4))
  have pd: "pend_data s x = data" "pend_allowed s x = unat a" by (simp_all add: p pend_data_def pend_allowed_def)
  have pd': "pend_data s' y = (if y = x then [] else pend_data s y)"
    "pend_allowed s' y = (if y = x then 0 else pend_allowed s y)" for y
    by (simp_all add: s' pend_data_def pend_allowed_def)
  from inv have old: "stream_inv limit s y" "unat (captured_bytes (cs_record s)) = cap_read s"
     "cap_written s + total_of (pend_allowed s) \<le> min (unat limit) (cap_read s)"
    "(\<forall>x. \<not> cs_failed s x) \<Longrightarrow> cap_written s + total_of (pend_allowed s) = min (unat limit) (cap_read s)"
    "rec_truncated (cs_record s) \<Longrightarrow> unat limit < cap_read s"
    "unat limit < cap_read s \<Longrightarrow> rec_truncated (cs_record s) \<or> (\<exists>x. cs_failed s x) \<or>
        (\<exists>x. pend_allowed s x < length (pend_data s x))" for y by (simp_all add: cap_inv_def)
  have nf: "\<not> cs_failed s x" using old(1) [of x] p by (auto simp: stream_inv_def split: if_splits)
  then obtain dn where dn: "cs_input s x = dn @ data" "prefix (cap_content s x) dn" "unat a \<le> length data"
    "length (cap_content s x) < length dn \<longrightarrow> unat limit \<le> cap_read s \<and> unat a = 0"
    "unat a < length data \<longrightarrow> unat limit < cap_read s"
    "unat (stream_bytes x (cs_record s)) = length (cap_content s x)"
    using old(1) [of x] by (auto simp: stream_inv_def pd)
  have len: "length data < 2 ^ 64" "length (cap_content s x) + unat a < 2 ^ 64"
  proof -
    have "length (cs_input s x) \<le> cap_read s"
      unfolding cap_read_def using total_of_ge [of "\<lambda>x. length (cs_input s x)" x] by simp
    with lt rd dn(1,3) prefix_length_le [OF dn(2)] show "length data < 2 ^ 64" "length (cap_content s x) + unat a < 2 ^ 64"
      by simp_all
  qed
  have "length (cap_content s' y) = (if y = x then length (cap_content s x) + unat a else length (cap_content s y))" for y
    using dn(3) by (simp add: con)
  with total_of_upd [of x "length (cap_content s x) + unat a" "\<lambda>y. length (cap_content s y)"]
  have wr: "cap_written s' = cap_written s + unat a" by (simp add: cap_written_def)
  from total_of_upd [of x 0 "pend_allowed s"]
  have pa: "total_of (pend_allowed s') + unat a = total_of (pend_allowed s)"
    by (simp add: pd'(2) pd(2) cong: total_of_cong)
  have stx: "stream_inv limit s' x"
  proof -
    have "prefix (cap_content s' x) (cs_input s' x)"
      using dn(1,2,4) con [of x] take_is_prefix [of "unat a" data]
      by (cases "length (cap_content s x) < length dn") (auto simp: s' prefix_def take_is_prefix intro: prefix_prefix)
    moreover have "length (cap_content s' x) < length (cs_input s' x) \<longrightarrow> unat limit \<le> cap_read s'"
      using dn con [of x] rd by (auto simp: s')
    moreover have "unat (stream_bytes x (cs_record s')) = length (cap_content s' x)"
      using c(2) [of x] dn(3,6) con [of x] len(2) by (simp add: s' unat_word_ariths)
    moreover have "\<not> cs_failed s' x" using nf by (simp add: s')
    ultimately show ?thesis by (simp add: stream_inv_def pd')
  qed
  have st: "stream_inv limit s' y" for y
  proof (cases "y = x")
    case False
    show ?thesis
    proof (rule stream_inv_mono [OF old(1)])
      show "cap_content s' y = cap_content s y" using False con by simp
    qed (use False rd c(2) in \<open>simp_all add: s'\<close>)
  qed (use stx in simp)
  have tr: "rec_truncated (cs_record s') \<longleftrightarrow> rec_truncated (cs_record s) \<or> unat a < length data"
    using c(5) len(1) by (simp add: s' word_less_nat_alt unat_of_nat_small)
  show ?thesis
    unfolding cap_inv_def
  proof (intro conjI impI)
    show "cap_written s' + total_of (pend_allowed s') \<le> min (unat limit) (cap_read s')"
      using old(3) wr pa rd by linarith
    show "cap_written s' + total_of (pend_allowed s') = min (unat limit) (cap_read s')"
      if "\<forall>x. \<not> cs_failed s' x" using old(4) that wr pa rd by (simp add: s')
    show "unat limit < cap_read s'" if "rec_truncated (cs_record s')" using old(5) that tr dn(5) rd by auto
    show "rec_truncated (cs_record s') \<or> (\<exists>x. cs_failed s' x) \<or> (\<exists>x. pend_allowed s' x < length (pend_data s' x))"
      if over: "unat limit < cap_read s'"
    proof -
      consider "rec_truncated (cs_record s)" | y where "cs_failed s y" | y where "pend_allowed s y < length (pend_data s y)"
        using old(6) over rd by auto
      then show ?thesis
      proof cases
        case (3 y)
        then show ?thesis using tr pd pd' by (cases "y = x") (auto intro: exI [of _ y])
      qed (use tr in \<open>auto simp: s'\<close>)
    qed
  qed (use old(2) c(3) rd st in \<open>auto simp: s'\<close>)
qed

text \<open>A reader that ends with an error may have written a part of its chunk.\<close>

lemma cap_inv_stop:
  assumes inv: "cap_inv limit s"
    and con: "cap_content s' x = cap_content s x @ take k (take (pend_allowed s x) (pend_data s x))"
      "\<And>y. y \<noteq> x \<Longrightarrow> cap_content s' y = cap_content s y"
    and s': "cs_input s' = cs_input s" "cs_pending s' = (cs_pending s)(x := None)"
      "cs_failed s' = (cs_failed s)(x := True)" "\<And>y. stream_bytes y (cs_record s') = stream_bytes y (cs_record s)"
      "captured_bytes (cs_record s') = captured_bytes (cs_record s)"
      "rec_truncated (cs_record s') = rec_truncated (cs_record s)"
    and nf: "\<not> cs_failed s x"
  shows "cap_inv limit s'"
proof -
  have rd: "cap_read s' = cap_read s" by (simp add: cap_read_def s')
  have pd': "pend_allowed s' y = (if y = x then 0 else pend_allowed s y)" for y
    by (simp add: s' pend_allowed_def)
  from inv have old: "stream_inv limit s y" "unat (captured_bytes (cs_record s)) = cap_read s"
     "cap_written s + total_of (pend_allowed s) \<le> min (unat limit) (cap_read s)"
    "rec_truncated (cs_record s) \<Longrightarrow> unat limit < cap_read s" for y by (simp_all add: cap_inv_def)
  from old(1) [of x] nf obtain dn where dn: "cs_input s x = dn @ pend_data s x" "prefix (cap_content s x) dn"
    "length (cap_content s x) < length dn \<longrightarrow> pend_allowed s x = 0" by (auto simp: stream_inv_def)
  have "prefix (cap_content s' x) (cs_input s' x)"
  proof (cases "length (cap_content s x) < length dn")
    case True
    with dn con(1) show ?thesis by (simp add: s' prefix_prefix)
  next
    case False
    with dn(2) have "cap_content s x = dn" by (metis prefix_length_less strict_prefix_def)
    with dn(1) con(1) show ?thesis by (simp add: s' take_is_prefix)
  qed
  then have "stream_inv limit s' y" for y
  proof (cases "y = x")
    case False
    show ?thesis
      using False con(2) by (intro stream_inv_mono [OF old(1)]) (simp_all add: rd s')
  qed (simp add: stream_inv_def s')
  moreover have "cap_written s' + total_of (pend_allowed s') \<le> cap_written s + total_of (pend_allowed s)"
  proof -
    have "length (cap_content s' y) + pend_allowed s' y \<le> length (cap_content s y) + pend_allowed s y" for y
      using con pd' by (cases "y = x") auto
    then show ?thesis
      unfolding cap_written_def total_of_add [symmetric] by (simp add: total_of_def add_mono)
  qed
  ultimately show ?thesis
    using old unfolding cap_inv_def by (auto simp: rd s')
qed

lemma cap_inv_executor:
  assumes "cap_inv limit s" and "same_output (cs_record s) r'"
    and "\<forall>x. fs_content f' (stream_path r' x) = fs_content (cs_fs s) (stream_path r' x)"
  shows "cap_inv limit (s\<lparr>cs_record := r', cs_fs := f'\<rparr>)"
proof -
  have "stream_path r' = stream_path (cs_record s)"
    using assms(2) by (simp add: stream_path_def same_output_def fun_eq_iff)
  then have "cap_content (s\<lparr>cs_record := r', cs_fs := f'\<rparr>) = cap_content s"
    using assms(3) by (simp add: cap_content_def fun_eq_iff)
  moreover have "pend_data (s\<lparr>cs_record := r', cs_fs := f'\<rparr>) = pend_data s"
    "pend_allowed (s\<lparr>cs_record := r', cs_fs := f'\<rparr>) = pend_allowed s"
    by (simp_all add: pend_data_def pend_allowed_def fun_eq_iff)
  moreover have "cap_read (s\<lparr>cs_record := r', cs_fs := f'\<rparr>) = cap_read s" by (simp add: cap_read_def)
  ultimately show ?thesis
    using assms(1,2) by (simp add: cap_inv_def stream_inv_def cap_written_def same_output_def)
qed

lemma request_stop_now_output [simp]:
  "captured_bytes (request_stop_now why r) = captured_bytes r"
  "rec_truncated (request_stop_now why r) = rec_truncated r"
  by (simp_all add: request_stop_now_def)

lemma capture_step_read:
  assumes "capture_step limit s s'"
  shows "cap_read s \<le> cap_read s'"
  using assms
proof cases
  case (cap_reserve x data r' allowed)
  then show ?thesis
    by (cases x) (simp_all add: cap_read_def total_of_def)
qed (simp_all add: cap_read_def)

lemma capture_step_inv:
  assumes "capture_step limit s s'" and "cap_inv limit s" and "cap_read s' < 2 ^ 64"
  shows "cap_inv limit s'"
  using assms(1)
proof cases
  case (cap_reserve x data r' allowed)
  then show ?thesis using cap_inv_reserve [OF assms(2)] assms(3) by blast
next
  case (cap_commit x data allowed r' f')
  then show ?thesis using cap_inv_commit [OF assms(2)] assms(3) by blast
next
  case (cap_fail x data allowed r' f' e)
  note f = commit_fail [OF cap_fail(3)]
  from f(1) obtain k where k: "fs_content f' (stream_path (cs_record s) x) =
      fs_content (cs_fs s) (stream_path (cs_record s) x) @ take k (take (unat allowed) data)" ..
  have "\<not> cs_failed s x"
    using assms(2) cap_fail(2) by (auto simp: cap_inv_def stream_inv_def dest!: spec [of _ x] split: if_splits)
  with f(2,3) k cap_fail(2) show ?thesis
    unfolding cap_fail(1)
    by (intro cap_inv_stop [OF assms(2), where x = x and k = k])
      (simp_all add: cap_content_def pend_data_def pend_allowed_def)
next
  case (cap_read_error x)
  then show ?thesis
    unfolding cap_read_error(1)
    by (intro cap_inv_stop [OF assms(2), where x = x and k = 0])
      (auto simp: cap_content_def pend_data_def pend_allowed_def)
next
  case (cap_executor r' f')
  then show ?thesis using cap_inv_executor [OF assms(2)] by simp
qed

lemma capture_reachable_inv:
  "capture_reachable limit r f s \<Longrightarrow> cap_inv limit (cap_start r f) \<Longrightarrow> cap_read s < 2 ^ 64 \<Longrightarrow> cap_inv limit s"
proof (induction rule: capture_reachable.induct)
  case (cr_step s s')
  with capture_step_read [OF cr_step.hyps(2)] show ?case
    by (intro capture_step_inv [OF cr_step.hyps(2)]) auto
qed

text \<open>A task as \<open>create\<close> leaves it: nothing captured, its output files empty or absent.\<close>

definition fresh_output :: "task_record \<Rightarrow> fs \<Rightarrow> bool" where
  "fresh_output r f \<longleftrightarrow> captured_bytes r = 0 \<and> \<not> rec_truncated r \<and>
     (\<forall>x. stream_bytes x r = 0 \<and> fs_content f (stream_path r x) = [])"

lemma reachable_capture_inv:
  "capture_reachable limit r f s \<Longrightarrow> fresh_output r f \<Longrightarrow> cap_read s < 2 ^ 64 \<Longrightarrow> cap_inv limit s"
  by (rule capture_reachable_inv) (auto simp: fresh_output_def intro!: cap_inv_start)

lemma total_of_le_eq:
  assumes "total_of g = total_of h" and "\<And>y. g y \<le> h y"
  shows "g x = h x"
  using assms(1) assms(2) [of Stdout] assms(2) [of Stderr] assms(2) [of CombinedStream]
  by (cases x) (simp_all add: total_of_def)

section \<open>Properties\<close>

text \<open>
  C15. Under every interleaving of the readers and every pattern of failing writes, each output
  file holds a prefix of what its reader read, and all files together never exceed the output
  limit. While no reader has failed, the files and the chunks in flight make up exactly
  \<open>min limit read\<close> bytes.
\<close>

theorem captured_output_bounded:
  assumes "capture_reachable limit r f s" and "fresh_output r f" and "cap_read s < 2 ^ 64"
  shows "prefix (cap_content s x) (cs_input s x) \<and> cap_written s \<le> unat limit \<and>
    ((\<forall>y. \<not> cs_failed s y) \<longrightarrow> cap_written s + total_of (pend_allowed s) = min (unat limit) (cap_read s))"
proof -
  have inv: "cap_inv limit s" using reachable_capture_inv [OF assms] .
  then have "stream_inv limit s x" by (simp add: cap_inv_def)
  then have "prefix (cap_content s x) (cs_input s x)"
    by (auto simp: stream_inv_def intro: prefix_prefix split: if_splits)
  with inv show ?thesis by (auto simp: cap_inv_def)
qed

text \<open>
  C16. Once the readers of a running task have drained their pipes without an error, into files that were
  empty at the start, the byte counters are the sizes of the files, the truncation flag says exactly
  whether more was read than the limit, and without it the files hold everything that was read. Nothing
  is claimed after a failed write, nor after a restart, where the flag is not recovered.
\<close>

theorem truncation_flag_exact:
  assumes "capture_reachable limit r f s" and "fresh_output r f" and "cap_read s < 2 ^ 64"
    and "\<forall>y. cs_pending s y = None \<and> \<not> cs_failed s y"
  shows "unat (stream_bytes x (cs_record s)) = length (cap_content s x) \<and>
    (rec_truncated (cs_record s) \<longleftrightarrow> unat limit < cap_read s) \<and>
    (\<not> rec_truncated (cs_record s) \<longrightarrow> cap_content s x = cs_input s x)"
proof -
  have inv: "cap_inv limit s" using reachable_capture_inv [OF assms(1-3)] .
  have p: "pend_data s y = []" "pend_allowed s y = 0" for y
    using assms(4) by (simp_all add: pend_data_def pend_allowed_def)
  from inv assms(4) have tr: "rec_truncated (cs_record s) \<longleftrightarrow> unat limit < cap_read s"
    by (auto simp: cap_inv_def p)
  from inv assms(4) have st: "prefix (cap_content s y) (cs_input s y)"
    "unat (stream_bytes y (cs_record s)) = length (cap_content s y)" for y
    by (auto simp: cap_inv_def stream_inv_def p)
  have "cap_content s x = cs_input s x" if "\<not> rec_truncated (cs_record s)"
  proof -
    have "total_of (pend_allowed s) = 0" by (simp add: total_of_def p)
    then have "cap_written s = cap_read s"
      using inv assms(4) that tr by (simp add: cap_inv_def)
    moreover have "length (cap_content s y) \<le> length (cs_input s y)" for y
      using st(1) by (rule prefix_length_le)
    ultimately have "length (cap_content s x) = length (cs_input s x)"
      by (intro total_of_le_eq [of "\<lambda>y. length (cap_content s y)" "\<lambda>y. length (cs_input s y)"])
        (simp_all add: cap_written_def cap_read_def)
    with st(1) [of x] show ?thesis by (auto simp: prefix_def)
  qed
  with st tr show ?thesis by blast
qed

definition read_bytes :: "read_result list \<Rightarrow> bytes" where
  "read_bytes rs = concat (map (\<lambda>x. case x of ReadBytes d \<Rightarrow> d | ReadFailed \<Rightarrow> [])
                     (takeWhile (\<lambda>x. x \<noteq> ReadFailed \<and> x \<noteq> ReadBytes []) rs))"

definition small_reads :: "read_result list \<Rightarrow> bool" where
  "small_reads rs \<longleftrightarrow> list_all (\<lambda>x. case x of ReadBytes d \<Rightarrow> length d \<le> 8192 | ReadFailed \<Rightarrow> True) rs"

lemma copy_loop_reachable:
  assumes "copy_loop x limit rs (cs_record s) (cs_fs s) = (r', f', res)" and "small_reads rs"
    and "capture_reachable limit r f s" and "cs_pending s x = None" and "\<not> cs_failed s x"
  shows "\<exists>s'. capture_reachable limit r f s' \<and> cs_fs s' = f' \<and> cs_pending s' x = None \<and>
     cs_record s' = (case res of Some (Inl e) \<Rightarrow> request_stop_now LoggingFailure r' | _ \<Rightarrow> r') \<and>
     (cs_failed s' x \<longleftrightarrow> (\<exists>e. res = Some (Inl e))) \<and>
     (res = Some (Inr ()) \<longrightarrow> cs_input s' x = cs_input s x @ read_bytes rs)"
  using assms
proof (induction rs arbitrary: s)
  case Nil
  then show ?case by (intro exI [of _ s]) auto
next
  case (Cons c rs)
  show ?case
  proof (cases "c = ReadFailed \<or> c = ReadBytes []")
    case True
    then show ?thesis
    proof
      assume "c = ReadFailed"
      with Cons.prems cr_step [OF Cons.prems(3) cap_read_error [OF Cons.prems(4,5)]] show ?thesis
        by (intro exI [of _ "s\<lparr>cs_record := request_stop_now LoggingFailure (cs_record s),
             cs_failed := (cs_failed s)(x := True)\<rparr>"]) auto
    next
      assume "c = ReadBytes []"
      with Cons.prems show ?thesis by (intro exI [of _ s]) (auto simp: read_bytes_def)
    qed
  next
    case False
    then obtain data where c: "c = ReadBytes data" "data \<noteq> []" by (cases c) auto
    from Cons.prems(2) have d: "length data \<le> 8192" "small_reads rs" by (simp_all add: c small_reads_def)
    obtain r1 a where r1: "reserve limit data (cs_record s) = (r1, a)" by fastforce
    define s1 where "s1 = s\<lparr>cs_record := r1, cs_pending := (cs_pending s)(x := Some (data, a)),
          cs_input := (cs_input s)(x := cs_input s x @ data)\<rparr>"
    have reach1: "capture_reachable limit r f s1"
      unfolding s1_def by (rule cr_step [OF Cons.prems(3) cap_reserve [OF Cons.prems(4,5) c(2) d(1) r1]])
    have p1: "cs_pending s1 x = Some (data, a)" by (simp add: s1_def)
    obtain r2 f2 res2 where c2: "commit x data a (cs_record s1) (cs_fs s1) = (r2, f2, res2)"
      by (cases "commit x data a (cs_record s1) (cs_fs s1)")
    then have c2': "commit x data a r1 (cs_fs s) = (r2, f2, res2)" by (simp add: s1_def)
    show ?thesis
    proof (cases res2)
      case (Inl e)
      with Cons.prems(1) c r1 c2' have "r' = r2" "f' = f2" "res = Some (Inl e)" by auto
      with cr_step [OF reach1 cap_fail [OF p1 c2 [unfolded Inl]]] show ?thesis
        by (intro exI [of _ "s1\<lparr>cs_record := request_stop_now LoggingFailure r2, cs_fs := f2,
          cs_pending := (cs_pending s1)(x := None), cs_failed := (cs_failed s1)(x := True)\<rparr>"]) auto
    next
      case (Inr u)
      then have c3: "commit x data a (cs_record s1) (cs_fs s1) = (r2, f2, Inr ())" using c2 by simp
      define s2 where "s2 = s1\<lparr>cs_record := r2, cs_fs := f2, cs_pending := (cs_pending s1)(x := None)\<rparr>"
      have "copy_loop x limit rs (cs_record s2) (cs_fs s2) = (r', f', res)"
        using Cons.prems(1) c r1 c2' Inr by (simp add: s2_def)
      moreover have "capture_reachable limit r f s2"
        unfolding s2_def by (rule cr_step [OF reach1 cap_commit [OF p1 c3]])
      moreover have "cs_pending s2 x = None" "\<not> cs_failed s2 x" "cs_input s2 x = cs_input s x @ data"
        using Cons.prems(5) by (simp_all add: s2_def s1_def)
      moreover have "read_bytes (c # rs) = data @ read_bytes rs" using c by (simp add: read_bytes_def)
      ultimately show ?thesis using Cons.IH [OF _ d(2)] by fastforce
    qed
  qed
qed

lemma copy_open_content:
  "copy_open x r f = (f', res) \<Longrightarrow> fs_content f' (stream_path r y) = fs_content f (stream_path r y)"
  by (cases "y = x")
    (auto simp: copy_open_def fs_append_def fs_content_def split: prod.splits bool.splits option.splits io_fault.splits)

text \<open>
  C32. The reader closure that \<open>start_readers\<close> spawns is an execution of the interleaved
  model, so that what is proved of every interleaving holds of it: alone, it ends in a reachable
  state with its record and files, has failed exactly if it returns an error (and then has asked
  for the task to be stopped), and otherwise has read its whole stream.
\<close>

theorem run_reader_refines:
  assumes "run_reader x limit rs r f = (r', f', res)" and "small_reads rs"
  shows "\<exists>s. capture_reachable limit r f s \<and> cs_record s = r' \<and> cs_fs s = f' \<and> cs_pending s x = None \<and>
    (cs_failed s x \<longleftrightarrow> (\<exists>e. res = Some (Inl e))) \<and> ((\<exists>e. res = Some (Inl e)) \<longrightarrow> watch_value r' = Some LoggingFailure) \<and>
    (res = Some (Inr ()) \<longrightarrow> cs_input s x = read_bytes rs)"
proof -
  let ?s0 = "cap_start r f"
  obtain f1 o1 where o: "copy_open x r f = (f1, o1)" by fastforce
  have "same_output (cs_record ?s0) r" by (simp add: same_output_def cap_start_def)
  moreover have "\<forall>y. fs_content f1 (stream_path r y) = fs_content (cs_fs ?s0) (stream_path r y)"
    using copy_open_content [OF o] by (simp add: cap_start_def)
  ultimately have reach: "capture_reachable limit r f (?s0\<lparr>cs_record := r, cs_fs := f1\<rparr>)"
    by (intro cr_step [OF cr_start] cap_executor)
  let ?s1 = "?s0\<lparr>cs_record := r, cs_fs := f1\<rparr>"
  have s1: "cs_record ?s1 = r" "cs_fs ?s1 = f1" "cs_pending ?s1 x = None" "\<not> cs_failed ?s1 x" "cs_input ?s1 x = []"
    by (simp_all add: cap_start_def)
  show ?thesis
  proof (cases o1)
    case (Inl e)
    with assms(1) o have "r' = request_stop_now LoggingFailure r" "f' = f1" "res = Some (Inl e)"
      by (auto simp: run_reader_def copy_output_def)
    with cr_step [OF reach cap_read_error [OF s1(3,4)]] s1 show ?thesis
      by (intro exI [of _ "?s1\<lparr>cs_record := request_stop_now LoggingFailure (cs_record ?s1),
            cs_failed := (cs_failed ?s1)(x := True)\<rparr>"]) auto
  next
    case (Inr u)
    obtain r2 f2 res2 where l: "copy_loop x limit rs r f1 = (r2, f2, res2)"
      by (cases "copy_loop x limit rs r f1")
    then have "copy_loop x limit rs (cs_record ?s1) (cs_fs ?s1) = (r2, f2, res2)" by (simp only: s1)
    from copy_loop_reachable [OF this assms(2) reach s1(3,4)] s1(5)
    obtain s' where s': "capture_reachable limit r f s'" "cs_fs s' = f2" "cs_pending s' x = None"
      "cs_record s' = (case res2 of Some (Inl e) \<Rightarrow> request_stop_now LoggingFailure r2 | _ \<Rightarrow> r2)"
      "cs_failed s' x \<longleftrightarrow> (\<exists>e. res2 = Some (Inl e))" "res2 = Some (Inr ()) \<longrightarrow> cs_input s' x = read_bytes rs" by auto
    from assms(1) o Inr l have "f' = f2" "res = res2"
      "r' = (case res2 of Some (Inl e) \<Rightarrow> request_stop_now LoggingFailure r2 | _ \<Rightarrow> r2)"
      by (auto simp: run_reader_def copy_output_def split: option.splits sum.splits)
    with s' show ?thesis by (intro exI [of _ s']) auto
  qed
qed

section \<open>Example run\<close>

definition demo_cap_fs :: fs where
  "demo_cap_fs = \<lparr>fs_files = (\<lambda>_. None), fs_dirs = (\<lambda>_. True), fs_fault = (\<lambda>_. None), fs_left = (\<lambda>_ _. True), fs_clock = 0\<rparr>"

definition demo_cap_reserved :: cap_state where
  "demo_cap_reserved = (cap_start demo_record demo_cap_fs)
     \<lparr>cs_record := demo_record\<lparr>captured_bytes := 4\<rparr>,
      cs_pending := (\<lambda>_. None)(Stdout := Some (''abcd'', 3)), cs_input := (\<lambda>_. [])(Stdout := ''abcd'')\<rparr>"

definition demo_cap_done :: cap_state where
  "demo_cap_done = demo_cap_reserved
     \<lparr>cs_record := demo_record\<lparr>captured_bytes := 4, stdout_bytes := 3, rec_truncated := True\<rparr>,
      cs_fs := fs_tick (fs_put ''/d/stdout.log'' ''abc'' demo_cap_fs), cs_pending := (\<lambda>_. None)(Stdout := None)\<rparr>"

lemma demo_fresh: "fresh_output demo_record demo_cap_fs"
proof -
  have "stream_bytes x demo_record = 0" for x by (cases x) (simp_all add: demo_record_def record_new_def)
  then show ?thesis
    by (simp add: fresh_output_def fs_content_def demo_cap_fs_def) (simp add: demo_record_def record_new_def)
qed

lemma demo_reserved_reachable: "capture_reachable 3 demo_record demo_cap_fs demo_cap_reserved"
proof -
  let ?s = "cap_start demo_record demo_cap_fs"
  have "reserve 3 ''abcd'' (cs_record ?s) = (demo_record\<lparr>captured_bytes := 4\<rparr>, 3)"
    by (simp add: reserve_def cap_start_def Let_def saturating_sub_def demo_record_def record_new_def)
  from cap_reserve [OF _ _ _ _ this, of Stdout]
  have "capture_step 3 ?s demo_cap_reserved"
    by (simp add: demo_cap_reserved_def cap_start_def)
  from cr_step [OF cr_start this] show ?thesis .
qed

lemma demo_done_reachable: "capture_reachable 3 demo_record demo_cap_fs demo_cap_done"
proof -
  have "stream_path (demo_record\<lparr>captured_bytes := 4\<rparr>) Stdout = ''/d/stdout.log''" by simp
  moreover have "stdout_bytes demo_record = 0" by (simp add: demo_record_def record_new_def)
  ultimately have "commit Stdout ''abcd'' 3 (cs_record demo_cap_reserved) (cs_fs demo_cap_reserved) =
      (cs_record demo_cap_done, cs_fs demo_cap_done, Inr ())"
    by (simp add: commit_def demo_cap_reserved_def demo_cap_done_def cap_start_def fs_append_def
        fs_next_fault_def fs_content_def) (simp add: demo_cap_fs_def fs_content_def Let_def)
  from cap_commit [OF _ this, of 3] have "capture_step 3 demo_cap_reserved demo_cap_done"
    by (simp add: demo_cap_reserved_def demo_cap_done_def)
  from cr_step [OF demo_reserved_reachable this] show ?thesis .
qed

lemma demo_cap_read: "cap_read demo_cap_reserved = 4" "cap_read demo_cap_done = 4"
  by (simp_all add: cap_read_def total_of_def demo_cap_done_def demo_cap_reserved_def)

theorem captured_output_bounded_witness:
  "cap_written demo_cap_reserved + total_of (pend_allowed demo_cap_reserved) = 3"
proof -
  have "\<forall>y. \<not> cs_failed demo_cap_reserved y" by (simp add: demo_cap_reserved_def cap_start_def)
  with captured_output_bounded [OF demo_reserved_reachable demo_fresh] show ?thesis
    by (simp add: demo_cap_read)
qed

theorem truncation_flag_exact_witness:
  "unat (stream_bytes Stdout (cs_record demo_cap_done)) = length (cap_content demo_cap_done Stdout) \<and>
     rec_truncated (cs_record demo_cap_done)"
proof -
  have "\<forall>y. cs_pending demo_cap_done y = None \<and> \<not> cs_failed demo_cap_done y"
    by (simp add: demo_cap_done_def demo_cap_reserved_def cap_start_def)
  with truncation_flag_exact [OF demo_done_reachable demo_fresh, of Stdout] show ?thesis
    by (simp add: demo_cap_read)
qed

theorem run_reader_refines_witness:
  "\<exists>s. capture_reachable 3 demo_record demo_cap_fs s \<and> cs_input s Stdout = ''abcd''"
proof -
  let ?rs = "[ReadBytes ''abcd'', ReadBytes []]"
  obtain r' f' res where e: "run_reader Stdout 3 ?rs demo_record demo_cap_fs = (r', f', res)"
    by (cases "run_reader Stdout 3 ?rs demo_record demo_cap_fs")
  have "fs_fault demo_cap_fs n = None" for n by (simp add: demo_cap_fs_def)
  then have "res = Some (Inr ())"
    using e by (auto simp: run_reader_def copy_output_def copy_open_def fs_append_def fs_next_fault_def
        reserve_def Let_def commit_def split: prod.splits if_splits)
  moreover have "small_reads ?rs" by (simp add: small_reads_def)
  moreover have "read_bytes ?rs = ''abcd''" by (simp add: read_bytes_def)
  ultimately show ?thesis using run_reader_refines [OF e] by auto
qed

end
