(* ===== verification/Platform.thy ===== *)
theory Platform
  imports Model
begin

text \<open>
  The process-tree layer (\<open>src/src/process/platform.rs\<close>), for Unix and for Windows. The
  operating system is a reply schedule: every system call is logged, and the \<open>n\<close>-th call is
  answered with the \<open>n\<close>-th reply. \<open>Success n\<close> carries the number the call returns or
  reports (a handle, a count, a process id; 0 for \<open>StillAlive\<close>), \<open>Failure\<close> an error
  code. The code is compiled for one of the two platforms; both sides are modelled as values
  of the record \<open>platform\<close>, and the locale \<open>process_tree\<close> states what the task executor
  relies on and is interpreted on each of them.
\<close>

section \<open>System calls\<close>

datatype errno = ESRCH | ECHILD | EINTR | OtherErrno nat

datatype signal = SIGTERM | SIGKILL

type_synonym handle = nat

datatype syscall =
    KillPg int signal
  | Sigaction signal
  | PrctlChildSubreaper
  | WaitAnyNoHang
  | CreateJobObject
  | SetJobKillOnClose handle
  | AssignProcessToJob handle handle
  | TerminateJob handle u32
  | QueryJobActive handle
  | CloseHandle handle
  | GetConsoleProcessList
  | AllocConsole
  | GetConsoleWindow
  | HideWindow handle
  | SetConsoleCtrlHandler
  | GenerateCtrlBreak u32

datatype reply = Success nat | Failure errno

record sys =
  sys_log :: "syscall list"
  sys_replies :: "nat \<Rightarrow> reply"
  sys_count :: nat

definition do_call :: "syscall \<Rightarrow> sys \<Rightarrow> reply \<times> sys" where
  "do_call c S =
     (sys_replies S (sys_count S),
      S\<lparr>sys_log := sys_log S @ [c], sys_count := Suc (sys_count S)\<rparr>)"

text \<open>A call whose failure ends the function with the error \<open>e\<close>.\<close>

definition call_or :: "process_error \<Rightarrow> syscall \<Rightarrow> sys \<Rightarrow> (error + nat) \<times> sys" where
  "call_or e c S =
     (case do_call c S of
        (Success n, S') \<Rightarrow> (Inr n, S')
      | (Failure _, S') \<Rightarrow> (Inl (ProcessError e), S'))"

text \<open>What \<open>Child\<close> tells of a spawned process.\<close>

record child_info =
  child_id :: "u32 option"
  child_handle :: "handle option"

datatype spawn_flag = ProcessGroupZero | CreateNewProcessGroup

section \<open>Unix\<close>

record unix_tree =
  tree_pid :: "int option"

definition unix_new :: "sys \<Rightarrow> (error + unix_tree) \<times> sys" where
  "unix_new S = (Inr \<lparr>tree_pid = None\<rparr>, S)"

definition unix_attach :: "child_info \<Rightarrow> unix_tree \<Rightarrow> sys \<Rightarrow> (error + unix_tree) \<times> sys" where
  "unix_attach ch t S =
     (case child_id ch of
        None \<Rightarrow> (Inl (ProcessError WorkerWithoutPid), S)
      | Some p \<Rightarrow> (Inr (t\<lparr>tree_pid := Some (sint p)\<rparr>), S))"

definition killpg :: "process_error \<Rightarrow> int \<Rightarrow> signal \<Rightarrow> sys \<Rightarrow> (error + unit) \<times> sys" where
  "killpg e pg sg S =
     (case do_call (KillPg pg sg) S of
        (Success _, S') \<Rightarrow> (Inr (), S')
      | (Failure ESRCH, S') \<Rightarrow> (Inr (), S')
      | (Failure _, S') \<Rightarrow> (Inl (ProcessError e), S'))"

definition send_group :: "int option \<Rightarrow> signal \<Rightarrow> sys \<Rightarrow> (error + unit) \<times> sys" where
  "send_group pid sg S =
     (case pid of
        None \<Rightarrow> (Inl (ProcessError TreeNotInitialised), S)
      | Some p \<Rightarrow> killpg GroupSignalFailed p sg S)"

definition unix_graceful :: "unix_tree \<Rightarrow> sys \<Rightarrow> (error + unit) \<times> sys" where
  "unix_graceful t S = send_group (tree_pid t) SIGTERM S"

definition unix_force :: "unix_tree \<Rightarrow> sys \<Rightarrow> (error + unit) \<times> sys" where
  "unix_force t S = send_group (tree_pid t) SIGKILL S"

text \<open>One poll of \<open>wait_empty\<close>: \<open>None\<close> while the future is pending.\<close>

definition unix_poll_empty :: "unix_tree \<Rightarrow> sys \<Rightarrow> (error + unit) option \<times> sys" where
  "unix_poll_empty t S = (Some (Inr ()), S)"

definition unix_worker_setup :: "sys \<Rightarrow> (error + unit) \<times> sys" where
  "unix_worker_setup S =
     (case call_or SigactionFailed (Sigaction SIGTERM) S of
        (Inl e, S1) \<Rightarrow> (Inl e, S1)
      | (Inr _, S1) \<Rightarrow>
         (case call_or SubreaperFailed PrctlChildSubreaper S1 of
            (Inl e, S2) \<Rightarrow> (Inl e, S2)
          | (Inr _, S2) \<Rightarrow> (Inr (), S2)))"

definition unix_worker_graceful :: "int \<Rightarrow> sys \<Rightarrow> (error + unit) \<times> sys" where
  "unix_worker_graceful pgrp S = killpg WorkerSigtermFailed pgrp SIGTERM S"

text \<open>The call that never returns: \<open>killpg\<close>, then \<open>abort\<close>.\<close>

definition unix_worker_force :: "int \<Rightarrow> sys \<Rightarrow> sys" where
  "unix_worker_force pgrp S = snd (do_call (KillPg pgrp SIGKILL) S)"

text \<open>The loop polls \<open>waitpid(-1, WNOHANG)\<close> until there is no child left; \<open>None\<close> is a loop
  that does not end.\<close>

partial_function (option) unix_worker_wait :: "sys \<Rightarrow> ((error + unit) \<times> sys) option" where
  "unix_worker_wait S =
     (case do_call WaitAnyNoHang S of
        (Success _, S') \<Rightarrow> unix_worker_wait S'
      | (Failure ECHILD, S') \<Rightarrow> Some (Inr (), S')
      | (Failure EINTR, S') \<Rightarrow> unix_worker_wait S'
      | (Failure _, S') \<Rightarrow> Some (Inl (ProcessError DescendantsWait), S'))"

section \<open>Windows\<close>

record windows_tree =
  tree_job :: handle

definition windows_new :: "sys \<Rightarrow> (error + windows_tree) \<times> sys" where
  "windows_new S =
     (case call_or JobCreate CreateJobObject S of
        (Inl e, S1) \<Rightarrow> (Inl e, S1)
      | (Inr job, S1) \<Rightarrow>
         (case call_or JobConfigure (SetJobKillOnClose job) S1 of
            (Inl e, S2) \<Rightarrow> (Inl e, snd (do_call (CloseHandle job) S2))
          | (Inr _, S2) \<Rightarrow> (Inr \<lparr>tree_job = job\<rparr>, S2)))"

definition windows_attach :: "child_info \<Rightarrow> windows_tree \<Rightarrow> sys \<Rightarrow> (error + windows_tree) \<times> sys" where
  "windows_attach ch t S =
     (case child_handle ch of
        None \<Rightarrow> (Inl (ProcessError WorkerWithoutHandle), S)
      | Some h \<Rightarrow>
         (case call_or JobAssign (AssignProcessToJob (tree_job t) h) S of
            (Inl e, S1) \<Rightarrow> (Inl e, S1)
          | (Inr _, S1) \<Rightarrow> (Inr t, S1)))"

definition windows_graceful :: "windows_tree \<Rightarrow> sys \<Rightarrow> (error + unit) \<times> sys" where
  "windows_graceful t S = (Inr (), S)"

definition windows_force :: "windows_tree \<Rightarrow> sys \<Rightarrow> (error + unit) \<times> sys" where
  "windows_force t S =
     (case call_or JobTerminate (TerminateJob (tree_job t) 1) S of
        (Inl e, S1) \<Rightarrow> (Inl e, S1)
      | (Inr _, S1) \<Rightarrow> (Inr (), S1))"

text \<open>One round of the loop: the future stays pending while processes are active.\<close>

definition windows_poll_empty :: "windows_tree \<Rightarrow> sys \<Rightarrow> (error + unit) option \<times> sys" where
  "windows_poll_empty t S =
     (case call_or JobQuery (QueryJobActive (tree_job t)) S of
        (Inl e, S1) \<Rightarrow> (Some (Inl e), S1)
      | (Inr n, S1) \<Rightarrow> (if n = 0 then Some (Inr ()) else None, S1))"

definition windows_drop :: "windows_tree \<Rightarrow> sys \<Rightarrow> sys" where
  "windows_drop t S = snd (do_call (CloseHandle (tree_job t)) S)"

definition ctrl_break_event :: u32 where
  "ctrl_break_event = 1"

text \<open>The handler's new value of \<open>BREAK_RECEIVED\<close> and its result.\<close>

definition console_handler :: "u32 \<Rightarrow> bool \<Rightarrow> bool \<times> int" where
  "console_handler event received = (if event = ctrl_break_event then (True, 1) else (received, 0))"

definition windows_worker_setup :: "sys \<Rightarrow> (error + unit) \<times> sys" where
  "windows_worker_setup S =
     (let install = (\<lambda>S. case call_or ConsoleHandler SetConsoleCtrlHandler S of
                       (Inl e, S') \<Rightarrow> (Inl e, S') | (Inr _, S') \<Rightarrow> (Inr (), S'))
      in case do_call GetConsoleProcessList S of
           (Success (Suc _), S1) \<Rightarrow> install S1
         | (_, S1) \<Rightarrow>
            (case call_or ConsoleAlloc AllocConsole S1 of
               (Inl e, S2) \<Rightarrow> (Inl e, S2)
             | (Inr _, S2) \<Rightarrow>
                (case do_call GetConsoleWindow S2 of
                   (Success (Suc w), S3) \<Rightarrow> install (snd (do_call (HideWindow (Suc w)) S3))
                 | (_, S3) \<Rightarrow> install S3)))"

definition windows_worker_graceful :: "u32 \<Rightarrow> sys \<Rightarrow> (error + unit) \<times> sys" where
  "windows_worker_graceful pid S =
     (case call_or CtrlBreakFailed (GenerateCtrlBreak pid) S of
        (Inl e, S1) \<Rightarrow> (Inl e, S1)
      | (Inr _, S1) \<Rightarrow> (Inr (), S1))"

definition windows_worker_wait :: "sys \<Rightarrow> ((error + unit) \<times> sys) option" where
  "windows_worker_wait S = Some (Inr (), S)"

section \<open>The platform interface\<close>

text \<open>How a worker ends that does not return from its loop: the process aborts.\<close>

datatype forced_end = Aborted

text \<open>On Windows \<open>worker_force_after_parent_loss\<close> sleeps for ever; only the job object ends the process,
  from outside. \<open>None\<close> is a call that does not return.\<close>

partial_function (option) windows_worker_force :: "sys \<Rightarrow> (forced_end \<times> sys) option" where
  "windows_worker_force S = windows_worker_force S"

lemma windows_worker_force_None [simp]: "windows_worker_force S = None"
proof (rule ccontr)
  assume "windows_worker_force S \<noteq> None"
  then obtain y where y: "windows_worker_force S = Some y" by blast
  show False by (rule windows_worker_force.raw_induct [where P = "\<lambda>_ _. False", OF _ y])
qed

record 't platform =
  spawn_flag :: spawn_flag
  tree_new :: "sys \<Rightarrow> (error + 't) \<times> sys"
  tree_attach :: "child_info \<Rightarrow> 't \<Rightarrow> sys \<Rightarrow> (error + 't) \<times> sys"
  tree_graceful :: "'t \<Rightarrow> sys \<Rightarrow> (error + unit) \<times> sys"
  tree_force :: "'t \<Rightarrow> sys \<Rightarrow> (error + unit) \<times> sys"
  tree_poll_empty :: "'t \<Rightarrow> sys \<Rightarrow> (error + unit) option \<times> sys"
  tree_drop :: "'t \<Rightarrow> sys \<Rightarrow> sys"
  worker_setup :: "sys \<Rightarrow> (error + unit) \<times> sys"
  worker_graceful :: "sys \<Rightarrow> (error + unit) \<times> sys"
  worker_force :: "sys \<Rightarrow> (forced_end \<times> sys) option"
  worker_wait :: "sys \<Rightarrow> ((error + unit) \<times> sys) option"
  graceful_method :: string
  force_method :: string
  graceful_signal :: "string option"
  force_signal :: "string option"

definition unix_platform :: "int \<Rightarrow> unix_tree platform" where
  "unix_platform pgrp =
     \<lparr>spawn_flag = ProcessGroupZero, tree_new = unix_new, tree_attach = unix_attach,
      tree_graceful = unix_graceful, tree_force = unix_force, tree_poll_empty = unix_poll_empty,
      tree_drop = (\<lambda>_ S. S), worker_setup = unix_worker_setup,
      worker_graceful = unix_worker_graceful pgrp,
      worker_force = (\<lambda>S. Some (Aborted, unix_worker_force pgrp S)), worker_wait = unix_worker_wait,
      graceful_method = ''process_group_sigterm'', force_method = ''process_group_sigkill'',
      graceful_signal = Some ''SIGTERM'', force_signal = Some ''SIGKILL''\<rparr>"

definition windows_platform :: "u32 \<Rightarrow> windows_tree platform" where
  "windows_platform pid =
     \<lparr>spawn_flag = CreateNewProcessGroup, tree_new = windows_new, tree_attach = windows_attach,
      tree_graceful = windows_graceful, tree_force = windows_force,
      tree_poll_empty = windows_poll_empty, tree_drop = windows_drop,
      worker_setup = windows_worker_setup, worker_graceful = windows_worker_graceful pid,
      worker_force = windows_worker_force, worker_wait = windows_worker_wait,
      graceful_method = ''ctrl_break_event'', force_method = ''terminate_job_object'',
      graceful_signal = Some ''CTRL_BREAK'', force_signal = None\<rparr>"

text \<open>An operation has issued exactly the calls \<open>cs\<close>.\<close>

definition issues :: "sys \<Rightarrow> syscall list \<Rightarrow> sys \<Rightarrow> bool" where
  "issues S cs S' \<longleftrightarrow>
     sys_log S' = sys_log S @ cs \<and> sys_replies S' = sys_replies S \<and> sys_count S' = sys_count S + length cs"

lemma issues_refl [simp]: "issues S [] S"
  by (simp add: issues_def)

lemma issues_call: "do_call c S = (a, S') \<Longrightarrow> issues S [c] S'"
  by (auto simp: do_call_def issues_def)

lemma issues_trans: "issues S cs S' \<Longrightarrow> issues S' ds S'' \<Longrightarrow> issues S (cs @ ds) S''"
  by (simp add: issues_def)

lemma issues_log: "issues S cs S' \<Longrightarrow> sys_log S' = sys_log S @ cs"
  by (simp add: issues_def)

lemma do_call_issues [simp]: "issues S [c] (snd (do_call c S))"
  by (simp add: do_call_def issues_def)

lemma call_or_issues: "call_or e c S = (r, S') \<Longrightarrow> issues S [c] S'"
  by (auto simp: call_or_def dest: issues_call split: prod.splits reply.splits)

lemma killpg_issues: "killpg e pg sg S = (r, S') \<Longrightarrow> issues S [KillPg pg sg] S'"
  by (auto simp: killpg_def dest: issues_call split: prod.splits reply.splits errno.splits)

definition spares :: "(syscall \<Rightarrow> bool) \<Rightarrow> sys \<Rightarrow> sys \<Rightarrow> bool" where
  "spares bad S S' \<longleftrightarrow> (\<exists>cs. issues S cs S' \<and> (\<forall>c\<in>set cs. \<not> bad c))"

lemma spares_refl [simp]: "spares bad S S"
  unfolding spares_def by (intro exI [of _ "[]"]) simp

lemma spares_trans: "spares bad S S' \<Longrightarrow> spares bad S' S'' \<Longrightarrow> spares bad S S''"
  unfolding spares_def by (metis issues_trans Un_iff set_append)

lemma spares_call: "issues S [c] S' \<Longrightarrow> \<not> bad c \<Longrightarrow> spares bad S S'"
  unfolding spares_def by (intro exI [of _ "[c]"]) simp

lemma spares_do_call: "spares bad S S1 \<Longrightarrow> \<not> bad c \<Longrightarrow> spares bad S (snd (do_call c S1))"
  by (rule spares_trans) (auto intro: spares_call [OF do_call_issues])

lemma spares_two: "issues S [c] S1 \<Longrightarrow> issues S1 [d] S2 \<Longrightarrow> \<not> bad c \<Longrightarrow> \<not> bad d \<Longrightarrow> spares bad S S2"
  by (rule spares_trans [of bad S S1]) (auto intro: spares_call)

text \<open>
  What the task executor relies on: the force operation of an attached tree issues the call
  that kills that tree and nothing else, and no other operation issues a killing call.
\<close>

locale process_tree =
  fixes P :: "'t platform" and attached :: "'t \<Rightarrow> bool" and kill :: "'t \<Rightarrow> syscall"
    and is_kill :: "syscall \<Rightarrow> bool"
  assumes attach_ok: "tree_attach P ch t S = (Inr t', S') \<Longrightarrow> attached t'"
    and attach_spares: "tree_attach P ch t S = (r1, S') \<Longrightarrow> spares is_kill S S'"
    and new_spares: "tree_new P S = (r1, S') \<Longrightarrow> spares is_kill S S'"
    and graceful_spares: "tree_graceful P t S = (r, S') \<Longrightarrow> spares is_kill S S'"
    and poll_spares: "tree_poll_empty P t S = (x, S') \<Longrightarrow> spares is_kill S S'"
    and drop_spares: "spares is_kill S (tree_drop P t S)"
    and force_kills: "tree_force P t S = (r, S') \<Longrightarrow> attached t \<Longrightarrow> issues S [kill t] S'"
    and kill_is_kill: "attached t \<Longrightarrow> is_kill (kill t)"

definition is_sigkill :: "syscall \<Rightarrow> bool" where
  "is_sigkill c \<longleftrightarrow> (case c of KillPg p SIGKILL \<Rightarrow> True | _ \<Rightarrow> False)"

definition is_terminate_job :: "syscall \<Rightarrow> bool" where
  "is_terminate_job c \<longleftrightarrow> (case c of TerminateJob j n \<Rightarrow> True | _ \<Rightarrow> False)"

lemma is_kill_simps [simp]:
  "is_sigkill (KillPg p g) \<longleftrightarrow> g = SIGKILL"
  "is_terminate_job (TerminateJob j n)" "\<not> is_terminate_job CreateJobObject"
  "\<not> is_terminate_job (SetJobKillOnClose j)" "\<not> is_terminate_job (CloseHandle j)"
  "\<not> is_terminate_job (AssignProcessToJob j h)" "\<not> is_terminate_job (QueryJobActive j)"
  by (cases g) (simp_all add: is_sigkill_def is_terminate_job_def)

lemma unix_graceful_spares: "unix_graceful t S = (r, S') \<Longrightarrow> spares is_sigkill S S'"
  by (cases "tree_pid t")
    (auto simp: unix_graceful_def send_group_def dest!: killpg_issues intro: spares_call)

interpretation unix: process_tree "unix_platform pgrp" "\<lambda>t. tree_pid t \<noteq> None"
  "\<lambda>t. KillPg (the (tree_pid t)) SIGKILL" is_sigkill for pgrp
  by unfold_locales
    (auto simp: unix_platform_def unix_attach_def unix_new_def unix_poll_empty_def unix_force_def
      send_group_def dest: killpg_issues unix_graceful_spares split: option.splits)

lemma windows_new_spares: "windows_new S = (r, S') \<Longrightarrow> spares is_terminate_job S S'"
  unfolding windows_new_def
  by (auto split: prod.splits sum.splits dest!: call_or_issues
      intro: spares_call spares_two spares_do_call [OF spares_two])

interpretation windows: process_tree "windows_platform pid" "\<lambda>_. True" "\<lambda>t. TerminateJob (tree_job t) 1"
  is_terminate_job for pid
  by unfold_locales
    (auto simp: windows_platform_def windows_attach_def windows_poll_empty_def windows_force_def
      windows_graceful_def windows_drop_def dest!: call_or_issues dest: windows_new_spares
      intro: spares_call [OF do_call_issues] spares_call split: option.splits prod.splits sum.splits)

section \<open>Properties\<close>

text \<open>A reply on which the loop of \<open>worker_wait_for_descendants\<close> goes on.\<close>

definition still_waiting :: "reply \<Rightarrow> bool" where
  "still_waiting r \<longleftrightarrow> (case r of Success _ \<Rightarrow> True | Failure e \<Rightarrow> e = EINTR)"

lemma worker_wait_step:
  "unix_worker_wait S =
     (if still_waiting (sys_replies S (sys_count S)) then unix_worker_wait (snd (do_call WaitAnyNoHang S))
      else if sys_replies S (sys_count S) = Failure ECHILD then Some (Inr (), snd (do_call WaitAnyNoHang S))
      else Some (Inl (ProcessError DescendantsWait), snd (do_call WaitAnyNoHang S)))"
  by (subst unix_worker_wait.simps)
    (auto simp: do_call_def still_waiting_def split: reply.splits errno.splits)

lemma do_call_simps [simp]:
  "sys_replies (snd (do_call c S)) = sys_replies S"
  "sys_count (snd (do_call c S)) = Suc (sys_count S)"
  "sys_log (snd (do_call c S)) = sys_log S @ [c]"
  by (simp_all add: do_call_def)

lemma issues_Cons: "issues (snd (do_call c S)) cs S' \<longleftrightarrow> issues S (c # cs) S'"
  by (auto simp: issues_def)

lemma issues_unique: "issues S cs S' \<Longrightarrow> issues S cs S'' \<Longrightarrow> S' = (S'' :: sys)"
  by (auto simp: issues_def intro: sys.equality)

lemma worker_wait_complete:
  "\<forall>k < n. still_waiting (sys_replies S (sys_count S + k)) \<Longrightarrow>
   sys_replies S (sys_count S + n) = Failure ECHILD \<Longrightarrow>
   issues S (replicate (Suc n) WaitAnyNoHang) S' \<Longrightarrow> unix_worker_wait S = Some (Inr (), S')"
proof (induction n arbitrary: S)
  case 0
  have "S' = snd (do_call WaitAnyNoHang S)"
    using 0 by (intro issues_unique [of S "[WaitAnyNoHang]"]) auto
  with 0 show ?case by (subst worker_wait_step) (simp add: still_waiting_def)
next
  case (Suc n)
  let ?S = "snd (do_call WaitAnyNoHang S)"
  have "unix_worker_wait ?S = Some (Inr (), S')"
  proof (rule Suc.IH)
    show "\<forall>k<n. still_waiting (sys_replies ?S (sys_count ?S + k))"
      using Suc.prems(1) by auto
    show "sys_replies ?S (sys_count ?S + n) = Failure ECHILD" using Suc.prems(2) by simp
    show "issues ?S (replicate (Suc n) WaitAnyNoHang) S'" using Suc.prems(3) by (simp add: issues_Cons)
  qed
  moreover have "still_waiting (sys_replies S (sys_count S))" using Suc.prems(1) by force
  ultimately show ?case by (subst worker_wait_step) simp
qed

definition waited :: "sys \<Rightarrow> sys \<Rightarrow> bool" where
  "waited S S' \<longleftrightarrow>
     (\<exists>n. (\<forall>k < n. still_waiting (sys_replies S (sys_count S + k))) \<and>
        sys_replies S (sys_count S + n) = Failure ECHILD \<and> issues S (replicate (Suc n) WaitAnyNoHang) S')"

lemma waited_step:
  assumes "still_waiting (sys_replies S (sys_count S))" and "waited (snd (do_call WaitAnyNoHang S)) S'"
  shows "waited S S'"
proof -
  from assms(2) obtain n where n: "\<forall>k<n. still_waiting (sys_replies S (Suc (sys_count S) + k))"
    "sys_replies S (Suc (sys_count S) + n) = Failure ECHILD"
    "issues (snd (do_call WaitAnyNoHang S)) (replicate (Suc n) WaitAnyNoHang) S'"
    by (auto simp: waited_def)
  have "still_waiting (sys_replies S (sys_count S + k))" if "k < Suc n" for k
    using that assms(1) n(1) by (cases k) auto
  with n(2,3) show ?thesis
    unfolding waited_def by (intro exI [of _ "Suc n"]) (simp add: issues_Cons)
qed

lemma worker_wait_sound:
  "unix_worker_wait S = Some y \<Longrightarrow> fst y = Inr () \<longrightarrow> waited S (snd y)"
proof (rule unix_worker_wait.raw_induct [where P = "\<lambda>S y. fst y = Inr () \<longrightarrow> waited S (snd y)"])
  fix w S y
  assume IH: "\<And>S y. w S = Some y \<Longrightarrow> fst y = Inr () \<longrightarrow> waited S (snd y)"
    and eq: "(case do_call WaitAnyNoHang S of
        (Success _, S') \<Rightarrow> w S'
      | (Failure ESRCH, S') \<Rightarrow> Some (Inl (ProcessError DescendantsWait), S')
      | (Failure ECHILD, S') \<Rightarrow> Some (Inr (), S')
      | (Failure EINTR, S') \<Rightarrow> w S'
      | (Failure (OtherErrno _), S') \<Rightarrow> Some (Inl (ProcessError DescendantsWait), S')) = Some y"
  let ?S = "snd (do_call WaitAnyNoHang S)"
  let ?r = "sys_replies S (sys_count S)"
  have c: "do_call WaitAnyNoHang S = (?r, ?S)" by (simp add: do_call_def)
  show "fst y = Inr () \<longrightarrow> waited S (snd y)"
  proof (cases "still_waiting ?r")
    case True
    then have "w ?S = Some y"
      using eq by (subst (asm) c) (auto simp: still_waiting_def split: reply.splits)
    from waited_step [OF True] IH [OF this] show ?thesis by blast
  next
    case False
    then have "fst y = Inr () \<longrightarrow> ?r = Failure ECHILD \<and> snd y = ?S"
      using eq by (subst (asm) c) (auto simp: still_waiting_def split: reply.splits errno.splits)
    then show ?thesis unfolding waited_def by (intro impI exI [of _ 0]) simp
  qed
qed

text \<open>
  C33. The worker waits for its descendants exactly until the kernel reports that no child is left:
  it returns successfully if and only if some \<open>waitpid\<close> answers \<open>ECHILD\<close> after
  answers that are a reaped child, a child still alive or an interruption.
\<close>

theorem worker_wait_exact:
  "unix_worker_wait S = Some (Inr (), S') \<longleftrightarrow>
     (\<exists>n. (\<forall>k < n. still_waiting (sys_replies S (sys_count S + k))) \<and>
        sys_replies S (sys_count S + n) = Failure ECHILD \<and> issues S (replicate (Suc n) WaitAnyNoHang) S')"
  using worker_wait_sound [of S "(Inr (), S')"] worker_wait_complete [of _ S S'] by (auto simp: waited_def)

theorem worker_wait_exact_witness:
  "\<exists>S'. unix_worker_wait \<lparr>sys_log = [], sys_replies = (\<lambda>n. if n < 2 then Success n else Failure ECHILD), sys_count = 0\<rparr>
     = Some (Inr (), S') \<and> sys_count S' = 3"
proof -
  let ?S = "\<lparr>sys_log = [], sys_replies = (\<lambda>n. if n < 2 then Success n else Failure ECHILD), sys_count = 0\<rparr> :: sys"
  let ?S' = "?S\<lparr>sys_log := replicate 3 WaitAnyNoHang, sys_count := 3\<rparr>"
  have "unix_worker_wait ?S = Some (Inr (), ?S')"
    unfolding worker_wait_exact
    by (intro exI [of _ 2]) (simp add: issues_def still_waiting_def numeral_eq_Suc)
  then show ?thesis by fastforce
qed

text \<open>
  On Windows the job object gets its kill-on-close limit before any process joins it: a
  tree that exists was created and configured by two accepted calls, and on the failing path the
  handle is closed again.
\<close>

theorem windows_job_configured:
  assumes "windows_new S = (r, S')"
  shows "(\<forall>t. r = Inr t \<longrightarrow> sys_replies S (sys_count S) = Success (tree_job t) \<and>
            issues S [CreateJobObject, SetJobKillOnClose (tree_job t)] S') \<and>
         (\<forall>e. r = Inl e \<longrightarrow> issues S [CreateJobObject] S' \<or>
            (\<exists>job. sys_replies S (sys_count S) = Success job \<and>
               issues S [CreateJobObject, SetJobKillOnClose job, CloseHandle job] S'))"
  using assms
  by (auto simp: windows_new_def call_or_def do_call_def issues_def
      split: prod.splits sum.splits reply.splits)

theorem windows_job_configured_witness:
  "\<exists>S'. windows_new \<lparr>sys_log = [], sys_replies = (\<lambda>_. Success 7), sys_count = 0\<rparr> = (Inr \<lparr>tree_job = 7\<rparr>, S') \<and>
     sys_log S' = [CreateJobObject, SetJobKillOnClose 7]"
proof -
  let ?S = "\<lparr>sys_log = [], sys_replies = (\<lambda>_. Success 7), sys_count = 0\<rparr> :: sys"
  have "fst (windows_new ?S) = Inr \<lparr>tree_job = 7\<rparr>"
    by (simp add: windows_new_def call_or_def do_call_def)
  then have e: "windows_new ?S = (Inr \<lparr>tree_job = 7\<rparr>, snd (windows_new ?S))" by (metis prod.collapse)
  from windows_job_configured [OF e] have "issues ?S [CreateJobObject, SetJobKillOnClose 7] (snd (windows_new ?S))" by simp
  from issues_log [OF this] have "sys_log (snd (windows_new ?S)) = [CreateJobObject, SetJobKillOnClose 7]" by simp
  with e show ?thesis by blast
qed

end
