(* ===== verification/Process.thy ===== *)
theory Process
  imports Config Capture Platform
begin

text \<open>
  The task executor (\<open>src/src/process/mod.rs\<close>): the coroutine \<open>run_task\<close> that starts the
  worker, waits for its exit, the deadline or a stop request, ends the process tree and
  publishes the final status, and \<open>start_task\<close> around it.

  An asynchronous function is a state-passing function with an \<open>outcome\<close>: it returns, fails,
  panics, or is still suspended. What the rest of the world does while the coroutine is
  suspended is a list of batches of events (\<open>ex_wakes\<close>): stop requests sent by other
  components, time passing, the exit of the worker, results of the output pipes. An \<open>await\<close>
  polls its futures; when none is ready it absorbs the next batch and polls again; when no
  batch is left the coroutine is suspended. \<open>ex_picks\<close> resolves the random order in which
  \<open>tokio::select!\<close> polls its branches. A theorem over all batches and picks covers every
  schedule. The journal append of a transition and the writes to the control pipe are taken as
  one step each: what happens during them is part of the next batch. \<open>ex_trace\<close> records the
  actions whose order matters.
\<close>

section \<open>Data\<close>

record worker_spec =
  ws_executor :: executor
  ws_program :: string
  ws_script :: string
  ws_fixed_args :: "string list"
  ws_request_args :: "string list"
  ws_working_directory :: string
  ws_env :: "(string \<times> string) list"
  ws_graceful_shutdown_seconds :: u64

datatype exit_status = ExitCode int | ExitSignal int

fun exit_code_of :: "exit_status \<Rightarrow> int option" where
  "exit_code_of (ExitCode n) = Some n"
| "exit_code_of (ExitSignal _) = None"

definition exit_success :: "exit_status \<Rightarrow> bool" where
  "exit_success s \<longleftrightarrow> s = ExitCode 0"

text \<open>\<open>serde_json\<close> on the worker specification, the text of \<open>now_rfc3339\<close> at an instant,
  and the largest representable instant.\<close>

record proc_lib =
  spec_to_json :: "worker_spec \<Rightarrow> bytes option"
  spec_from_json :: "string \<Rightarrow> worker_spec option"
  stamp :: "instant \<Rightarrow> string"
  instant_max :: instant

text \<open>How the calls that start a worker come out.\<close>

record start_env =
  pipes_ok :: "nat \<Rightarrow> bool"
  clones_ok :: "nat \<Rightarrow> bool"
  exe_ok :: bool
  spawned :: "child_info option"
  stdin_ok :: bool
  init_write_ok :: bool
  init_flush_ok :: bool

datatype reader_end = Joined "error + unit" | JoinPanic

record reader =
  rd_stream :: output_stream
  rd_open :: bool
  rd_end :: "reader_end option"

datatype env_event =
    StopRequested stop_reason
  | TimePasses nat
  | WorkerExits "exit_status option"
  | ReaderStep nat read_result
  | ReaderPanics nat

datatype action =
    Spawned spawn_flag
  | ControlWritten bytes
  | ControlClosed
  | PermitsReleased
  | Published task_status

record 't exec =
  ex_record :: task_record
  ex_fs :: fs
  ex_now :: instant
  ex_seen :: nat
  ex_child :: "exit_status option option"
  ex_readers :: "reader list"
  ex_limit :: u64
  ex_sys :: sys
  ex_tree :: "'t option"
  ex_control :: bool
  ex_permits :: bool
  ex_wakes :: "env_event list list"
  ex_picks :: "nat list"
  ex_trace :: "action list"

datatype 'a outcome = Ret 'a | Err error | Panic | Pending

definition seq :: "('s \<Rightarrow> 'a outcome \<times> 's) \<Rightarrow> ('a \<Rightarrow> 's \<Rightarrow> 'b outcome \<times> 's) \<Rightarrow> 's \<Rightarrow> 'b outcome \<times> 's" where
  "seq m k s =
     (case m s of
        (Ret a, s') \<Rightarrow> k a s'
      | (Err e, s') \<Rightarrow> (Err e, s')
      | (Panic, s') \<Rightarrow> (Panic, s')
      | (Pending, s') \<Rightarrow> (Pending, s'))"

definition ret :: "'a \<Rightarrow> 's \<Rightarrow> 'a outcome \<times> 's" where
  "ret a s = (Ret a, s)"

definition fail :: "process_error \<Rightarrow> 's \<Rightarrow> 'a outcome \<times> 's" where
  "fail e s = (Err (ProcessError e), s)"

definition ensure :: "bool \<Rightarrow> process_error \<Rightarrow> 's \<Rightarrow> unit outcome \<times> 's" where
  "ensure b e s = (if b then (Ret (), s) else (Err (ProcessError e), s))"

fun outcome_of :: "error + 'a \<Rightarrow> 'a outcome" where
  "outcome_of (Inl e) = Err e"
| "outcome_of (Inr a) = Ret a"

section \<open>The world between two polls\<close>

definition step_reader ::
  "u64 \<Rightarrow> reader \<Rightarrow> read_result \<Rightarrow> task_record \<Rightarrow> fs \<Rightarrow> reader \<times> task_record \<times> fs" where
  "step_reader limit rd res r f =
     (if rd_end rd \<noteq> None then (rd, r, f)
      else (case (if rd_open rd then (f, Inr ()) else copy_open (rd_stream rd) r f) of
        (f1, Inl e) \<Rightarrow>
          (rd\<lparr>rd_end := Some (Joined (Inl e))\<rparr>, request_stop_now LoggingFailure r, f1)
      | (f1, Inr _) \<Rightarrow>
         (case copy_loop (rd_stream rd) limit [res] r f1 of
            (r', f', None) \<Rightarrow> (rd\<lparr>rd_open := True\<rparr>, r', f')
          | (r', f', Some (Inl e)) \<Rightarrow>
              (rd\<lparr>rd_open := True, rd_end := Some (Joined (Inl e))\<rparr>, request_stop_now LoggingFailure r', f')
          | (r', f', Some (Inr _)) \<Rightarrow>
              (rd\<lparr>rd_open := True, rd_end := Some (Joined (Inr ()))\<rparr>, r', f'))))"

fun absorb :: "env_event \<Rightarrow> 't exec \<Rightarrow> 't exec" where
  "absorb (StopRequested why) ex = ex\<lparr>ex_record := request_stop_now why (ex_record ex)\<rparr>"
| "absorb (TimePasses n) ex = ex\<lparr>ex_now := ex_now ex + n\<rparr>"
| "absorb (WorkerExits st) ex = (if ex_child ex = None then ex\<lparr>ex_child := Some st\<rparr> else ex)"
| "absorb (ReaderStep k res) ex =
     (if k < length (ex_readers ex) then
        (case step_reader (ex_limit ex) (ex_readers ex ! k) res (ex_record ex) (ex_fs ex) of
           (rd, r, f) \<Rightarrow> ex\<lparr>ex_readers := (ex_readers ex)[k := rd], ex_record := r, ex_fs := f\<rparr>)
      else ex)"
| "absorb (ReaderPanics k) ex =
     (if k < length (ex_readers ex) \<and> rd_end (ex_readers ex ! k) = None
      then ex\<lparr>ex_readers := (ex_readers ex)[k := (ex_readers ex ! k)\<lparr>rd_end := Some JoinPanic\<rparr>]\<rparr>
      else ex)"

fun await_loop ::
  "env_event list list \<Rightarrow> ('t exec \<Rightarrow> 'a option \<times> 't exec) \<Rightarrow> 't exec \<Rightarrow> 'a outcome \<times> 't exec" where
  "await_loop [] poll ex =
     (case poll ex of
        (Some a, ex') \<Rightarrow> (Ret a, ex'\<lparr>ex_wakes := []\<rparr>)
      | (None, ex') \<Rightarrow> (Pending, ex'\<lparr>ex_wakes := []\<rparr>))"
| "await_loop (b # bs) poll ex =
     (case poll ex of
        (Some a, ex') \<Rightarrow> (Ret a, ex'\<lparr>ex_wakes := b # bs\<rparr>)
      | (None, ex') \<Rightarrow> await_loop bs poll (fold absorb b ex'))"

definition await :: "('t exec \<Rightarrow> 'a option \<times> 't exec) \<Rightarrow> 't exec \<Rightarrow> 'a outcome \<times> 't exec" where
  "await poll ex = await_loop (ex_wakes ex) poll ex"

definition next_pick :: "'t exec \<Rightarrow> nat \<times> 't exec" where
  "next_pick ex =
     (case ex_picks ex of [] \<Rightarrow> (0, ex) | p # ps \<Rightarrow> (p, ex\<lparr>ex_picks := ps\<rparr>))"

text \<open>\<open>select!\<close> takes one of the branches that are ready.\<close>

definition pick_ready :: "'a list \<Rightarrow> 't exec \<Rightarrow> 'a option \<times> 't exec" where
  "pick_ready ready ex =
     (if ready = [] then (None, ex)
      else (case next_pick ex of (p, ex') \<Rightarrow> (Some (ready ! (p mod length ready)), ex')))"

section \<open>Elementary actions\<close>

definition log_action :: "action \<Rightarrow> 't exec \<Rightarrow> 't exec" where
  "log_action a ex = ex\<lparr>ex_trace := ex_trace ex @ [a]\<rparr>"

definition act :: "action \<Rightarrow> 't exec \<Rightarrow> unit outcome \<times> 't exec" where
  "act a ex = (Ret (), log_action a ex)"

definition ex_transition ::
  "store_lib \<Rightarrow> (task_snapshot \<Rightarrow> task_snapshot) \<Rightarrow> 't exec \<Rightarrow> unit outcome \<times> 't exec" where
  "ex_transition L upd ex =
     (case transition L upd (ex_record ex) (ex_fs ex) of
        (r, f, res) \<Rightarrow>
          (outcome_of res, log_action (Published (status (rec_snapshot r))) (ex\<lparr>ex_record := r, ex_fs := f\<rparr>)))"

definition ex_sysop :: "(sys \<Rightarrow> (error + 'a) \<times> sys) \<Rightarrow> 't exec \<Rightarrow> 'a outcome \<times> 't exec" where
  "ex_sysop g ex = (case g (ex_sys ex) of (res, S) \<Rightarrow> (outcome_of res, ex\<lparr>ex_sys := S\<rparr>))"

text \<open>\<open>Instant::now() + Duration::from_secs(secs)\<close>, which panics beyond the clock's range.\<close>

definition deadline_in :: "proc_lib \<Rightarrow> u64 \<Rightarrow> 't exec \<Rightarrow> instant outcome \<times> 't exec" where
  "deadline_in Q secs ex =
     (case instant_add_secs (instant_max Q) (ex_now ex) secs of
        None \<Rightarrow> (Panic, ex)
      | Some d \<Rightarrow> (Ret d, ex))"

definition close_control :: "'t exec \<Rightarrow> 't exec" where
  "close_control ex =
     (if ex_control ex then log_action ControlClosed (ex\<lparr>ex_control := False\<rparr>) else ex)"

definition release_permits :: "'t exec \<Rightarrow> 't exec" where
  "release_permits ex =
     (if ex_permits ex then log_action PermitsReleased (ex\<lparr>ex_permits := False\<rparr>) else ex)"

definition drop_tree :: "'t platform \<Rightarrow> 't exec \<Rightarrow> 't exec" where
  "drop_tree P ex =
     (case ex_tree ex of
        None \<Rightarrow> ex
      | Some t \<Rightarrow> ex\<lparr>ex_tree := None, ex_sys := tree_drop P t (ex_sys ex)\<rparr>)"

section \<open>Stopping a task\<close>

definition await_child :: "process_error \<Rightarrow> 't exec \<Rightarrow> exit_status outcome \<times> 't exec" where
  "await_child e =
     seq (await (\<lambda>ex. (ex_child ex, ex)))
       (\<lambda>st. case st of None \<Rightarrow> fail e | Some s \<Rightarrow> ret s)"

definition poll_tree :: "'t platform \<Rightarrow> 't \<Rightarrow> 't exec \<Rightarrow> (error + unit) option \<times> 't exec" where
  "poll_tree P t ex = (case tree_poll_empty P t (ex_sys ex) of (res, S) \<Rightarrow> (res, ex\<lparr>ex_sys := S\<rparr>))"

definition await_empty :: "'t platform \<Rightarrow> 't \<Rightarrow> 't exec \<Rightarrow> unit outcome \<times> 't exec" where
  "await_empty P t = seq (await (poll_tree P t)) (\<lambda>res ex. (outcome_of res, ex))"

definition force_message :: "bool \<Rightarrow> stop_reason \<Rightarrow> message" where
  "force_message attempted why =
     (if attempted then (if why = ForceKilled then M_forced_on_request else M_grace_over)
      else M_forced_immediately)"

definition force_update :: "'t platform \<Rightarrow> stop_reason \<Rightarrow> bool \<Rightarrow> task_snapshot \<Rightarrow> task_snapshot" where
  "force_update P why attempted s =
     s\<lparr>status := Stopping,
       task_termination := Some \<lparr>reason = why, graceful_attempted = attempted, forced = True,
         term_method = force_method P, term_signal = force_signal P,
         term_message = Some (force_message attempted why)\<rparr>\<rparr>"

definition force_stop_process ::
  "store_lib \<Rightarrow> 't platform \<Rightarrow> 't \<Rightarrow> stop_reason \<Rightarrow> bool \<Rightarrow> exit_status option
     \<Rightarrow> 't exec \<Rightarrow> exit_status outcome \<times> 't exec" where
  "force_stop_process L P t why attempted worker_status =
     seq (ex_transition L (force_update P why attempted)) (\<lambda>_.
     seq (ex_sysop (tree_force P t)) (\<lambda>_.
     seq (case worker_status of Some s \<Rightarrow> ret s | None \<Rightarrow> await_child WorkerForcedWait) (\<lambda>s.
     seq (await_empty P t) (\<lambda>_. ret s))))"

text \<open>A poll of \<open>wait_for_force_kill\<close>: the future is ready when the value last sent is a
  force-kill request; polling marks the value as seen.\<close>

definition force_requested :: "'t exec \<Rightarrow> bool" where
  "force_requested ex \<longleftrightarrow> watch_value (ex_record ex) = Some ForceKilled"

definition mark_seen :: "'t exec \<Rightarrow> 't exec" where
  "mark_seen ex = ex\<lparr>ex_seen := length (stop_sent (ex_record ex))\<rparr>"

text \<open>The two waits of the grace period. \<open>timeout_at\<close> polls the inner future before its
  timer; \<open>select!\<close> polls its two branches in either order.\<close>

datatype 'a grace = GDone 'a | GTimeout | GForce

definition grace_select ::
  "('t exec \<Rightarrow> 'a option \<times> 't exec) \<Rightarrow> instant \<Rightarrow> 't exec \<Rightarrow> 'a grace option \<times> 't exec" where
  "grace_select inner gd ex0 =
     (case next_pick ex0 of
        (p, ex) \<Rightarrow>
          (let timed = (\<lambda>ex. case inner ex of
                     (Some a, ex') \<Rightarrow> (Some (GDone a), ex')
                   | (None, ex') \<Rightarrow> (if gd \<le> ex_now ex' then Some GTimeout else None, ex'))
           in if even p then
                (case timed ex of
                   (Some g, ex1) \<Rightarrow> (Some g, ex1)
                 | (None, ex1) \<Rightarrow> (if force_requested ex1 then Some GForce else None, mark_seen ex1))
              else if force_requested ex then (Some GForce, mark_seen ex)
              else timed (mark_seen ex)))"

definition graceful_update :: "'t platform \<Rightarrow> u64 \<Rightarrow> stop_reason \<Rightarrow> task_snapshot \<Rightarrow> task_snapshot" where
  "graceful_update P secs why s =
     s\<lparr>status := Stopping,
       task_termination := Some \<lparr>reason = why, graceful_attempted = True, forced = False,
         term_method = graceful_method P, term_signal = graceful_signal P,
         term_message = Some (M_graceful_requested secs)\<rparr>\<rparr>"

definition forced_end_of ::
  "store_lib \<Rightarrow> 't platform \<Rightarrow> 't \<Rightarrow> stop_reason \<Rightarrow> bool \<Rightarrow> exit_status option
     \<Rightarrow> 't exec \<Rightarrow> (exit_status \<times> stop_reason) outcome \<times> 't exec" where
  "forced_end_of L P t why attempted worker_status =
     seq (force_stop_process L P t why attempted worker_status) (\<lambda>s. ret (s, why))"

text \<open>The worker has exited in time: wait for the rest of its process tree.\<close>

definition await_tree_grace ::
  "store_lib \<Rightarrow> 't platform \<Rightarrow> 't \<Rightarrow> stop_reason \<Rightarrow> instant \<Rightarrow> exit_status
     \<Rightarrow> 't exec \<Rightarrow> (exit_status \<times> stop_reason) outcome \<times> 't exec" where
  "await_tree_grace L P t why gd s =
     seq (await (grace_select (poll_tree P t) gd)) (\<lambda>g.
       case g of
         GForce \<Rightarrow> forced_end_of L P t ForceKilled True (Some s)
       | GTimeout \<Rightarrow> forced_end_of L P t why True (Some s)
       | GDone (Inl e) \<Rightarrow> (\<lambda>ex. (Err e, ex))
       | GDone (Inr _) \<Rightarrow> ret (s, why))"

definition await_worker_grace ::
  "store_lib \<Rightarrow> 't platform \<Rightarrow> 't \<Rightarrow> stop_reason \<Rightarrow> instant
     \<Rightarrow> 't exec \<Rightarrow> (exit_status \<times> stop_reason) outcome \<times> 't exec" where
  "await_worker_grace L P t why gd =
     seq (await (grace_select (\<lambda>ex. (ex_child ex, ex)) gd)) (\<lambda>g.
       case g of
         GForce \<Rightarrow> forced_end_of L P t ForceKilled True None
       | GTimeout \<Rightarrow> forced_end_of L P t why True None
       | GDone None \<Rightarrow> fail WorkerGracefulWait
       | GDone (Some s) \<Rightarrow> await_tree_grace L P t why gd s)"

definition stop_process ::
  "store_lib \<Rightarrow> proc_lib \<Rightarrow> 't platform \<Rightarrow> 't \<Rightarrow> resolved_route \<Rightarrow> stop_reason
     \<Rightarrow> 't exec \<Rightarrow> (exit_status \<times> stop_reason) outcome \<times> 't exec" where
  "stop_process L Q P t rt why =
     (if why = ForceKilled then forced_end_of L P t why False None
      else
        seq (ex_transition L (graceful_update P (r_graceful_shutdown_seconds rt) why)) (\<lambda>_.
        seq (act (ControlWritten (''terminate'' @ [LF]))) (\<lambda>_.
        seq (ex_sysop (tree_graceful P t)) (\<lambda>_.
        seq (deadline_in Q (r_graceful_shutdown_seconds rt)) (\<lambda>gd.
        await_worker_grace L P t why gd)))))"

section \<open>Running a task\<close>

fun start_readers :: "(nat \<Rightarrow> bool) \<Rightarrow> nat \<Rightarrow> (output_stream \<times> nat) list \<Rightarrow> 't exec \<Rightarrow> unit outcome \<times> 't exec" where
  "start_readers ok n [] ex = (Ret (), ex)"
| "start_readers ok n ((stream, pipe) # rs) ex =
     (if ok n then
        start_readers ok (Suc n) rs
          (ex\<lparr>ex_readers := ex_readers ex @ [\<lparr>rd_stream = stream, rd_open = False, rd_end = None\<rparr>]\<rparr>)
      else (Err (ProcessError PipeFailed), ex))"

definition route_mode :: "resolved_route \<Rightarrow> output_mode" where
  "route_mode rt = (if r_merge_stdout_stderr rt then CombinedMode else Separate)"

definition worker_spec_of :: "resolved_route \<Rightarrow> string list \<Rightarrow> worker_spec" where
  "worker_spec_of rt rargs =
     \<lparr>ws_executor = r_executor rt, ws_program = r_program rt, ws_script = r_script rt,
      ws_fixed_args = r_fixed_args rt, ws_request_args = rargs,
      ws_working_directory = r_working_directory rt, ws_env = r_env rt,
      ws_graceful_shutdown_seconds = r_graceful_shutdown_seconds rt\<rparr>"

text \<open>The first message to the worker.\<close>

definition init_line :: "proc_lib \<Rightarrow> resolved_route \<Rightarrow> string list \<Rightarrow> bytes option" where
  "init_line Q rt rargs = map_option (\<lambda>l. l @ [LF]) (spec_to_json Q (worker_spec_of rt rargs))"

definition set_tree :: "'t \<Rightarrow> 't exec \<Rightarrow> unit outcome \<times> 't exec" where
  "set_tree t ex = (Ret (), ex\<lparr>ex_tree := Some t\<rparr>)"

definition spawn_worker :: "start_env \<Rightarrow> 't platform \<Rightarrow> 't exec \<Rightarrow> child_info outcome \<times> 't exec" where
  "spawn_worker E P ex =
     (case spawned E of
        None \<Rightarrow> (Err (ProcessError WorkerSpawn), ex)
      | Some ch \<Rightarrow> (Ret ch, log_action (Spawned (spawn_flag P)) (ex\<lparr>ex_control := True\<rparr>)))"

definition start_update :: "string \<Rightarrow> task_snapshot \<Rightarrow> task_snapshot" where
  "start_update ts s = s\<lparr>status := Running, started_at := Some ts\<rparr>"

definition start_capture :: "start_env \<Rightarrow> resolved_route \<Rightarrow> 't exec \<Rightarrow> unit outcome \<times> 't exec" where
  "start_capture E rt =
     seq (\<lambda>ex. (outcome_of (capture_new (route_mode rt) (pipes_ok E)), ex))
       (\<lambda>cap. start_readers (clones_ok E) 0 (cap_readers cap))"

text \<open>From the first line of \<open>run_task\<close> to the computation of the deadline.\<close>

definition launch ::
  "store_lib \<Rightarrow> proc_lib \<Rightarrow> start_env \<Rightarrow> 't platform \<Rightarrow> resolved_route \<Rightarrow> string list
     \<Rightarrow> 't exec \<Rightarrow> ('t \<times> instant) outcome \<times> 't exec" where
  "launch L Q E P rt rargs =
     seq (start_capture E rt) (\<lambda>_.
     seq (ensure (exe_ok E) ExecutableUnknown) (\<lambda>_.
     seq (ex_sysop (tree_new P)) (\<lambda>t0.
     seq (set_tree t0) (\<lambda>_.
     seq (spawn_worker E P) (\<lambda>ch.
     seq (ex_sysop (tree_attach P ch t0)) (\<lambda>t.
     seq (set_tree t) (\<lambda>_.
     seq (ensure (stdin_ok E) ControlPipeMissing) (\<lambda>_.
     seq (case init_line Q rt rargs of
            None \<Rightarrow> fail SpecNotJson
          | Some line \<Rightarrow> act (ControlWritten line)) (\<lambda>_.
     seq (ensure (init_write_ok E) WorkerInitWrite) (\<lambda>_.
     seq (ensure (init_flush_ok E) ControlFlush) (\<lambda>_.
     seq (\<lambda>ex. ex_transition L (start_update (stamp Q (ex_now ex))) ex) (\<lambda>_.
     seq (deadline_in Q (r_max_execution_seconds rt)) (\<lambda>d. ret (t, d))))))))))))))"

datatype main_branch = MChild "exit_status option" | MDeadline | MStop stop_reason

definition main_ready :: "instant \<Rightarrow> 't exec \<Rightarrow> main_branch list" where
  "main_ready d ex =
     (case ex_child ex of None \<Rightarrow> [] | Some st \<Rightarrow> [MChild st]) @
     (if d \<le> ex_now ex then [MDeadline] else []) @
     (if ex_seen ex < length (stop_sent (ex_record ex)) then
        (case watch_value (ex_record ex) of None \<Rightarrow> [] | Some why \<Rightarrow> [MStop why])
      else [])"

text \<open>A change of the stop channel to \<open>None\<close> makes the loop select again.\<close>

definition poll_main :: "instant \<Rightarrow> 't exec \<Rightarrow> main_branch option \<times> 't exec" where
  "poll_main d ex =
     (case pick_ready (main_ready d ex) ex of
        (Some (MStop why), ex') \<Rightarrow> (Some (MStop why), mark_seen ex')
      | other \<Rightarrow> other)"

definition wait_for_end ::
  "store_lib \<Rightarrow> proc_lib \<Rightarrow> 't platform \<Rightarrow> 't \<Rightarrow> resolved_route \<Rightarrow> instant
     \<Rightarrow> 't exec \<Rightarrow> (exit_status \<times> stop_reason option) outcome \<times> 't exec" where
  "wait_for_end L Q P t rt d =
     seq (await (poll_main d)) (\<lambda>b.
       case b of
         MChild None \<Rightarrow> fail WorkerWait
       | MChild (Some s) \<Rightarrow> ret (s, None)
       | MDeadline \<Rightarrow> seq (stop_process L Q P t rt Timeout) (\<lambda>(s, why). ret (s, Some why))
       | MStop why \<Rightarrow> seq (stop_process L Q P t rt why) (\<lambda>(s, why'). ret (s, Some why')))"

definition descendants_update :: "'t platform \<Rightarrow> task_snapshot \<Rightarrow> task_snapshot" where
  "descendants_update P s =
     s\<lparr>status := Stopping,
       task_termination := Some \<lparr>reason = Timeout, graceful_attempted = False, forced = True,
         term_method = force_method P, term_signal = force_signal P,
         term_message = Some M_descendants_timeout\<rparr>\<rparr>"

text \<open>\<open>timeout(remaining, tree.wait_empty())\<close>: the deadline is fixed when the wait begins.\<close>

definition poll_tree_until :: "'t platform \<Rightarrow> 't \<Rightarrow> instant \<Rightarrow> 't exec \<Rightarrow> (error + unit) option option \<times> 't exec" where
  "poll_tree_until P t d ex =
     (case poll_tree P t ex of
        (Some res, ex') \<Rightarrow> (Some (Some res), ex')
      | (None, ex') \<Rightarrow> (if d \<le> ex_now ex' then Some None else None, ex'))"

text \<open>A result of \<open>wait_empty\<close> within the time limit is dropped: only \<open>is_err\<close> of the
  timeout is asked for.\<close>

definition drain_tree ::
  "store_lib \<Rightarrow> 't platform \<Rightarrow> 't \<Rightarrow> instant \<Rightarrow> stop_reason option
     \<Rightarrow> 't exec \<Rightarrow> stop_reason option outcome \<times> 't exec" where
  "drain_tree L P t d why =
     (case why of
        Some w \<Rightarrow> seq (await_empty P t) (\<lambda>_. ret (Some w))
      | None \<Rightarrow>
          seq (\<lambda>ex. await (poll_tree_until P t (max d (ex_now ex))) ex) (\<lambda>res.
            case res of
              Some _ \<Rightarrow> ret None
            | None \<Rightarrow>
                seq (ex_sysop (tree_force P t)) (\<lambda>_.
                seq (ex_transition L (descendants_update P)) (\<lambda>_.
                seq (await_empty P t) (\<lambda>_. ret (Some Timeout))))))"

fun join_readers :: "nat list \<Rightarrow> 't exec \<Rightarrow> unit outcome \<times> 't exec" where
  "join_readers [] ex = (Ret (), ex)"
| "join_readers (k # ks) ex =
     seq (await (\<lambda>ex. (rd_end (ex_readers ex ! k), ex))) (\<lambda>fin.
       case fin of
         JoinPanic \<Rightarrow> fail ReaderCrashed
       | Joined (Inl e) \<Rightarrow> (\<lambda>ex. (Err e, ex))
       | Joined (Inr _) \<Rightarrow> join_readers ks) ex"

fun final_status :: "stop_reason option \<Rightarrow> exit_status \<Rightarrow> task_status" where
  "final_status (Some Timeout) _ = TimedOut"
| "final_status (Some CancelledReason) _ = Cancelled"
| "final_status (Some ForceKilled) _ = Killed"
| "final_status (Some ServerShutdown) _ = Interrupted"
| "final_status (Some ServerRestart) _ = Interrupted"
| "final_status (Some ParentExited) _ = Interrupted"
| "final_status (Some LoggingFailure) _ = Failed"
| "final_status None s = (if exit_success s then Succeeded else Failed)"

definition final_update ::
  "string \<Rightarrow> stop_reason option \<Rightarrow> exit_status \<Rightarrow> task_snapshot \<Rightarrow> task_snapshot" where
  "final_update ts why st s =
     (let s1 = s\<lparr>status := final_status why st, finished_at := Some ts, exit_code := exit_code_of st\<rparr> in
      if final_status why st = Failed \<and> error_text s1 = None
      then s1\<lparr>error_text := Some (if why = Some LoggingFailure then M_logging_failure
                                 else M_exit_nonzero (exit_code_of st))\<rparr>
      else s1)"

definition do_exec :: "('t exec \<Rightarrow> 't exec) \<Rightarrow> 't exec \<Rightarrow> unit outcome \<times> 't exec" where
  "do_exec g ex = (Ret (), g ex)"

text \<open>From the loop of \<open>run_task\<close> to its end.\<close>

definition conclude ::
  "store_lib \<Rightarrow> proc_lib \<Rightarrow> 't platform \<Rightarrow> 't \<Rightarrow> resolved_route \<Rightarrow> instant
     \<Rightarrow> 't exec \<Rightarrow> unit outcome \<times> 't exec" where
  "conclude L Q P t rt d =
     seq (wait_for_end L Q P t rt d) (\<lambda>(st, why0).
     seq (drain_tree L P t d why0) (\<lambda>why.
     seq (do_exec close_control) (\<lambda>_.
     seq (\<lambda>ex. join_readers [0..<length (ex_readers ex)] ex) (\<lambda>_.
     seq (do_exec release_permits) (\<lambda>_.
     (\<lambda>ex. ex_transition L (final_update (stamp Q (ex_now ex)) why st) ex))))))"

definition run_task ::
  "store_lib \<Rightarrow> proc_lib \<Rightarrow> start_env \<Rightarrow> 't platform \<Rightarrow> resolved_route \<Rightarrow> string list
     \<Rightarrow> 't exec \<Rightarrow> unit outcome \<times> 't exec" where
  "run_task L Q E P rt rargs =
     seq (launch L Q E P rt rargs) (\<lambda>(t, d). conclude L Q P t rt d)"

text \<open>The values dropped when \<open>run_task\<close> is left, by return, error or panic.\<close>

definition leave_run :: "'t platform \<Rightarrow> 't exec \<Rightarrow> 't exec" where
  "leave_run P ex = release_permits (drop_tree P (close_control ex))"

definition failed_update :: "string \<Rightarrow> error \<Rightarrow> task_snapshot \<Rightarrow> task_snapshot" where
  "failed_update ts e s =
     (if is_finished (status s) then s
      else s\<lparr>status := Failed, finished_at := Some ts, error_text := Some (M_executor_failed e)\<rparr>)"

text \<open>The spawned coroutine; a panic ends it before \<open>mark_finished\<close>. The record is shared with the store
  (an \<open>Arc\<close>): here the run works on it apart, and the store shows it as the run left it. What the store
  shows in between are the publications of the trace.\<close>

definition start_task ::
  "store_lib \<Rightarrow> proc_lib \<Rightarrow> start_env \<Rightarrow> 't platform \<Rightarrow> resolved_route \<Rightarrow> string list
     \<Rightarrow> 't exec \<Rightarrow> task_store \<Rightarrow> unit outcome \<times> 't exec \<times> task_store" where
  "start_task L Q E P rt rargs ex0 st =
     (let share = (\<lambda>ex. st\<lparr>tasks := (tasks st)(rec_id (ex_record ex) \<mapsto> ex_record ex)\<rparr>) in
      case run_task L Q E P rt rargs (ex0\<lparr>ex_seen := length (stop_sent (ex_record ex0))\<rparr>) of
        (Ret _, ex) \<Rightarrow> (Ret (), leave_run P ex, mark_finished (share (leave_run P ex)))
      | (Err e, ex) \<Rightarrow>
          (let ex' = leave_run P ex;
               ex'' = snd (ex_transition L (failed_update (stamp Q (ex_now ex')) e) ex')
           in (Ret (), ex'', mark_finished (share ex'')))
      | (Panic, ex) \<Rightarrow> (Panic, leave_run P ex, share (leave_run P ex))
      | (Pending, ex) \<Rightarrow> (Pending, ex, share ex))"

section \<open>Invariants of coroutines\<close>

definition keeps :: "('s \<Rightarrow> bool) \<Rightarrow> ('s \<Rightarrow> 'a outcome \<times> 's) \<Rightarrow> bool" where
  "keeps I m \<longleftrightarrow> (\<forall>s. I s \<longrightarrow> I (snd (m s)))"

lemma keeps_seq [step_intros]:
  assumes "keeps I m" and "\<And>a. keeps I (k a)"
  shows "keeps I (seq m k)"
  unfolding keeps_def
proof (intro allI impI)
  fix s assume s: "I s"
  obtain out s' where m: "m s = (out, s')" by fastforce
  with assms(1) s have "I s'" by (metis keeps_def snd_conv)
  with m assms(2) show "I (snd (seq m k s))"
    by (cases out) (auto simp: seq_def keeps_def)
qed

lemma keeps_pure [step_intros]:
  "keeps I (ret a)" "keeps I (fail e)" "keeps I (ensure b e)" "keeps I (\<lambda>s. (out, s))"
  by (simp_all add: keeps_def ret_def fail_def ensure_def)

lemma keeps_deadline [step_intros]: "keeps I (deadline_in Q n)"
  by (simp add: keeps_def deadline_in_def split: option.splits)

text \<open>From \<open>I\<close>, a coroutine that returns establishes \<open>J\<close>; one that fails, panics or is
  suspended leaves \<open>K\<close>.\<close>

definition triple :: "('s \<Rightarrow> bool) \<Rightarrow> ('s \<Rightarrow> 'a outcome \<times> 's) \<Rightarrow> ('s \<Rightarrow> bool) \<Rightarrow> ('s \<Rightarrow> bool) \<Rightarrow> bool" where
  "triple I m J K \<longleftrightarrow> (\<forall>s. I s \<longrightarrow> (case m s of (Ret _, s') \<Rightarrow> J s' | (_, s') \<Rightarrow> K s'))"

lemma triple_outcome:
  assumes "triple I m J K" and "I s" and "m s = (out, s')"
  shows "case out of Ret _ \<Rightarrow> J s' | _ \<Rightarrow> K s'"
proof -
  from assms(1,2) have "case m s of (Ret _, s') \<Rightarrow> J s' | (_, s') \<Rightarrow> K s'" by (simp add: triple_def)
  with assms(3) show ?thesis by simp
qed

lemma tripleI:
  assumes "\<And>s out s'. I s \<Longrightarrow> m s = (out, s') \<Longrightarrow> (case out of Ret _ \<Rightarrow> J s' | _ \<Rightarrow> K s')"
  shows "triple I m J K"
  unfolding triple_def
proof (intro allI impI)
  fix s assume s: "I s"
  obtain out s' where m: "m s = (out, s')" by fastforce
  from assms [OF s m] m show "case m s of (Ret _, s') \<Rightarrow> J s' | (_, s') \<Rightarrow> K s'" by simp
qed

lemma triple_seq:
  assumes "triple I m M K" and "\<And>a. triple M (k a) J K"
  shows "triple I (seq m k) J K"
proof (rule tripleI)
  fix s out s' assume s: "I s" and r: "seq m k s = (out, s')"
  obtain o1 s1 where m: "m s = (o1, s1)" by fastforce
  from triple_outcome [OF assms(1) s m] r m triple_outcome [OF assms(2)]
  show "case out of Ret _ \<Rightarrow> J s' | _ \<Rightarrow> K s'" by (cases o1) (auto simp: seq_def)
qed

lemma triple_weaken:
  assumes "triple I m J K" and "\<And>s. I' s \<Longrightarrow> I s" and "\<And>s. J s \<Longrightarrow> J' s" and "\<And>s. K s \<Longrightarrow> K' s"
  shows "triple I' m J' K'"
proof (rule tripleI)
  fix s out s' assume "I' s" and "m s = (out, s')"
  with triple_outcome [OF assms(1)] assms(2) have "case out of Ret _ \<Rightarrow> J s' | _ \<Rightarrow> K s'" by blast
  with assms(3,4) show "case out of Ret _ \<Rightarrow> J' s' | _ \<Rightarrow> K' s'" by (cases out) auto
qed

lemma triple_keeps: "keeps I m \<Longrightarrow> (\<And>s. I s \<Longrightarrow> K s) \<Longrightarrow> triple I m I K"
  by (rule tripleI) (metis (no_types, lifting) keeps_def snd_conv outcome.case outcome.exhaust)

lemma triple_after: "keeps I m \<Longrightarrow> (\<And>a. triple I (k a) J K) \<Longrightarrow> (\<And>s. I s \<Longrightarrow> K s) \<Longrightarrow> triple I (seq m k) J K"
  by (rule triple_seq [OF triple_keeps])

lemma triple_before: "triple I m J K \<Longrightarrow> (\<And>a. keeps J (k a)) \<Longrightarrow> (\<And>s. J s \<Longrightarrow> K s) \<Longrightarrow> triple I (seq m k) J K"
  by (rule triple_seq) (auto intro: triple_keeps)

text \<open>The updates of a snapshot with which a running task is being stopped.\<close>

definition stop_update :: "'t platform \<Rightarrow> (task_snapshot \<Rightarrow> task_snapshot) \<Rightarrow> bool" where
  "stop_update P u \<longleftrightarrow> (\<exists>why b. u = force_update P why b) \<or> (\<exists>n why. u = graceful_update P n why) \<or>
     u = descendants_update P"

lemma stop_update_simps [simp]:
  "stop_update P (force_update P why b)" "stop_update P (graceful_update P n why)"
  "stop_update P (descendants_update P)"
  by (auto simp: stop_update_def)

lemma stop_update_fields:
  assumes "stop_update P u"
  shows "status (u s) = Stopping" and "task_id (u s) = task_id s" and "error_text (u s) = error_text s"
    and "finished_at (u s) = finished_at s"
  using assms
  by (auto simp: stop_update_def force_update_def graceful_update_def descendants_update_def)

section \<open>Polling and awaiting\<close>

text \<open>Polling a future changes nothing but the schedule's picks, the seen mark and the system
  state, the latter by system calls that \<open>R\<close> admits.\<close>

definition polled :: "(sys \<Rightarrow> sys \<Rightarrow> bool) \<Rightarrow> 't exec \<Rightarrow> 't exec \<Rightarrow> bool" where
  "polled R ex ex' \<longleftrightarrow>
     (\<exists>ps n S. R (ex_sys ex) S \<and> ex' = ex\<lparr>ex_picks := ps, ex_seen := n, ex_sys := S\<rparr>)"

definition poll_only :: "(sys \<Rightarrow> sys \<Rightarrow> bool) \<Rightarrow> ('t exec \<Rightarrow> 'a option \<times> 't exec) \<Rightarrow> bool" where
  "poll_only R p \<longleftrightarrow> (\<forall>ex. polled R ex (snd (p ex)))"

lemma polled_fields:
  assumes "polled R ex ex'"
  shows "ex_record ex' = ex_record ex" and "ex_fs ex' = ex_fs ex" and "ex_now ex' = ex_now ex"
    and "ex_child ex' = ex_child ex" and "ex_readers ex' = ex_readers ex" and "ex_limit ex' = ex_limit ex"
    and "ex_tree ex' = ex_tree ex" and "ex_control ex' = ex_control ex" and "ex_permits ex' = ex_permits ex"
    and "ex_wakes ex' = ex_wakes ex" and "ex_trace ex' = ex_trace ex" and "R (ex_sys ex) (ex_sys ex')"
  using assms by (auto simp: polled_def)

lemma poll_main_cases:
  assumes "pick_ready (main_ready d ex) ex = (a, ex')"
  shows "poll_main d ex = (a, if \<exists>why. a = Some (MStop why) then mark_seen ex' else ex')"
  using assms unfolding poll_main_def by (auto split: option.split main_branch.split)

text \<open>
  A reflexive and transitive relation on the system state that polling the process tree respects:
  every future of the executor is then polled within it.
\<close>

locale poll_relation =
  fixes R :: "sys \<Rightarrow> sys \<Rightarrow> bool" and P :: "'t platform"
  assumes R_refl: "R S S" and R_trans: "R S S' \<Longrightarrow> R S' S'' \<Longrightarrow> R S S''"
    and R_poll: "tree_poll_empty P t S = (x, S') \<Longrightarrow> R S S'"
begin

lemma polled_trans: "polled R ex ex' \<Longrightarrow> polled R ex' ex'' \<Longrightarrow> polled R ex ex''"
  unfolding polled_def by (cases ex) (fastforce intro: R_trans)

lemma polled_sys: "R (ex_sys ex) S \<Longrightarrow> polled R ex (ex\<lparr>ex_sys := S\<rparr>)"
  unfolding polled_def
  by (intro exI [of _ "ex_picks ex"] exI [of _ "ex_seen ex"] exI [of _ S]) simp

lemma polled_refl: "polled R ex ex"
  using polled_sys [of ex "ex_sys ex"] R_refl by simp

lemma polled_seen: "polled R ex (mark_seen ex)"
  unfolding polled_def mark_seen_def
  by (intro exI [of _ "ex_picks ex"] exI [of _ "length (stop_sent (ex_record ex))"] exI [of _ "ex_sys ex"])
    (cases ex, simp add: R_refl)

lemma polled_marked: "polled R ex ex' \<Longrightarrow> polled R ex (mark_seen ex')"
  by (rule polled_trans [OF _ polled_seen])

lemma polled_pick: "next_pick ex = (p, ex') \<Longrightarrow> polled R ex ex'"
  unfolding polled_def next_pick_def
  by (intro exI [of _ "ex_picks ex'"] exI [of _ "ex_seen ex"] exI [of _ "ex_sys ex"])
    (cases ex, auto simp: R_refl split: list.splits)

lemma poll_only_pure: "poll_only R (\<lambda>ex. (g ex, ex))"
  by (simp add: poll_only_def polled_refl)

lemma poll_tree_polled: "poll_tree P t ex = (a, ex') \<Longrightarrow> polled R ex ex'"
  by (auto simp: poll_tree_def split: prod.splits intro: polled_sys R_poll)

lemma poll_only_tree: "poll_only R (poll_tree P t)"
  unfolding poll_only_def using poll_tree_polled by (metis prod.collapse)

lemma pick_ready_polled: "pick_ready xs ex = (a, ex') \<Longrightarrow> polled R ex ex'"
  by (auto simp: pick_ready_def polled_refl split: if_splits prod.splits dest: polled_pick)

lemma poll_only_main: "poll_only R (poll_main d :: 't exec \<Rightarrow> main_branch option \<times> 't exec)"
  unfolding poll_only_def
proof
  fix ex :: "'t exec"
  obtain a ex' where a: "pick_ready (main_ready d ex) ex = (a, ex')" by fastforce
  from pick_ready_polled [OF this] show "polled R ex (snd (poll_main d ex))"
    by (simp add: poll_main_cases [OF a] polled_marked)
qed

lemma poll_only_tree_until: "poll_only R (poll_tree_until P t d)"
  by (auto simp: poll_only_def poll_tree_until_def split: prod.splits option.splits dest: poll_tree_polled)

lemma poll_only_grace:
  fixes inner :: "'t exec \<Rightarrow> 'a option \<times> 't exec"
  assumes "poll_only R inner"
  shows "poll_only R (grace_select inner gd)"
  unfolding poll_only_def
proof
  fix ex :: "'t exec"
  obtain p ex1 where p: "next_pick ex = (p, ex1)" by fastforce
  obtain a1 e1 where i1: "inner ex1 = (a1, e1)" by fastforce
  obtain a2 e2 where i2: "inner (mark_seen ex1) = (a2, e2)" by fastforce
  have e1: "polled R ex1 e1" and "polled R (mark_seen ex1) e2"
    using assms i1 i2 unfolding poll_only_def by (metis snd_conv)+
  then have e2: "polled R ex1 e2" using polled_trans [OF polled_seen] by blast
  have "polled R ex1 (snd (grace_select inner gd ex))"
    using e1 e2 polled_marked [OF e1] polled_seen [of ex1]
    by (cases "even p"; cases a1; cases a2) (simp_all add: grace_select_def p Let_def i1 i2)
  with polled_pick [OF p] show "polled R ex (snd (grace_select inner gd ex))" by (rule polled_trans)
qed

lemmas poll_intros = poll_only_pure poll_only_tree poll_only_main poll_only_tree_until poll_only_grace

end

text \<open>
  A property of the executor's state that polling and the outside world keep: it survives every
  \<open>await\<close>, whatever happens meanwhile.
\<close>

locale world_invariant = poll_relation R P
  for R :: "sys \<Rightarrow> sys \<Rightarrow> bool" and P :: "'t platform" +
  fixes I :: "'t exec \<Rightarrow> bool"
  assumes absorb_keeps: "I (ex\<lparr>ex_wakes := b # bs\<rparr>) \<Longrightarrow> I ((fold absorb b ex)\<lparr>ex_wakes := bs\<rparr>)"
    and poll_keeps: "I ex \<Longrightarrow> R (ex_sys ex) S \<Longrightarrow> I (ex\<lparr>ex_picks := ps, ex_seen := n, ex_sys := S\<rparr>)"
begin

lemma polled_keeps: "polled R ex ex' \<Longrightarrow> I (ex\<lparr>ex_wakes := w\<rparr>) \<Longrightarrow> I (ex'\<lparr>ex_wakes := w\<rparr>)"
proof -
  assume "polled R ex ex'" and i: "I (ex\<lparr>ex_wakes := w\<rparr>)"
  then obtain ps n S where r: "R (ex_sys ex) S" and "ex' = ex\<lparr>ex_picks := ps, ex_seen := n, ex_sys := S\<rparr>"
    unfolding polled_def by blast
  then have "ex'\<lparr>ex_wakes := w\<rparr> = ex\<lparr>ex_wakes := w, ex_picks := ps, ex_seen := n, ex_sys := S\<rparr>"
    by (cases ex) simp
  with poll_keeps [OF i, where ps = ps and n = n and S = S] r show ?thesis by simp
qed

lemma poll_only_keeps: "poll_only R p \<Longrightarrow> p ex = (a, ex') \<Longrightarrow> I (ex\<lparr>ex_wakes := w\<rparr>) \<Longrightarrow> I (ex'\<lparr>ex_wakes := w\<rparr>)"
  by (metis poll_only_def polled_keeps snd_conv)

lemma await_loop_keeps: "poll_only R p \<Longrightarrow> I (ex\<lparr>ex_wakes := bs\<rparr>) \<Longrightarrow> I (snd (await_loop bs p ex))"
proof (induction bs arbitrary: ex)
  case Nil
  obtain a ex' where p: "p ex = (a, ex')" by fastforce
  from poll_only_keeps [OF Nil.prems(1) p Nil.prems(2)] p show ?case by (cases a) auto
next
  case (Cons b bs)
  obtain a ex' where p: "p ex = (a, ex')" by fastforce
  note k = poll_only_keeps [OF Cons.prems(1) p Cons.prems(2)]
  show ?case
  proof (cases a)
    case None
    with p Cons.IH [OF Cons.prems(1) absorb_keeps [OF k]] show ?thesis by simp
  next
    case (Some x)
    with p k show ?thesis by simp
  qed
qed

lemma await_keeps: "poll_only R p \<Longrightarrow> keeps I (await p)"
  unfolding keeps_def await_def by (auto intro: await_loop_keeps)

lemma sysop_keeps: "(\<And>S r S'. g S = (r, S') \<Longrightarrow> R S S') \<Longrightarrow> keeps I (ex_sysop g)"
  unfolding keeps_def
proof (intro allI impI)
  fix ex assume R: "\<And>S r S'. g S = (r, S') \<Longrightarrow> R S S'" and "I ex"
  then have "I (ex\<lparr>ex_wakes := ex_wakes ex\<rparr>)" by simp
  from polled_keeps [OF polled_sys this] have "R (ex_sys ex) S \<Longrightarrow> I (ex\<lparr>ex_sys := S\<rparr>)" for S by simp
  with R show "I (snd (ex_sysop g ex))" by (simp add: ex_sysop_def split: prod.splits)
qed

lemmas waiting_intros = step_intros await_keeps poll_intros

lemma await_empty_keeps: "keeps I (await_empty P t)"
  unfolding await_empty_def by (intro waiting_intros)

lemma await_child_keeps: "keeps I (await_child e)"
  unfolding await_child_def by (intro waiting_intros) (auto split: option.split intro: waiting_intros)

lemma join_readers_keeps: "keeps I (join_readers ks)"
proof (induction ks)
  case Nil
  then show ?case by (simp add: keeps_def)
next
  case (Cons k ks)
  have "keeps I (seq (await (\<lambda>ex. (rd_end (ex_readers ex ! k), ex))) (\<lambda>fin.
       case fin of JoinPanic \<Rightarrow> fail ReaderCrashed
       | Joined (Inl e) \<Rightarrow> (\<lambda>ex. (Err e, ex)) | Joined (Inr _) \<Rightarrow> join_readers ks))"
    using Cons by (auto intro!: waiting_intros split: reader_end.split sum.split)
  then show ?case by (simp add: keeps_def)
qed

end

text \<open>
  A property that also the control pipe, the signals and the stopping transitions keep holds
  throughout the part of \<open>run_task\<close> between the start of the worker and the final transition.
\<close>

locale coroutine_invariant = world_invariant "\<lambda>_ _. True" P I
  for P :: "'t platform" and I :: "'t exec \<Rightarrow> bool" +
  fixes L :: store_lib
  assumes control_keeps: "I ex \<Longrightarrow> I (log_action (ControlWritten c) ex)"
    and stopping_keeps: "I ex \<Longrightarrow> stop_update P u \<Longrightarrow> I (snd (ex_transition L u ex))"
begin

lemma any_sysop_keeps: "keeps I (ex_sysop g)"
  by (rule sysop_keeps) simp

lemma transition_keeps: "stop_update P u \<Longrightarrow> keeps I (ex_transition L u)"
  by (simp add: keeps_def stopping_keeps)

lemma act_keeps: "keeps I (act (ControlWritten c))"
  by (simp add: keeps_def act_def control_keeps)

lemmas running_intros = waiting_intros any_sysop_keeps transition_keeps act_keeps

lemma force_stop_keeps: "keeps I (force_stop_process L P t why b ws)"
  unfolding force_stop_process_def
  by (intro running_intros await_empty_keeps) (auto split: option.split intro: await_child_keeps running_intros)

lemma forced_end_keeps: "keeps I (forced_end_of L P t why b ws)"
  unfolding forced_end_of_def by (intro running_intros force_stop_keeps)

lemma stop_process_keeps: "keeps I (stop_process L Q P t rt why)"
  unfolding stop_process_def await_worker_grace_def await_tree_grace_def
  by (auto intro!: running_intros forced_end_keeps split: grace.split option.split sum.split)

lemma wait_for_end_keeps: "keeps I (wait_for_end L Q P t rt d)"
  unfolding wait_for_end_def
  by (auto intro!: running_intros stop_process_keeps split: main_branch.split option.split prod.split)

lemma drain_tree_keeps: "keeps I (drain_tree L P t d why)"
proof -
  have "keeps I (\<lambda>ex. await (poll_tree_until P t (max d (ex_now ex))) ex)"
    using await_keeps [OF poll_only_tree_until] by (simp add: keeps_def)
  then show ?thesis
    unfolding drain_tree_def
    by (auto intro!: running_intros await_empty_keeps split: option.split)
qed

end

section \<open>What the outside world leaves alone\<close>

lemma absorb_frame [simp]:
  "ex_trace (absorb e ex) = ex_trace ex" "ex_permits (absorb e ex) = ex_permits ex"
  "ex_control (absorb e ex) = ex_control ex" "ex_tree (absorb e ex) = ex_tree ex"
  "ex_sys (absorb e ex) = ex_sys ex" "ex_wakes (absorb e ex) = ex_wakes ex"
  "length (ex_readers (absorb e ex)) = length (ex_readers ex)"
  by (cases e; auto split: prod.splits)+

lemma fold_absorb_frame [simp]:
  "ex_trace (fold absorb b ex) = ex_trace ex" "ex_permits (fold absorb b ex) = ex_permits ex"
  "ex_control (fold absorb b ex) = ex_control ex" "ex_tree (fold absorb b ex) = ex_tree ex"
  "ex_sys (fold absorb b ex) = ex_sys ex" "ex_wakes (fold absorb b ex) = ex_wakes ex"
  "length (ex_readers (fold absorb b ex)) = length (ex_readers ex)"
  by (induction b arbitrary: ex) auto

lemma copy_loop_frame:
  "copy_loop x limit rs r f = (r', f', res) \<Longrightarrow>
     rec_id r' = rec_id r \<and> rec_snapshot r' = rec_snapshot r \<and> rec_directory r' = rec_directory r \<and>
     stop_sent r' = stop_sent r"
proof (induction rs arbitrary: r f)
  case (Cons c rs)
  have set_bytes: "stop_sent (set_stream_bytes x n r) = stop_sent r" for n r by (cases x) auto
  have commit_frame: "rec_id r2 = rec_id r1 \<and> rec_snapshot r2 = rec_snapshot r1 \<and>
      rec_directory r2 = rec_directory r1 \<and> stop_sent r2 = stop_sent r1"
    if "commit x data a r1 f1 = (r2, f2, res2)" for data a r1 f1 r2 f2 res2
    using that by (auto simp: commit_def Let_def set_bytes split: if_splits prod.splits bool.splits)
  show ?case
  proof (cases c)
    case (ReadBytes data)
    obtain r1 a where r1: "reserve limit data r = (r1, a)" by fastforce
    then have r1_frame: "rec_id r1 = rec_id r \<and> rec_snapshot r1 = rec_snapshot r \<and>
        rec_directory r1 = rec_directory r \<and> stop_sent r1 = stop_sent r"
      by (auto simp: reserve_def Let_def)
    obtain r2 f2 res2 where c2: "commit x data a r1 f = (r2, f2, res2)" by (cases "commit x data a r1 f")
    show ?thesis
      using Cons r1_frame commit_frame [OF c2] r1 c2 ReadBytes
      by (cases "data = []"; cases res2) auto
  qed (use Cons.prems in auto)
qed auto

lemma step_reader_frame:
  "step_reader limit rd res r f = (rd', r', f') \<Longrightarrow>
     rec_id r' = rec_id r \<and> rec_snapshot r' = rec_snapshot r \<and> rec_directory r' = rec_directory r \<and>
     (\<exists>xs. stop_sent r' = stop_sent r @ xs)"
  by (auto simp: step_reader_def simp del: copy_loop.simps
      split: if_splits prod.splits sum.splits option.splits dest!: copy_loop_frame)

lemma absorb_record:
  "rec_id (ex_record (absorb e ex)) = rec_id (ex_record ex) \<and>
   rec_snapshot (ex_record (absorb e ex)) = rec_snapshot (ex_record ex) \<and>
   rec_directory (ex_record (absorb e ex)) = rec_directory (ex_record ex) \<and>
   (\<exists>xs. stop_sent (ex_record (absorb e ex)) = stop_sent (ex_record ex) @ xs) \<and>
   ex_now ex \<le> ex_now (absorb e ex)"
  by (cases e) (auto split: prod.splits dest!: step_reader_frame)

lemma fold_absorb_record:
  "rec_id (ex_record (fold absorb b ex)) = rec_id (ex_record ex) \<and>
   rec_snapshot (ex_record (fold absorb b ex)) = rec_snapshot (ex_record ex) \<and>
   rec_directory (ex_record (fold absorb b ex)) = rec_directory (ex_record ex) \<and>
   (\<exists>xs. stop_sent (ex_record (fold absorb b ex)) = stop_sent (ex_record ex) @ xs) \<and>
   ex_now ex \<le> ex_now (fold absorb b ex)"
proof (induction b arbitrary: ex)
  case (Cons e b)
  from absorb_record [of e ex] obtain xs where
    1: "stop_sent (ex_record (absorb e ex)) = stop_sent (ex_record ex) @ xs" by blast
  from Cons [of "absorb e ex"] obtain ys where
    2: "stop_sent (ex_record (fold absorb b (absorb e ex))) = stop_sent (ex_record (absorb e ex)) @ ys" by blast
  have "\<exists>zs. stop_sent (ex_record (fold absorb b (absorb e ex))) = stop_sent (ex_record ex) @ zs"
    by (intro exI [of _ "xs @ ys"]) (simp add: 1 2)
  moreover have "ex_now ex \<le> ex_now (fold absorb b (absorb e ex))"
    using absorb_record [of e ex] Cons [of "absorb e ex"] by (meson le_trans)
  ultimately show ?case using absorb_record [of e ex] Cons [of "absorb e ex"] by simp
qed simp

section \<open>Permits are released before the end is published\<close>

definition released_first :: "action list \<Rightarrow> bool" where
  "released_first tr \<longleftrightarrow>
     (\<forall>i < length tr. \<forall>s. tr ! i = Published s \<longrightarrow> is_finished s \<longrightarrow> PermitsReleased \<in> set (take i tr))"

definition permits_inv :: "'t exec \<Rightarrow> bool" where
  "permits_inv ex \<longleftrightarrow> released_first (ex_trace ex) \<and>
     count_list (ex_trace ex) PermitsReleased = (if ex_permits ex then 0 else 1)"

lemma released_once: "permits_inv ex \<Longrightarrow> \<not> ex_permits ex \<Longrightarrow> PermitsReleased \<in> set (ex_trace ex)"
  by (auto simp: permits_inv_def intro: ccontr [of "PermitsReleased \<in> set (ex_trace ex)"])

lemma released_first_snoc:
  "released_first (tr @ [a]) \<longleftrightarrow>
     released_first tr \<and> (\<forall>s. a = Published s \<longrightarrow> is_finished s \<longrightarrow> PermitsReleased \<in> set tr)"
  by (auto simp: released_first_def nth_append less_Suc_eq)

lemma permits_inv_log:
  assumes "permits_inv ex" and "a \<noteq> PermitsReleased" and "\<And>s. a = Published s \<Longrightarrow> is_finished s \<Longrightarrow> \<not> ex_permits ex"
  shows "permits_inv (log_action a ex)"
  using assms released_once [OF assms(1)] by (auto simp: permits_inv_def log_action_def released_first_snoc)

lemma permits_inv_frame:
  "permits_inv ex \<Longrightarrow> ex_trace ex' = ex_trace ex \<Longrightarrow> ex_permits ex' = ex_permits ex \<Longrightarrow> permits_inv ex'"
  by (simp add: permits_inv_def)

lemma ex_transition_eq:
  "ex_transition L u ex =
     (case transition L u (ex_record ex) (ex_fs ex) of
        (r, f, res) \<Rightarrow>
          (outcome_of res, log_action (Published (status (u (rec_snapshot (ex_record ex)))))
             (ex\<lparr>ex_record := update_snapshot u (ex_record ex), ex_fs := f\<rparr>)))"
  by (auto simp: ex_transition_def transition_def Let_def split: prod.splits)

lemma permits_inv_transition:
  "permits_inv ex \<Longrightarrow> (\<And>s. is_finished (status (u s)) \<Longrightarrow> \<not> ex_permits ex) \<Longrightarrow>
     permits_inv (snd (ex_transition L u ex))"
  by (auto simp: ex_transition_eq split: prod.splits intro!: permits_inv_log elim: permits_inv_frame)

interpretation any_calls: poll_relation "\<lambda>_ _. True" P for P :: "'t platform"
  by unfold_locales auto

interpretation permits: coroutine_invariant P permits_inv L for P :: "'t platform" and L
  by unfold_locales
    (auto intro: permits_inv_log permits_inv_transition elim: permits_inv_frame simp: stop_update_fields)

lemma start_readers_frame:
  "start_readers ok n rs ex = (out, ex') \<Longrightarrow>
     ex_trace ex' = ex_trace ex \<and> ex_permits ex' = ex_permits ex \<and> ex_record ex' = ex_record ex \<and>
     ex_wakes ex' = ex_wakes ex \<and> ex_fs ex' = ex_fs ex \<and> ex_child ex' = ex_child ex \<and> ex_sys ex' = ex_sys ex"
  by (induction ok n rs ex rule: start_readers.induct) (auto split: if_splits)

lemma launch_permits: "keeps permits_inv (launch L Q E P rt rargs)"
proof -
  have "keeps permits_inv (start_readers ok n rs)" for ok n rs
    unfolding keeps_def using start_readers_frame by (metis permits_inv_def prod.collapse)
  moreover have "keeps permits_inv (set_tree t)" for t
    by (simp add: keeps_def set_tree_def permits_inv_def)
  moreover have "keeps permits_inv (spawn_worker E P)"
    by (auto simp: keeps_def spawn_worker_def split: option.splits intro!: permits_inv_log elim: permits_inv_frame)
  moreover have "keeps permits_inv (\<lambda>ex. ex_transition L (start_update (stamp Q (ex_now ex))) ex)"
    unfolding keeps_def by (auto intro!: permits_inv_transition simp: start_update_def)
  ultimately show ?thesis
    unfolding launch_def start_capture_def
    by (auto intro!: permits.running_intros any_calls.poll_intros split: option.split)
qed

lemma release_permits_simps [simp]:
  "\<not> ex_permits (release_permits ex)" "ex_record (release_permits ex) = ex_record ex"
  "ex_fs (release_permits ex) = ex_fs ex" "ex_sys (release_permits ex) = ex_sys ex"
  "ex_now (release_permits ex) = ex_now ex" "ex_child (release_permits ex) = ex_child ex"
  by (simp_all add: release_permits_def log_action_def)

lemma close_control_simps [simp]:
  "ex_permits (close_control ex) = ex_permits ex" "ex_record (close_control ex) = ex_record ex"
  "ex_fs (close_control ex) = ex_fs ex" "ex_sys (close_control ex) = ex_sys ex"
  "ex_readers (close_control ex) = ex_readers ex" "ex_wakes (close_control ex) = ex_wakes ex"
  "ex_child (close_control ex) = ex_child ex" "ex_now (close_control ex) = ex_now ex"
  by (simp_all add: close_control_def log_action_def)

lemma drop_tree_simps [simp]:
  "ex_permits (drop_tree P ex) = ex_permits ex" "ex_record (drop_tree P ex) = ex_record ex"
  "ex_trace (drop_tree P ex) = ex_trace ex" "ex_fs (drop_tree P ex) = ex_fs ex"
  "ex_now (drop_tree P ex) = ex_now ex"
  by (simp_all add: drop_tree_def split: option.splits)

lemma leave_run_simps [simp]:
  "\<not> ex_permits (leave_run P ex)" "ex_record (leave_run P ex) = ex_record ex"
  "ex_fs (leave_run P ex) = ex_fs ex"
  by (simp_all add: leave_run_def)

lemma permits_inv_close: "permits_inv ex \<Longrightarrow> permits_inv (close_control ex)"
  by (auto simp: close_control_def permits_inv_def log_action_def released_first_snoc)

lemma permits_inv_release: "permits_inv ex \<Longrightarrow> permits_inv (release_permits ex)"
  by (auto simp: release_permits_def permits_inv_def log_action_def released_first_snoc)

lemma permits_inv_leave: "permits_inv ex \<Longrightarrow> permits_inv (leave_run P ex)"
  using permits_inv_release [of "drop_tree P (close_control ex)"] permits_inv_close [of ex]
  by (simp add: leave_run_def permits_inv_def)

lemma seq_snd:
  assumes "I s" and "keeps I m" and "\<And>a s'. m s = (Ret a, s') \<Longrightarrow> I s' \<Longrightarrow> J (snd (k a s'))"
    and "\<And>s. I s \<Longrightarrow> J s"
  shows "J (snd (seq m k s))"
proof -
  obtain out s' where m: "m s = (out, s')" by fastforce
  with assms(1,2) have "I s'" by (metis keeps_def snd_conv)
  with m assms(3,4) show ?thesis by (cases out) (auto simp: seq_def)
qed

lemma run_task_permits:
  fixes P :: "'t platform"
  shows "keeps permits_inv (run_task L Q E P rt rargs)"
proof -
  have final: "keeps permits_inv
      (seq (do_exec release_permits) (\<lambda>_ ex :: 't exec. ex_transition L (final_update (stamp Q (ex_now ex)) why st) ex))" for why st
    unfolding keeps_def
  proof (intro allI impI)
    fix ex :: "'t exec" assume "permits_inv ex"
    then have "permits_inv (release_permits ex)" by (rule permits_inv_release)
    then show "permits_inv (snd (seq (do_exec release_permits)
        (\<lambda>_ ex. ex_transition L (final_update (stamp Q (ex_now ex)) why st) ex) ex))"
      by (simp add: seq_def do_exec_def permits_inv_transition)
  qed
  have "keeps permits_inv (\<lambda>ex :: 't exec. join_readers [0..<length (ex_readers ex)] ex)"
    by (auto simp: keeps_def intro: permits.join_readers_keeps [unfolded keeps_def, rule_format])
  moreover have "keeps permits_inv (do_exec close_control)"
    by (simp add: keeps_def do_exec_def permits_inv_close)
  ultimately show ?thesis
    unfolding run_task_def conclude_def
    by (auto intro!: keeps_seq launch_permits permits.wait_for_end_keeps permits.drain_tree_keeps final
        split: prod.split)
qed

lemma start_task_permits:
  assumes "ex_permits ex" and "ex_trace ex = []"
    and "start_task L Q E P rt rargs ex st = (out, ex', st')"
  shows "released_first (ex_trace ex') \<and>
    count_list (ex_trace ex') PermitsReleased = (if ex_permits ex' then 0 else 1) \<and>
    (out \<noteq> Pending \<longrightarrow> \<not> ex_permits ex')"
proof -
  let ?ex = "ex\<lparr>ex_seen := length (stop_sent (ex_record ex))\<rparr>"
  have "permits_inv ?ex" using assms(1,2) by (simp add: permits_inv_def released_first_def)
  obtain o1 e1 where r: "run_task L Q E P rt rargs ?ex = (o1, e1)" by fastforce
  have e1: "permits_inv e1"
    using \<open>permits_inv ?ex\<close> run_task_permits [of L Q E P rt rargs] r unfolding keeps_def by (metis snd_conv)
  note leave = permits_inv_leave [OF e1, of P]
  have failed: "permits_inv (snd (ex_transition L u (leave_run P e1)))" for u
    using leave by (intro permits_inv_transition) simp_all
  have kept: "ex_permits (snd (ex_transition L u e)) = ex_permits e" for u and e
    by (auto simp: ex_transition_eq log_action_def split: prod.splits)
  have "permits_inv ex' \<and> (out \<noteq> Pending \<longrightarrow> \<not> ex_permits ex')"
  proof (cases o1)
    case (Err e)
    with assms(3) r have "ex' = snd (ex_transition L (failed_update (stamp Q (ex_now (leave_run P e1))) e) (leave_run P e1))"
      by (simp add: start_task_def Let_def)
    then show ?thesis by (simp add: failed kept)
  qed (use assms(3) r e1 leave in \<open>auto simp: start_task_def Let_def\<close>)
  then show ?thesis by (simp add: permits_inv_def)
qed

text \<open>
  C4. Concurrency slots are free before the end of a task can be seen, and given back exactly once:
  in every execution of the coroutine, finished or not, whatever fails, each publication of a
  finished status comes after the release of the permits; they are never released twice, and a
  coroutine that has ended, also by a panic, has released them.
\<close>

theorem permits_released_before_end:
  assumes "ex_permits ex" and "ex_trace ex = []"
    and "start_task L Q E P rt rargs ex st = (out, ex', st')"
  shows "released_first (ex_trace ex') \<and>
    count_list (ex_trace ex') PermitsReleased = (if ex_permits ex' then 0 else 1) \<and>
    (out \<noteq> Pending \<longrightarrow> \<not> ex_permits ex')"
  by (rule start_task_permits [OF assms])

section \<open>How a coroutine ends\<close>

lemma seq_Ret:
  assumes "seq m k s = (Ret b, s')"
  obtains a s1 where "m s = (Ret a, s1)" and "k a s1 = (Ret b, s')"
  using assms by (auto simp: seq_def split: prod.splits outcome.splits)

lemma final_status_finished [simp]: "is_finished (final_status why st)"
  by (cases "(why, st)" rule: final_status.cases) auto

lemma final_update_fields [simp]:
  "status (final_update ts why st s) = final_status why st"
  "exit_code (final_update ts why st s) = exit_code_of st"
  "task_termination (final_update ts why st s) = task_termination s"
  "finished_at (final_update ts why st s) = Some ts"
  by (simp_all add: final_update_def Let_def)

lemma failed_update_finished [simp]: "is_finished (status (failed_update ts e s))"
  by (simp add: failed_update_def)

lemma run_task_Ret:
  assumes "run_task L Q E P rt rargs ex = (Ret (), ex')"
  obtains t d ex1 st why0 ex2 why ex3 ex4 ex5 where
    "launch L Q E P rt rargs ex = (Ret (t, d), ex1)"
    and "wait_for_end L Q P t rt d ex1 = (Ret (st, why0), ex2)"
    and "drain_tree L P t d why0 ex2 = (Ret why, ex3)"
    and "join_readers [0..<length (ex_readers ex3)] (close_control ex3) = (Ret (), ex4)"
    and "ex5 = release_permits ex4"
    and "ex_transition L (final_update (stamp Q (ex_now ex5)) why st) ex5 = (Ret (), ex')"
  using assms unfolding run_task_def conclude_def
  by (auto elim!: seq_Ret simp: do_exec_def split: prod.splits intro: that)

lemma transition_snapshot:
  "ex_transition L u ex = (out, ex') \<Longrightarrow>
     rec_snapshot (ex_record ex') = (u (rec_snapshot (ex_record ex)))\<lparr>output_truncated := rec_truncated (ex_record ex)\<rparr>
     \<and> rec_id (ex_record ex') = rec_id (ex_record ex) \<and> ex_permits ex' = ex_permits ex"
  by (auto simp: ex_transition_eq log_action_def split: prod.splits)

lemma start_task_finished:
  assumes "start_task L Q E P rt rargs ex st = (Ret (), ex', st')"
  shows "is_finished (status (rec_snapshot (ex_record ex'))) \<and> \<not> ex_permits ex' \<and>
    get st' (rec_id (ex_record ex')) = Some (ex_record ex') \<and>
    active_count st' = active_count st - 1 \<and> notifications st' = notifications st + 1"
proof -
  let ?ex = "ex\<lparr>ex_seen := length (stop_sent (ex_record ex))\<rparr>"
  obtain o1 e1 where r: "run_task L Q E P rt rargs ?ex = (o1, e1)" by fastforce
  show ?thesis
  proof (cases o1)
    case (Ret u)
    then have "run_task L Q E P rt rargs ?ex = (Ret (), e1)" using r by simp
    then have "is_finished (status (rec_snapshot (ex_record e1)))"
      by (rule run_task_Ret) (auto dest: transition_snapshot)
    with assms r Ret show ?thesis by (auto simp: start_task_def Let_def get_def mark_finished_def)
  next
    case (Err e)
    let ?u = "failed_update (stamp Q (ex_now (leave_run P e1))) e"
    obtain o2 e2 where t: "ex_transition L ?u (leave_run P e1) = (o2, e2)" by fastforce
    from transition_snapshot [OF t]
    have "is_finished (status (rec_snapshot (ex_record e2)))" "\<not> ex_permits e2" by simp_all
    with assms r Err t show ?thesis by (auto simp: start_task_def Let_def get_def mark_finished_def)
  qed (use assms r in \<open>auto simp: start_task_def Let_def\<close>)
qed

text \<open>
  C5. No task is left behind: whenever the coroutine of a task ends other than by a panic, whatever
  I/O, spawn, signal or pipe failed, the task has a finished status in memory, its permits are
  released, and it is no longer counted as active.
\<close>

theorem started_task_finishes:
  assumes "start_task L Q E P rt rargs ex st = (Ret (), ex', st')"
  shows "is_finished (status (rec_snapshot (ex_record ex'))) \<and> \<not> ex_permits ex' \<and>
    get st' (rec_id (ex_record ex')) = Some (ex_record ex') \<and>
    active_count st' = active_count st - 1 \<and> notifications st' = notifications st + 1"
  by (rule start_task_finished [OF assms])

section \<open>The recorded termination agrees with the final status\<close>

interpretation snapshots_stay: world_invariant "\<lambda>_ _. True" P "\<lambda>ex. rec_snapshot (ex_record ex) = s"
  for P :: "'t platform" and s
  by unfold_locales (use fold_absorb_record in auto)

lemma keeps_Ret: "keeps (\<lambda>ex. F ex = c) m \<Longrightarrow> m ex = (out, ex') \<Longrightarrow> F ex = c \<Longrightarrow> F ex' = c"
  unfolding keeps_def by (metis snd_conv)

lemma await_snapshot:
  "poll_only (\<lambda>_ _. True) p \<Longrightarrow> await p ex = (out, ex') \<Longrightarrow> rec_snapshot (ex_record ex') = rec_snapshot (ex_record ex)"
  using keeps_Ret [OF snapshots_stay.await_keeps, of p ex out ex'] by blast

lemma await_empty_snapshot:
  "await_empty P t ex = (out, ex') \<Longrightarrow> rec_snapshot (ex_record ex') = rec_snapshot (ex_record ex)"
  using keeps_Ret [OF snapshots_stay.await_empty_keeps, of P t ex out ex'] by blast

lemma await_child_snapshot:
  "await_child e ex = (out, ex') \<Longrightarrow> rec_snapshot (ex_record ex') = rec_snapshot (ex_record ex)"
  using keeps_Ret [OF snapshots_stay.await_child_keeps, of e ex out ex'] by blast

lemma join_readers_snapshot:
  "join_readers ks ex = (out, ex') \<Longrightarrow> rec_snapshot (ex_record ex') = rec_snapshot (ex_record ex)"
  using keeps_Ret [OF snapshots_stay.join_readers_keeps, of ks ex out ex'] by blast

lemma act_record: "act a ex = (out, ex') \<Longrightarrow> ex_record ex' = ex_record ex"
  by (auto simp: act_def log_action_def)

lemma sysop_record: "ex_sysop g ex = (out, ex') \<Longrightarrow> ex_record ex' = ex_record ex"
  by (auto simp: ex_sysop_def split: prod.splits)

definition ended_by :: "stop_reason \<Rightarrow> 't exec \<Rightarrow> bool" where
  "ended_by why ex \<longleftrightarrow>
     (\<exists>ti. task_termination (rec_snapshot (ex_record ex)) = Some ti \<and> reason ti = why \<and>
        (why = ForceKilled \<longrightarrow> forced ti))"

lemma ended_by_cong:
  "rec_snapshot (ex_record ex') = rec_snapshot (ex_record ex) \<Longrightarrow> ended_by why ex' = ended_by why ex"
  by (simp add: ended_by_def)

lemma force_stop_ended:
  assumes "force_stop_process L P t why b ws ex = (Ret st, ex')"
  shows "ended_by why ex'"
proof -
  from assms obtain ex1 ex2 ex3 where t: "ex_transition L (force_update P why b) ex = (Ret (), ex1)"
    and s: "ex_sysop (tree_force P t) ex1 = (Ret (), ex2)"
    and c: "(case ws of Some s \<Rightarrow> ret s | None \<Rightarrow> await_child WorkerForcedWait) ex2 = (Ret st, ex3)"
    and e: "await_empty P t ex3 = (Ret (), ex')"
    unfolding force_stop_process_def by (auto elim!: seq_Ret simp: ret_def)
  have "rec_snapshot (ex_record ex3) = rec_snapshot (ex_record ex2)"
    using c await_child_snapshot [of WorkerForcedWait ex2] by (cases ws) (auto simp: ret_def)
  then have "rec_snapshot (ex_record ex') = rec_snapshot (ex_record ex1)"
    using await_empty_snapshot [OF e] sysop_record [OF s] by simp
  with transition_snapshot [OF t] show ?thesis by (simp add: ended_by_def force_update_def)
qed

lemma forced_end_ended: "forced_end_of L P t why b ws ex = (Ret (st, why'), ex') \<Longrightarrow> why' = why \<and> ended_by why ex'"
  unfolding forced_end_of_def by (auto elim!: seq_Ret simp: ret_def dest: force_stop_ended)

lemma await_tree_grace_ended:
  assumes "await_tree_grace L P t why gd s ex = (Ret (st, why'), ex')" and "ended_by why ex"
  shows "ended_by why' ex' \<and> (why' = why \<or> why' = ForceKilled)"
proof -
  from assms(1) obtain g ex1 where g: "await (grace_select (poll_tree P t) gd) ex = (Ret g, ex1)"
    and rest: "(case g of
                  GForce \<Rightarrow> forced_end_of L P t ForceKilled True (Some s)
                | GTimeout \<Rightarrow> forced_end_of L P t why True (Some s)
                | GDone (Inl e) \<Rightarrow> (\<lambda>ex. (Err e, ex))
                | GDone (Inr _) \<Rightarrow> ret (s, why)) ex1 = (Ret (st, why'), ex')"
    unfolding await_tree_grace_def by (auto elim!: seq_Ret)
  have "ended_by why ex1"
    using assms(2) await_snapshot [OF any_calls.poll_only_grace [OF any_calls.poll_only_tree] g]
    by (simp add: ended_by_def)
  with rest show ?thesis
    by (auto split: grace.splits sum.splits simp: ret_def dest!: forced_end_ended)
qed

lemma await_worker_grace_ended:
  assumes "await_worker_grace L P t why gd ex = (Ret (st, why'), ex')" and "ended_by why ex"
  shows "ended_by why' ex' \<and> (why' = why \<or> why' = ForceKilled)"
proof -
  from assms(1) obtain g ex1 where g: "await (grace_select (\<lambda>ex. (ex_child ex, ex)) gd) ex = (Ret g, ex1)"
    and rest: "(case g of
            GForce \<Rightarrow> forced_end_of L P t ForceKilled True None
          | GTimeout \<Rightarrow> forced_end_of L P t why True None
          | GDone None \<Rightarrow> fail WorkerGracefulWait
          | GDone (Some s) \<Rightarrow> await_tree_grace L P t why gd s) ex1 = (Ret (st, why'), ex')"
    unfolding await_worker_grace_def by (auto elim!: seq_Ret)
  have "ended_by why ex1"
    using assms(2) await_snapshot [OF any_calls.poll_only_grace [OF any_calls.poll_only_pure] g]
    by (simp add: ended_by_def)
  with rest show ?thesis
    by (auto split: grace.splits option.splits simp: fail_def dest!: forced_end_ended await_tree_grace_ended)
qed

lemma stop_process_ended:
  assumes "stop_process L Q P t rt why ex = (Ret (st, why'), ex')"
  shows "ended_by why' ex' \<and> (why' = why \<or> why' = ForceKilled)"
proof (cases "why = ForceKilled")
  case True
  with assms show ?thesis by (auto simp: stop_process_def dest!: forced_end_ended)
next
  case False
  from assms False obtain ex1 ex2 ex3 gd ex4 where
    t: "ex_transition L (graceful_update P (r_graceful_shutdown_seconds rt) why) ex = (Ret (), ex1)"
    and c: "act (ControlWritten (''terminate'' @ [LF])) ex1 = (Ret (), ex2)"
    and s: "ex_sysop (tree_graceful P t) ex2 = (Ret (), ex3)"
    and d: "deadline_in Q (r_graceful_shutdown_seconds rt) ex3 = (Ret gd, ex4)"
    and rest: "await_worker_grace L P t why gd ex4 = (Ret (st, why'), ex')"
    unfolding stop_process_def by (auto elim!: seq_Ret)
  have "ex4 = ex3" using d by (auto simp: deadline_in_def split: option.splits)
  moreover have "ended_by why ex1" using transition_snapshot [OF t] False by (simp add: ended_by_def graceful_update_def)
  ultimately have "ended_by why ex4" using act_record [OF c] sysop_record [OF s] by (simp add: ended_by_def)
  from await_worker_grace_ended [OF rest this] show ?thesis .
qed

lemma wait_for_end_ended:
  assumes "wait_for_end L Q P t rt d ex = (Ret (st, why), ex')"
  shows "case why of None \<Rightarrow> rec_snapshot (ex_record ex') = rec_snapshot (ex_record ex)
           | Some w \<Rightarrow> ended_by w ex'"
proof -
  from assms obtain b ex1 where b: "await (poll_main d) ex = (Ret b, ex1)"
    and rest: "(case b of
         MChild None \<Rightarrow> fail WorkerWait
       | MChild (Some s) \<Rightarrow> ret (s, None)
       | MDeadline \<Rightarrow> seq (stop_process L Q P t rt Timeout) (\<lambda>(s, why). ret (s, Some why))
       | MStop why \<Rightarrow> seq (stop_process L Q P t rt why) (\<lambda>(s, why'). ret (s, Some why'))) ex1 = (Ret (st, why), ex')"
    unfolding wait_for_end_def by (auto elim!: seq_Ret)
  note same = await_snapshot [OF any_calls.poll_only_main b]
  show ?thesis
    using rest same
    by (cases b) (auto split: option.splits elim!: seq_Ret simp: ret_def fail_def dest!: stop_process_ended)
qed

lemma drain_tree_ended:
  assumes "drain_tree L P t d why0 ex = (Ret why, ex')"
    and "case why0 of None \<Rightarrow> rec_snapshot (ex_record ex) = s | Some w \<Rightarrow> ended_by w ex"
  shows "case why of None \<Rightarrow> rec_snapshot (ex_record ex') = s | Some w \<Rightarrow> ended_by w ex'"
proof (cases why0)
  case (Some w)
  with assms show ?thesis
    by (auto simp: drain_tree_def ret_def elim!: seq_Ret dest!: await_empty_snapshot ended_by_cong)
next
  case None
  with assms(1) obtain res ex1 where a: "await (poll_tree_until P t (max d (ex_now ex))) ex = (Ret res, ex1)"
    and rest: "(case res of
              Some _ \<Rightarrow> ret None
            | None \<Rightarrow>
                seq (ex_sysop (tree_force P t)) (\<lambda>_.
                seq (ex_transition L (descendants_update P)) (\<lambda>_.
                seq (await_empty P t) (\<lambda>_. ret (Some Timeout))))) ex1 = (Ret why, ex')"
    by (auto simp: drain_tree_def elim!: seq_Ret)
  note same = await_snapshot [OF any_calls.poll_only_tree_until a]
  show ?thesis
  proof (cases res)
    case (Some r)
    with rest same None assms(2) show ?thesis by (auto simp: ret_def)
  next
    case None
    with rest obtain ex2 ex3 where "ex_transition L (descendants_update P) ex2 = (Ret (), ex3)"
      "await_empty P t ex3 = (Ret (), ex')" "why = Some Timeout"
      by (auto simp: ret_def elim!: seq_Ret)
    then show ?thesis
      using transition_snapshot await_empty_snapshot
      by (fastforce simp: ended_by_def descendants_update_def)
  qed
qed

lemma launch_termination:
  assumes "launch L Q E P rt rargs ex = (out, ex')"
  shows "task_termination (rec_snapshot (ex_record ex')) = task_termination (rec_snapshot (ex_record ex))"
proof -
  let ?I = "\<lambda>e. task_termination (rec_snapshot (ex_record e)) = task_termination (rec_snapshot (ex_record ex))"
  have "keeps ?I (start_readers ok n rs)" for ok n rs
    unfolding keeps_def using start_readers_frame by (metis prod.collapse)
  moreover have "keeps ?I (set_tree t)" for t by (simp add: keeps_def set_tree_def)
  moreover have "keeps ?I (spawn_worker E P)"
    by (auto simp: keeps_def spawn_worker_def log_action_def split: option.splits)
  moreover have "keeps ?I (ex_sysop g)" for g :: "sys \<Rightarrow> (error + 'b) \<times> sys"
    unfolding keeps_def using sysop_record by (metis prod.collapse)
  moreover have "keeps ?I (\<lambda>e. ex_transition L (start_update (stamp Q (ex_now e))) e)"
    unfolding keeps_def by (auto simp: ex_transition_eq log_action_def start_update_def split: prod.splits)
  moreover have "keeps ?I (act a)" for a by (simp add: keeps_def act_def log_action_def)
  ultimately have "keeps ?I (launch L Q E P rt rargs)"
    unfolding launch_def start_capture_def by (auto intro!: step_intros split: option.split)
  with assms show ?thesis unfolding keeps_def by (metis snd_conv)
qed

section \<open>The exit status of the worker\<close>

lemma absorb_child: "ex_child ex \<noteq> None \<Longrightarrow> ex_child (absorb e ex) = ex_child ex"
  by (cases e) (auto split: prod.splits)

lemma fold_absorb_child: "ex_child ex \<noteq> None \<Longrightarrow> ex_child (fold absorb b ex) = ex_child ex"
proof (induction b arbitrary: ex)
  case (Cons e b)
  have "ex_child (absorb e ex) = ex_child ex" using Cons.prems by (rule absorb_child)
  with Cons.IH [of "absorb e ex"] Cons.prems show ?case by simp
qed simp

interpretation child_known: coroutine_invariant P "\<lambda>ex. ex_child ex = Some c" L for P :: "'t platform" and c L
  by unfold_locales (auto simp: fold_absorb_child ex_transition_eq log_action_def split: prod.split)

lemma await_loop_Ret: "await_loop bs p ex = (Ret a, ex') \<Longrightarrow> \<exists>e e' w. p e = (Some a, e') \<and> ex' = e'\<lparr>ex_wakes := w\<rparr>"
  by (induction bs p ex rule: await_loop.induct) (auto split: prod.splits option.splits)

lemma await_Ret:
  assumes "await p ex = (Ret a, ex')"
  obtains e e' w where "p e = (Some a, e')" and "ex' = e'\<lparr>ex_wakes := w\<rparr>"
  using await_loop_Ret [OF assms [unfolded await_def]] by blast

lemma next_pick_child: "next_pick ex = (p, ex') \<Longrightarrow> ex_child ex' = ex_child ex"
  by (auto simp: next_pick_def split: list.splits)

lemma grace_select_child:
  "grace_select (\<lambda>ex. (ex_child ex, ex)) gd e = (Some (GDone a), e') \<Longrightarrow> ex_child e' = Some a"
  by (auto simp: grace_select_def mark_seen_def Let_def split: prod.splits if_splits option.splits)

lemma main_ready_child: "MChild st \<in> set (main_ready d e) \<longleftrightarrow> ex_child e = Some st"
  unfolding main_ready_def set_append Un_iff by (split option.split if_split)+ auto

lemma poll_main_child:
  assumes "poll_main d e = (Some (MChild st), e')"
  shows "ex_child e' = Some st"
proof -
  from assms obtain p where r: "main_ready d e \<noteq> []" and p: "next_pick e = (p, e')"
    and m: "main_ready d e ! (p mod length (main_ready d e)) = MChild st"
    by (auto simp: poll_main_def pick_ready_def split: prod.splits option.splits main_branch.splits if_splits)
  have "p mod length (main_ready d e) < length (main_ready d e)" using r by (intro mod_less_divisor) simp
  from nth_mem [OF this] m have "MChild st \<in> set (main_ready d e)" by simp
  then have "ex_child e = Some st" by (simp add: main_ready_child)
  with next_pick_child [OF p] show ?thesis by simp
qed

lemma await_child_known: "await_child x ex = (Ret st, ex') \<Longrightarrow> ex_child ex' = Some (Some st)"
  unfolding await_child_def
  by (auto elim!: seq_Ret await_Ret simp: fail_def ret_def split: option.splits)

lemma force_stop_child:
  assumes "force_stop_process L P t why b ws ex = (Ret st, ex')" and "\<forall>s. ws = Some s \<longrightarrow> ex_child ex = Some (Some s)"
  shows "ex_child ex' = Some (Some st)"
proof -
  from assms(1) obtain ex1 ex2 ex3 where t: "ex_transition L (force_update P why b) ex = (Ret (), ex1)"
    and s: "ex_sysop (tree_force P t) ex1 = (Ret (), ex2)"
    and c: "(case ws of Some s \<Rightarrow> ret s | None \<Rightarrow> await_child WorkerForcedWait) ex2 = (Ret st, ex3)"
    and e: "await_empty P t ex3 = (Ret (), ex')"
    unfolding force_stop_process_def by (auto elim!: seq_Ret simp: ret_def)
  have "ex_child ex2 = ex_child ex"
    using t s by (auto simp: ex_transition_eq log_action_def ex_sysop_def split: prod.splits)
  then have "ex_child ex3 = Some (Some st)"
    using c assms(2) await_child_known [of WorkerForcedWait ex2] by (cases ws) (auto simp: ret_def)
  with keeps_Ret [OF child_known.await_empty_keeps e] show ?thesis by blast
qed

lemma forced_end_child:
  "forced_end_of L P t why b ws ex = (Ret (st, why'), ex') \<Longrightarrow> \<forall>s. ws = Some s \<longrightarrow> ex_child ex = Some (Some s) \<Longrightarrow>
     ex_child ex' = Some (Some st)"
  unfolding forced_end_of_def by (auto elim!: seq_Ret simp: ret_def dest: force_stop_child)

lemma await_tree_grace_child:
  assumes "await_tree_grace L P t why gd s ex = (Ret (st, why'), ex')" and "ex_child ex = Some (Some s)"
  shows "ex_child ex' = Some (Some st)"
proof -
  from assms(1) obtain g ex1 where g: "await (grace_select (poll_tree P t) gd) ex = (Ret g, ex1)"
    and rest: "(case g of
                  GForce \<Rightarrow> forced_end_of L P t ForceKilled True (Some s)
                | GTimeout \<Rightarrow> forced_end_of L P t why True (Some s)
                | GDone (Inl e) \<Rightarrow> (\<lambda>ex. (Err e, ex))
                | GDone (Inr _) \<Rightarrow> ret (s, why)) ex1 = (Ret (st, why'), ex')"
    unfolding await_tree_grace_def by (auto elim!: seq_Ret)
  have "ex_child ex1 = Some (Some s)"
    using keeps_Ret [OF child_known.await_keeps [OF any_calls.poll_only_grace [OF any_calls.poll_only_tree]] g assms(2)] .
  with rest show ?thesis by (auto split: grace.splits sum.splits simp: ret_def dest: forced_end_child)
qed

lemma stop_process_child:
  assumes "stop_process L Q P t rt why ex = (Ret (st, why'), ex')"
  shows "ex_child ex' = Some (Some st)"
proof (cases "why = ForceKilled")
  case True
  with assms show ?thesis by (auto simp: stop_process_def dest: forced_end_child)
next
  case False
  with assms obtain gd ex4 where "await_worker_grace L P t why gd ex4 = (Ret (st, why'), ex')"
    unfolding stop_process_def by (auto elim!: seq_Ret)
  then obtain g ex1 where g: "await (grace_select (\<lambda>ex. (ex_child ex, ex)) gd) ex4 = (Ret g, ex1)"
    and rest: "(case g of
            GForce \<Rightarrow> forced_end_of L P t ForceKilled True None
          | GTimeout \<Rightarrow> forced_end_of L P t why True None
          | GDone None \<Rightarrow> fail WorkerGracefulWait
          | GDone (Some s) \<Rightarrow> await_tree_grace L P t why gd s) ex1 = (Ret (st, why'), ex')"
    unfolding await_worker_grace_def by (auto elim!: seq_Ret)
  have "ex_child ex1 = Some a" if "g = GDone a" for a
    using g that grace_select_child by (auto elim!: await_Ret)
  with rest show ?thesis
    by (auto split: grace.splits option.splits simp: fail_def dest: forced_end_child await_tree_grace_child)
qed

lemma wait_for_end_child:
  assumes "wait_for_end L Q P t rt d ex = (Ret (st, why), ex')"
  shows "ex_child ex' = Some (Some st)"
proof -
  from assms obtain b ex1 where b: "await (poll_main d) ex = (Ret b, ex1)"
    and rest: "(case b of
         MChild None \<Rightarrow> fail WorkerWait
       | MChild (Some s) \<Rightarrow> ret (s, None)
       | MDeadline \<Rightarrow> seq (stop_process L Q P t rt Timeout) (\<lambda>(s, why). ret (s, Some why))
       | MStop why \<Rightarrow> seq (stop_process L Q P t rt why) (\<lambda>(s, why'). ret (s, Some why'))) ex1 = (Ret (st, why), ex')"
    unfolding wait_for_end_def by (auto elim!: seq_Ret)
  have "ex_child ex1 = Some c" if "b = MChild c" for c
    using b that poll_main_child by (auto elim!: await_Ret)
  with rest show ?thesis
    by (cases b) (auto split: option.splits elim!: seq_Ret simp: ret_def fail_def dest: stop_process_child)
qed

text \<open>The status that the documentation gives for each reason of a stop.\<close>

definition documented_status :: "stop_reason \<Rightarrow> task_status" where
  "documented_status why =
     (if why = Timeout then TimedOut
      else if why = CancelledReason then Cancelled
      else if why = ForceKilled then Killed
      else if why = LoggingFailure then Failed
      else Interrupted)"

text \<open>
  C24. What clients read agrees: when the coroutine of a task returns normally, its exit code is that
  of the worker's exit status, as the system reported it (none after a signal). Without termination
  information the task succeeded exactly when that status is the exit code 0, and failed otherwise; with
  termination information it is timed out, cancelled, killed, failed or interrupted according to
  the recorded reason, whatever the exit code, and a force-killed task is recorded as forced.
\<close>

theorem final_status_matches_termination:
  assumes "run_task L Q E P rt rargs ex = (Ret (), ex')"
    and "task_termination (rec_snapshot (ex_record ex)) = None"
  shows "\<exists>st. ex_child ex' = Some (Some st) \<and>
    (let s = rec_snapshot (ex_record ex') in
      exit_code s = (case st of ExitCode n \<Rightarrow> Some n | ExitSignal _ \<Rightarrow> None) \<and>
      (case task_termination s of
         None \<Rightarrow> status s = (if st = ExitCode 0 then Succeeded else Failed)
       | Some ti \<Rightarrow> status s = documented_status (reason ti) \<and> (reason ti = ForceKilled \<longrightarrow> forced ti)))"
  using assms(1)
proof (rule run_task_Ret)
  fix t d ex1 st why0 ex2 why ex3 ex4 ex5
  assume l: "launch L Q E P rt rargs ex = (Ret (t, d), ex1)"
    and w: "wait_for_end L Q P t rt d ex1 = (Ret (st, why0), ex2)"
    and dr: "drain_tree L P t d why0 ex2 = (Ret why, ex3)"
    and j: "join_readers [0..<length (ex_readers ex3)] (close_control ex3) = (Ret (), ex4)"
    and e5: "ex5 = release_permits ex4"
    and f: "ex_transition L (final_update (stamp Q (ex_now ex5)) why st) ex5 = (Ret (), ex')"
  have none: "task_termination (rec_snapshot (ex_record ex1)) = None"
    using launch_termination [OF l] assms(2) by simp
  have ended: "case why of None \<Rightarrow> rec_snapshot (ex_record ex3) = rec_snapshot (ex_record ex1) | Some w \<Rightarrow> ended_by w ex3"
    using drain_tree_ended [OF dr wait_for_end_ended [OF w]] .
  have same: "rec_snapshot (ex_record ex5) = rec_snapshot (ex_record ex3)"
    using join_readers_snapshot [OF j] by (simp add: e5)
  have "ex_child (close_control ex3) = Some (Some st)"
    using keeps_Ret [OF child_known.drain_tree_keeps dr wait_for_end_child [OF w]] by (simp add: close_control_def log_action_def)
  from keeps_Ret [OF child_known.join_readers_keeps j this] have child: "ex_child ex' = Some (Some st)"
    using f by (auto simp: e5 release_permits_def ex_transition_eq log_action_def split: prod.splits if_splits)
  have doc: "final_status (Some r) st1 = documented_status r" for r st1 by (cases r) (simp_all add: documented_status_def)
  have code: "exit_code_of st = (case st of ExitCode n \<Rightarrow> Some n | ExitSignal _ \<Rightarrow> None)" by (cases st) simp_all
  show ?thesis
    using transition_snapshot [OF f] ended same none child
    by (intro exI [of _ st]) (cases why; auto simp: Let_def ended_by_def code doc exit_success_def)
qed

section \<open>A concrete task\<close>

definition demo_proc_lib :: proc_lib where
  "demo_proc_lib = \<lparr>spec_to_json = (\<lambda>_. Some ''{}''), spec_from_json = (\<lambda>_. None), stamp = (\<lambda>_. ''t''),
     instant_max = 100 * nanos_per_sec\<rparr>"

definition demo_start :: start_env where
  "demo_start = \<lparr>pipes_ok = (\<lambda>_. True), clones_ok = (\<lambda>_. True), exe_ok = True,
     spawned = Some \<lparr>child_id = Some 7, child_handle = Some 3\<rparr>, stdin_ok = True,
     init_write_ok = True, init_flush_ok = True\<rparr>"

definition demo_wakes :: "env_event list list" where
  "demo_wakes = [[WorkerExits (Some (ExitCode 0)), ReaderStep 0 (ReadBytes []), ReaderStep 1 (ReadBytes [])]]"

definition demo_exec :: "env_event list list \<Rightarrow> 't exec" where
  "demo_exec wakes = \<lparr>ex_record = demo_record, ex_fs = demo_fs [] (\<lambda>_. None), ex_now = 0, ex_seen = 0,
     ex_child = None, ex_readers = [], ex_limit = 100,
     ex_sys = \<lparr>sys_log = [], sys_replies = (\<lambda>_. Success 0), sys_count = 0\<rparr>,
     ex_tree = None, ex_control = False, ex_permits = True, ex_wakes = wakes, ex_picks = [], ex_trace = []\<rparr>"

lemmas demo_exec_defs = init_line_def demo_proc_lib_def demo_start_def demo_exec_def

text \<open>Writes that never fail.\<close>

lemma demo_transition:
  assumes "fs_fault f = (\<lambda>_. None)"
  obtains f' where "transition demo_store_lib u r f = (update_snapshot u r, f', Inr ())" and "fs_fault f' = (\<lambda>_. None)"
  using assms
  by (simp add: transition_def Let_def persist_def demo_store_lib_def demo_to_json_def fs_append_def fs_next_fault_def)

definition demo_running :: "env_event list list \<Rightarrow> fs \<Rightarrow> unix_tree exec" where
  "demo_running wakes f = (demo_exec wakes)
     \<lparr>ex_record := update_snapshot (start_update ''t'') demo_record, ex_fs := f,
      ex_readers := [\<lparr>rd_stream = Stdout, rd_open = False, rd_end = None\<rparr>, \<lparr>rd_stream = Stderr, rd_open = False, rd_end = None\<rparr>],
      ex_tree := Some \<lparr>tree_pid = Some 7\<rparr>, ex_control := True,
      ex_trace := [Spawned ProcessGroupZero, ControlWritten (''{}'' @ [LF]), Published Running]\<rparr>"

lemma demo_launch:
  obtains f where "launch demo_store_lib demo_proc_lib demo_start (unix_platform 7) demo_resolved_route [] (demo_exec wakes) =
     (Ret (\<lparr>tree_pid = Some 7\<rparr>, 10 * nanos_per_sec), demo_running wakes f)" and "fs_fault f = (\<lambda>_. None)"
proof -
  obtain f where f: "transition demo_store_lib (start_update ''t'') demo_record (demo_fs [] (\<lambda>_. None)) =
      (update_snapshot (start_update ''t'') demo_record, f, Inr ())" "fs_fault f = (\<lambda>_. None)"
    by (rule demo_transition [of "demo_fs [] (\<lambda>_. None)"]) (simp_all add: demo_fs_def)
  have s: "status (start_update ts x) = Running" for ts x by (simp add: start_update_def)
  have "launch demo_store_lib demo_proc_lib demo_start (unix_platform 7) demo_resolved_route [] (demo_exec wakes) =
     (Ret (\<lparr>tree_pid = Some 7\<rparr>, 10 * nanos_per_sec), demo_running wakes f)"
    unfolding launch_def start_capture_def
    by (simp add: seq_def demo_exec_defs demo_resolved_route_def route_mode_def ensure_def
        ex_sysop_def set_tree_def spawn_worker_def act_def log_action_def ret_def deadline_in_def
        instant_add_secs_def unix_platform_def unix_new_def unix_attach_def ex_transition_def f s demo_running_def)
  with f(2) that show ?thesis by blast
qed

text \<open>A reader at the end of its pipe.\<close>

lemma demo_reader:
  assumes "fs_fault f = (\<lambda>_. None)" and "rd_end rd = None"
  obtains f' where "step_reader limit rd (ReadBytes []) r f =
      (rd\<lparr>rd_open := True, rd_end := Some (Joined (Inr ()))\<rparr>, r, f')" and "fs_fault f' = (\<lambda>_. None)"
proof -
  have "\<exists>f'. step_reader limit rd (ReadBytes []) r f =
      (rd\<lparr>rd_open := True, rd_end := Some (Joined (Inr ()))\<rparr>, r, f') \<and> fs_fault f' = (\<lambda>_. None)"
    using assms by (auto simp: step_reader_def copy_open_def fs_append_def fs_next_fault_def)
  with that show ?thesis by blast
qed

definition demo_ended :: "env_event list list \<Rightarrow> fs \<Rightarrow> unix_tree exec" where
  "demo_ended wakes f = (demo_running wakes f)\<lparr>ex_child := Some (Some (ExitCode 0)),
     ex_readers := [\<lparr>rd_stream = Stdout, rd_open = True, rd_end = Some (Joined (Inr ()))\<rparr>,
                    \<lparr>rd_stream = Stderr, rd_open = True, rd_end = Some (Joined (Inr ()))\<rparr>]\<rparr>"

lemma demo_batch:
  assumes "fs_fault f = (\<lambda>_. None)"
  obtains f' where "fold absorb (hd demo_wakes) (demo_running wakes f) = demo_ended wakes f'" and "fs_fault f' = (\<lambda>_. None)"
proof -
  let ?rd = "\<lambda>x. \<lparr>rd_stream = x, rd_open = False, rd_end = None\<rparr> :: reader"
  obtain f1 where f1: "step_reader 100 (?rd Stdout) (ReadBytes []) (update_snapshot (start_update ''t'') demo_record) f =
      ((?rd Stdout)\<lparr>rd_open := True, rd_end := Some (Joined (Inr ()))\<rparr>, update_snapshot (start_update ''t'') demo_record, f1)" "fs_fault f1 = (\<lambda>_. None)"
    by (rule demo_reader [OF assms, of "?rd Stdout"]) simp_all
  obtain f2 where f2: "step_reader 100 (?rd Stderr) (ReadBytes []) (update_snapshot (start_update ''t'') demo_record) f1 =
      ((?rd Stderr)\<lparr>rd_open := True, rd_end := Some (Joined (Inr ()))\<rparr>, update_snapshot (start_update ''t'') demo_record, f2)" "fs_fault f2 = (\<lambda>_. None)"
    by (rule demo_reader [OF f1(2), of "?rd Stderr"]) simp_all
  have "fold absorb (hd demo_wakes) (demo_running wakes f) = demo_ended wakes f2"
    using f1(1) f2(1) by (simp add: demo_wakes_def demo_running_def demo_exec_def demo_ended_def)
  with f2(2) that show ?thesis by blast
qed

lemma demo_seen:
  "ex_seen (demo_running w f) = 0" "ex_child (demo_running w f) = None" "ex_now (demo_running w f) = 0"
  "length (stop_sent (ex_record (demo_running w f))) = 0" "ex_wakes (demo_running w f) = w"
  "ex_picks (demo_running w f) = []" "ex_child (demo_ended w f) = Some (Some (ExitCode 0))"
  "ex_picks (demo_ended w f) = []" "ex_now (demo_ended w f) = 0" "ex_seen (demo_ended w f) = 0"
  "length (stop_sent (ex_record (demo_ended w f))) = 0" "ex_fs (demo_ended w f) = f"
  "task_termination (rec_snapshot (ex_record (demo_ended w f))) = None" "ex_wakes (demo_ended w f) = w"
  "ex_readers (demo_ended w f) = [\<lparr>rd_stream = Stdout, rd_open = True, rd_end = Some (Joined (Inr ()))\<rparr>,
                    \<lparr>rd_stream = Stderr, rd_open = True, rd_end = Some (Joined (Inr ()))\<rparr>]"
  by (simp_all add: demo_running_def demo_ended_def demo_exec_def demo_record_def record_new_def update_snapshot_def
      start_update_def demo_snapshot_def initial_snapshot_def)

lemma demo_wait:
  assumes "fs_fault f = (\<lambda>_. None)"
  obtains f' where "wait_for_end L Q P t rt (10 * nanos_per_sec) (demo_running demo_wakes f) =
      (Ret (ExitCode 0, None), demo_ended [] f')" and "fs_fault f' = (\<lambda>_. None)"
proof -
  obtain f' where b: "fold absorb (hd demo_wakes) (demo_running demo_wakes f) = demo_ended demo_wakes f'"
    and f': "fs_fault f' = (\<lambda>_. None)" by (rule demo_batch [OF assms])
  have 1: "poll_main (10 * nanos_per_sec) (demo_running w f) = (None, demo_running w f)" for w
    by (simp add: poll_main_def main_ready_def pick_ready_def demo_seen nanos_per_sec_def)
  have 2: "poll_main (10 * nanos_per_sec) (demo_ended w f') = (Some (MChild (Some (ExitCode 0))), demo_ended w f')" for w
    by (simp add: poll_main_def main_ready_def pick_ready_def next_pick_def demo_seen nanos_per_sec_def)
  have "(demo_ended demo_wakes f')\<lparr>ex_wakes := []\<rparr> = demo_ended [] f'"
    by (simp add: demo_ended_def demo_running_def demo_exec_def)
  moreover have "await_loop [hd demo_wakes] (poll_main (10 * nanos_per_sec)) (demo_running demo_wakes f) =
      (Ret (MChild (Some (ExitCode 0))), (demo_ended demo_wakes f')\<lparr>ex_wakes := []\<rparr>)"
    by (simp add: 1 2 b)
  moreover have "demo_wakes = [hd demo_wakes]" by (simp add: demo_wakes_def)
  ultimately have "await (poll_main (10 * nanos_per_sec)) (demo_running demo_wakes f) =
      (Ret (MChild (Some (ExitCode 0))), demo_ended [] f')"
    unfolding await_def demo_seen(5) by metis
  then have "wait_for_end L Q P t rt (10 * nanos_per_sec) (demo_running demo_wakes f) = (Ret (ExitCode 0, None), demo_ended [] f')"
    by (simp add: wait_for_end_def seq_def ret_def)
  with f' that show ?thesis by blast
qed

lemma demo_run:
  obtains ex' where "run_task demo_store_lib demo_proc_lib demo_start (unix_platform 7) demo_resolved_route []
     (demo_exec demo_wakes) = (Ret (), ex')"
    and "task_termination (rec_snapshot (ex_record ex')) = None"
    and "exit_code (rec_snapshot (ex_record ex')) = Some 0"
proof -
  let ?t = "\<lparr>tree_pid = Some 7\<rparr>" and ?P = "unix_platform 7"
  obtain f where l: "launch demo_store_lib demo_proc_lib demo_start ?P demo_resolved_route [] (demo_exec demo_wakes) =
     (Ret (?t, 10 * nanos_per_sec), demo_running demo_wakes f)" and f: "fs_fault f = (\<lambda>_. None)"
    by (rule demo_launch)
  obtain f' where w: "wait_for_end demo_store_lib demo_proc_lib ?P ?t demo_resolved_route (10 * nanos_per_sec) (demo_running demo_wakes f) =
      (Ret (ExitCode 0, None), demo_ended [] f')" and f': "fs_fault f' = (\<lambda>_. None)"
    by (rule demo_wait [OF f])
  have d: "drain_tree demo_store_lib ?P ?t (10 * nanos_per_sec) None (demo_ended [] f') = (Ret None, demo_ended [] f')"
    by (simp add: drain_tree_def seq_def await_def poll_tree_until_def poll_tree_def unix_platform_def
        unix_poll_empty_def ret_def demo_ended_def demo_running_def demo_exec_def)
  define e where "e = release_permits (close_control (demo_ended [] f'))"
  have j: "join_readers [0..<length (ex_readers (demo_ended [] f'))] (close_control (demo_ended [] f')) =
      (Ret (), close_control (demo_ended [] f'))"
    by (simp add: await_def seq_def demo_seen upt_rec)
  obtain f'' where t: "transition demo_store_lib (final_update ''t'' None (ExitCode 0)) (ex_record e) (ex_fs e) =
      (update_snapshot (final_update ''t'' None (ExitCode 0)) (ex_record e), f'', Inr ())"
    by (rule demo_transition [of "ex_fs e"]) (simp_all add: e_def f' demo_seen)
  define ex where "ex = snd (ex_transition demo_store_lib (final_update ''t'' None (ExitCode 0)) e)"
  have x: "ex_transition demo_store_lib (final_update ''t'' None (ExitCode 0)) e = (Ret (), ex)"
    by (simp add: ex_def ex_transition_def t)
  have stamp: "stamp demo_proc_lib n = ''t''" for n by (simp add: demo_proc_lib_def)
  have "run_task demo_store_lib demo_proc_lib demo_start ?P demo_resolved_route [] (demo_exec demo_wakes) = (Ret (), ex)"
    unfolding run_task_def conclude_def
    by (simp add: seq_def l w d j do_exec_def x stamp flip: e_def)
  moreover have "task_termination (rec_snapshot (ex_record ex)) = None" "exit_code (rec_snapshot (ex_record ex)) = Some 0"
    by (simp_all add: ex_def ex_transition_def t log_action_def update_snapshot_def) (simp add: e_def demo_seen)
  ultimately show ?thesis using that by blast
qed

lemma demo_exec_simps [simp]:
  "ex_permits (demo_exec w)" "ex_trace (demo_exec w) = []" "ex_readers (demo_exec w) = []"
  "ex_wakes (demo_exec w) = w" "ex_record (demo_exec w) = demo_record" "ex_now (demo_exec w) = 0"
  "ex_seen (demo_exec w) = 0" "stop_sent demo_record = []" "(demo_exec w)\<lparr>ex_seen := 0\<rparr> = demo_exec w"
  "rec_snapshot demo_record = demo_snapshot Starting" "status (demo_snapshot x) = x"
  "task_termination (demo_snapshot x) = None"
  by (simp_all add: demo_exec_def demo_record_def record_new_def demo_snapshot_def initial_snapshot_def)

theorem permits_released_before_end_witness:
  "\<exists>ex' st'. start_task demo_store_lib demo_proc_lib demo_start (unix_platform 7)
     demo_resolved_route [] (demo_exec demo_wakes) (demo_store demo_record) = (Ret (), ex', st') \<and>
     released_first (ex_trace ex') \<and> count_list (ex_trace ex') PermitsReleased = 1"
proof -
  obtain e where "run_task demo_store_lib demo_proc_lib demo_start (unix_platform 7) demo_resolved_route []
     (demo_exec demo_wakes) = (Ret (), e)" by (rule demo_run)
  then obtain ex' st' where s: "start_task demo_store_lib demo_proc_lib demo_start (unix_platform 7)
     demo_resolved_route [] (demo_exec demo_wakes) (demo_store demo_record) = (Ret (), ex', st')"
    by (simp add: start_task_def Let_def)
  from permits_released_before_end [OF _ _ s] s show ?thesis by auto
qed

theorem started_task_finishes_witness:
  "\<exists>ex' st'. start_task demo_store_lib demo_proc_lib demo_start (unix_platform 7)
     demo_resolved_route [] (demo_exec demo_wakes) (demo_store demo_record) = (Ret (), ex', st') \<and>
     is_finished (status (rec_snapshot (ex_record ex'))) \<and> active_count st' = 0"
proof -
  obtain e where "run_task demo_store_lib demo_proc_lib demo_start (unix_platform 7) demo_resolved_route []
     (demo_exec demo_wakes) = (Ret (), e)" by (rule demo_run)
  then obtain ex' st' where s: "start_task demo_store_lib demo_proc_lib demo_start (unix_platform 7)
     demo_resolved_route [] (demo_exec demo_wakes) (demo_store demo_record) = (Ret (), ex', st')"
    by (simp add: start_task_def Let_def)
  from started_task_finishes [OF s] show ?thesis
    by (intro exI [of _ ex'] exI [of _ st'] conjI s) (simp_all add: demo_store_def)
qed

theorem final_status_matches_termination_witness:
  "\<exists>ex'. run_task demo_store_lib demo_proc_lib demo_start (unix_platform 7) demo_resolved_route []
     (demo_exec demo_wakes) = (Ret (), ex') \<and> status (rec_snapshot (ex_record ex')) = Succeeded"
proof -
  obtain e where e: "run_task demo_store_lib demo_proc_lib demo_start (unix_platform 7) demo_resolved_route []
     (demo_exec demo_wakes) = (Ret (), e)" "task_termination (rec_snapshot (ex_record e)) = None"
     "exit_code (rec_snapshot (ex_record e)) = Some 0" by (rule demo_run)
  with final_status_matches_termination [OF e(1)] obtain st where "status (rec_snapshot (ex_record e)) = (if st = ExitCode 0 then Succeeded else Failed)"
    "Some 0 = (case st of ExitCode n \<Rightarrow> Some n | ExitSignal _ \<Rightarrow> None)" by (auto simp: Let_def)
  with e(1) show ?thesis by (cases st) auto
qed

end
