(* ===== verification/Schedule.thy ===== *)
theory Schedule
  imports Process
begin

text \<open>
  Timing of the task executor (\<open>src/src/process/mod.rs\<close>): no kill before its time, and the
  panic that strands a task.
\<close>

section \<open>No early kill\<close>

lemma mark_seen_simps [simp]: "ex_now (mark_seen ex) = ex_now ex" "ex_record (mark_seen ex) = ex_record ex"
  by (simp_all add: mark_seen_def)

lemma grace_select_cases:
  assumes "grace_select inner gd ex = (Some g, ex')"
    and "\<And>e a e'. inner e = (a, e') \<Longrightarrow> ex_now e' = ex_now e \<and> ex_record e' = ex_record e"
  shows "(g = GTimeout \<longrightarrow> gd \<le> ex_now ex') \<and> (g = GForce \<longrightarrow> watch_value (ex_record ex') = Some ForceKilled)"
proof -
  obtain p ex1 where p: "next_pick ex = (p, ex1)" by fastforce
  obtain a1 e1 where i1: "inner ex1 = (a1, e1)" by fastforce
  obtain a2 e2 where i2: "inner (mark_seen ex1) = (a2, e2)" by fastforce
  have e: "ex_now e1 = ex_now ex1" "ex_record e1 = ex_record ex1" "ex_now e2 = ex_now ex1" "ex_record e2 = ex_record ex1"
    using assms(2) [OF i1] assms(2) [OF i2] by simp_all
  show ?thesis
    using assms(1) e
    by (cases "even p"; cases a1; cases a2)
      (auto simp: grace_select_def p Let_def i1 i2 force_requested_def split: if_splits)
qed

lemma watch_value_sent: "watch_value r = Some why \<Longrightarrow> Some why \<in> set (stop_sent r)"
  by (auto simp: watch_value_def split: if_splits dest: last_in_set)

interpretation clock: coroutine_invariant P "\<lambda>ex. n \<le> ex_now ex" L for P :: "'t platform" and n L
proof
  fix ex b bs assume "n \<le> ex_now (ex\<lparr>ex_wakes := b # bs\<rparr> :: 't exec)"
  with fold_absorb_record [of b ex] show "n \<le> ex_now ((fold absorb b ex)\<lparr>ex_wakes := bs\<rparr>)" by simp
qed (auto simp: log_action_def ex_transition_eq split: prod.splits)

interpretation requests: coroutine_invariant P "\<lambda>ex. why \<in> set (stop_sent (ex_record ex))" L
  for P :: "'t platform" and why L
proof
  fix ex b bs assume "why \<in> set (stop_sent (ex_record (ex\<lparr>ex_wakes := b # bs\<rparr> :: 't exec)))"
  with fold_absorb_record [of b ex] show "why \<in> set (stop_sent (ex_record ((fold absorb b ex)\<lparr>ex_wakes := bs\<rparr>)))"
    by auto
qed (auto simp: log_action_def ex_transition_eq split: prod.splits)

sublocale process_tree \<subseteq> quiet: world_invariant "spares is_kill" P "\<lambda>ex. spares is_kill S0 (ex_sys ex)" for S0
  by unfold_locales (auto intro: spares_trans poll_spares)

lemma keeps_now: "ex_transition L u ex = (out, ex') \<Longrightarrow> ex_now ex' = ex_now ex \<and> ex_sys ex' = ex_sys ex"
  "act a ex = (out', ex') \<Longrightarrow> ex_now ex' = ex_now ex \<and> ex_sys ex' = ex_sys ex"
  "ex_sysop g ex = (out'', ex') \<Longrightarrow> ex_now ex' = ex_now ex"
  "deadline_in Q n ex = (out''', ex') \<Longrightarrow> ex' = ex"
  by (auto simp: ex_transition_eq log_action_def act_def ex_sysop_def deadline_in_def split: prod.splits option.splits)

lemma deadline_value:
  "deadline_in Q n ex = (Ret d, ex') \<Longrightarrow> d = ex_now ex + unat n * nanos_per_sec"
  by (auto simp: deadline_in_def instant_add_secs_def split: option.splits if_splits)

text \<open>A kill is due when the grace period is over or a force-kill request has been sent.\<close>

definition kill_due :: "instant \<Rightarrow> 't exec \<Rightarrow> bool" where
  "kill_due gd ex \<longleftrightarrow> gd \<le> ex_now ex \<or> Some ForceKilled \<in> set (stop_sent (ex_record ex))"

lemma forced_end_due: "kill_due gd ex \<Longrightarrow> kill_due gd (snd (forced_end_of L P t why b ws ex))"
  using clock.forced_end_keeps [of gd L P t why b ws] requests.forced_end_keeps [of "Some ForceKilled" L P t why b ws]
  unfolding keeps_def kill_due_def by blast

lemma grace_due:
  assumes "await (grace_select inner gd) ex = (Ret g, ex')" and "g = GTimeout \<or> g = GForce"
    and "\<And>e a e'. inner e = (a, e') \<Longrightarrow> ex_now e' = ex_now e \<and> ex_record e' = ex_record e"
  shows "kill_due gd ex'"
  using assms(1)
proof (rule await_Ret)
  fix e0 e1 w assume g: "grace_select inner gd e0 = (Some g, e1)" and e1: "ex' = e1\<lparr>ex_wakes := w\<rparr>"
  have "(g = GTimeout \<longrightarrow> gd \<le> ex_now e1) \<and> (g = GForce \<longrightarrow> watch_value (ex_record e1) = Some ForceKilled)"
    by (rule grace_select_cases [OF g]) (rule assms(3))
  with assms(2) e1 show ?thesis by (auto simp: kill_due_def dest: watch_value_sent)
qed

lemma poll_tree_now: "poll_tree P t e = (a, e') \<Longrightarrow> ex_now e' = ex_now e \<and> ex_record e' = ex_record e"
  by (auto simp: poll_tree_def split: prod.splits)

context process_tree
begin

text \<open>No kill call since \<open>S0\<close>, or the kill is due.\<close>

definition justified :: "sys \<Rightarrow> instant \<Rightarrow> 't exec \<Rightarrow> bool" where
  "justified S0 gd ex \<longleftrightarrow> spares is_kill S0 (ex_sys ex) \<or> kill_due gd ex"

lemma forced_end_justified: "kill_due gd ex \<Longrightarrow> justified S0 gd (snd (forced_end_of L P t why b ws ex))"
  by (simp add: justified_def forced_end_due)

lemma await_tree_grace_justified:
  assumes "spares is_kill S0 (ex_sys ex)"
  shows "justified S0 gd (snd (await_tree_grace L P t why gd s ex))"
  unfolding await_tree_grace_def
proof (rule seq_snd [where I = "\<lambda>e :: 't exec. spares is_kill S0 (ex_sys e)"])
  show "keeps (\<lambda>e :: 't exec. spares is_kill S0 (ex_sys e)) (await (grace_select (poll_tree P t) gd))"
    by (intro quiet.await_keeps quiet.poll_intros)
  fix g e assume g: "await (grace_select (poll_tree P t) gd) ex = (Ret g, e)" and "spares is_kill S0 (ex_sys e)"
  then show "justified S0 gd (snd ((case g of
         GForce \<Rightarrow> forced_end_of L P t ForceKilled True (Some s)
       | GTimeout \<Rightarrow> forced_end_of L P t why True (Some s)
       | GDone (Inl e) \<Rightarrow> (\<lambda>ex. (Err e, ex))
       | GDone (Inr _) \<Rightarrow> ret (s, why)) e))"
    using grace_due [OF g _ poll_tree_now] forced_end_justified
    by (cases g) (auto simp: ret_def justified_def split: sum.split)
qed (use assms in \<open>simp_all add: justified_def\<close>)

lemma await_worker_grace_justified:
  assumes "spares is_kill S0 (ex_sys ex)"
  shows "justified S0 gd (snd (await_worker_grace L P t why gd ex))"
  unfolding await_worker_grace_def
proof (rule seq_snd [where I = "\<lambda>e :: 't exec. spares is_kill S0 (ex_sys e)"])
  show "keeps (\<lambda>e :: 't exec. spares is_kill S0 (ex_sys e)) (await (grace_select (\<lambda>ex. (ex_child ex, ex)) gd))"
    by (intro quiet.await_keeps quiet.poll_intros)
  fix g e assume g: "await (grace_select (\<lambda>ex. (ex_child ex, ex)) gd) ex = (Ret g, e)" and "spares is_kill S0 (ex_sys e)"
  then show "justified S0 gd (snd ((case g of
         GForce \<Rightarrow> forced_end_of L P t ForceKilled True None
       | GTimeout \<Rightarrow> forced_end_of L P t why True None
       | GDone None \<Rightarrow> fail WorkerGracefulWait
       | GDone (Some s) \<Rightarrow> await_tree_grace L P t why gd s) e))"
    using grace_due [OF g] forced_end_justified await_tree_grace_justified
    by (cases g) (auto simp: fail_def justified_def split: option.split)
qed (use assms in \<open>simp_all add: justified_def\<close>)

lemma stop_process_justified:
  assumes "why \<noteq> ForceKilled"
  shows "justified (ex_sys ex) (ex_now ex + unat (r_graceful_shutdown_seconds rt) * nanos_per_sec)
           (snd (stop_process L Q P t rt why ex))"
proof -
  define N where "N = (\<lambda>e :: 't exec. spares is_kill (ex_sys ex) (ex_sys e) \<and> ex_now e = ex_now ex)"
  have N: "keeps N (ex_transition L u)" "keeps N (act a)" "keeps N (ex_sysop (tree_graceful P t))" for u a
    unfolding keeps_def N_def using graceful_spares
    by (auto simp: ex_transition_eq log_action_def act_def ex_sysop_def split: prod.splits intro: spares_trans)
  have tail: "justified (ex_sys ex) (ex_now ex + unat (r_graceful_shutdown_seconds rt) * nanos_per_sec)
          (snd (seq (deadline_in Q (r_graceful_shutdown_seconds rt)) (await_worker_grace L P t why) e))" if "N e" for e
  proof (rule seq_snd [where I = N])
    fix d e' assume d: "deadline_in Q (r_graceful_shutdown_seconds rt) e = (Ret d, e')" and "N e'"
    from deadline_value [OF d] that have "d = ex_now ex + unat (r_graceful_shutdown_seconds rt) * nanos_per_sec"
      by (simp add: N_def)
    with await_worker_grace_justified [of "ex_sys ex" e' d] \<open>N e'\<close>
    show "justified (ex_sys ex) (ex_now ex + unat (r_graceful_shutdown_seconds rt) * nanos_per_sec)
        (snd (await_worker_grace L P t why d e'))" by (simp add: N_def)
  qed (use that keeps_deadline in \<open>auto simp: N_def justified_def\<close>)
  have quiet_end: "N e \<Longrightarrow> justified (ex_sys ex) gd e" for e gd by (simp add: N_def justified_def)
  have "stop_process L Q P t rt why =
     seq (ex_transition L (graceful_update P (r_graceful_shutdown_seconds rt) why)) (\<lambda>_.
     seq (act (ControlWritten (''terminate'' @ [LF]))) (\<lambda>_.
     seq (ex_sysop (tree_graceful P t)) (\<lambda>_.
     seq (deadline_in Q (r_graceful_shutdown_seconds rt)) (await_worker_grace L P t why))))"
    using assms by (simp add: stop_process_def)
  then show ?thesis
    apply (simp only:)
    apply (rule seq_snd [where I = N], simp add: N_def, rule N(1))
     apply (rule seq_snd [where I = N], assumption, rule N(2))
      apply (rule seq_snd [where I = N], assumption, rule N(3))
       apply (erule tail)
      apply (erule quiet_end)+
    done
qed

end

text \<open>
  C25. A stop request is graceful on Unix: except for a force-kill request, no SIGKILL is sent to the
  process group of a task before its grace period is over, unless a force-kill request was sent
  meanwhile.
\<close>

theorem unix_no_early_kill:
  assumes "why \<noteq> ForceKilled" and "stop_process L Q (unix_platform pgrp) t rt why ex = (out, ex')"
    and "ex_now ex' < ex_now ex + unat (r_graceful_shutdown_seconds rt) * nanos_per_sec"
    and "Some ForceKilled \<notin> set (stop_sent (ex_record ex'))"
  shows "\<exists>cs. sys_log (ex_sys ex') = sys_log (ex_sys ex) @ cs \<and> (\<forall>p. KillPg p SIGKILL \<notin> set cs)"
proof -
  have "spares is_sigkill (ex_sys ex) (ex_sys ex')"
    using unix.stop_process_justified [OF assms(1), where ex = ex and rt = rt and L = L and Q = Q and t = t and pgrp = pgrp]
      assms(2-4) by (auto simp: unix.justified_def kill_due_def)
  then show ?thesis by (force simp: spares_def issues_def)
qed

text \<open>
  The same on Windows: the job object of a task is not terminated before the grace period is
  over, unless a force-kill request was sent meanwhile.
\<close>

theorem windows_no_early_kill:
  assumes "why \<noteq> ForceKilled" and "stop_process L Q (windows_platform pid) t rt why ex = (out, ex')"
    and "ex_now ex' < ex_now ex + unat (r_graceful_shutdown_seconds rt) * nanos_per_sec"
    and "Some ForceKilled \<notin> set (stop_sent (ex_record ex'))"
  shows "\<exists>cs. sys_log (ex_sys ex') = sys_log (ex_sys ex) @ cs \<and> (\<forall>j n. TerminateJob j n \<notin> set cs)"
proof -
  have "spares is_terminate_job (ex_sys ex) (ex_sys ex')"
    using windows.stop_process_justified [OF assms(1), where ex = ex and rt = rt and L = L and Q = Q and t = t and pid = pid]
      assms(2-4) by (auto simp: windows.justified_def kill_due_def)
  then show ?thesis by (force simp: spares_def issues_def)
qed

section \<open>Panics\<close>

definition panics_in :: "('s \<Rightarrow> bool) \<Rightarrow> ('s \<Rightarrow> 'a outcome \<times> 's) \<Rightarrow> bool" where
  "panics_in I m \<longleftrightarrow> (\<forall>s. I s \<longrightarrow> fst (m s) = Panic \<longrightarrow> I (snd (m s)))"

lemma keeps_panics: "keeps I m \<Longrightarrow> panics_in I m"
  by (simp add: keeps_def panics_in_def)

lemma panics_seq:
  assumes "keeps I m" and "\<And>a. panics_in I (k a)"
  shows "panics_in I (seq m k)"
  unfolding panics_in_def
proof (intro allI impI)
  fix s assume s: "I s" and p: "fst (seq m k s) = Panic"
  obtain out s' where m: "m s = (out, s')" by fastforce
  with assms(1) s have "I s'" unfolding keeps_def by (metis snd_conv)
  with m assms(2) p show "I (snd (seq m k s))"
    by (cases out) (auto simp: seq_def panics_in_def)
qed

definition unfinished :: "'t exec \<Rightarrow> bool" where
  "unfinished ex \<longleftrightarrow> \<not> is_finished (status (rec_snapshot (ex_record ex)))"

interpretation unfinished: coroutine_invariant P unfinished L for P :: "'t platform" and L
proof
  fix ex :: "'t exec" and b bs assume "unfinished (ex\<lparr>ex_wakes := b # bs\<rparr>)"
  then show "unfinished ((fold absorb b ex)\<lparr>ex_wakes := bs\<rparr>)"
    using fold_absorb_record [of b ex] by (simp add: unfinished_def)
qed (auto simp: unfinished_def log_action_def ex_transition_eq stop_update_fields split: prod.splits)

lemma launch_unfinished:
  fixes P :: "'t platform"
  shows "keeps unfinished (launch L Q E P rt rargs)"
proof -
  have "keeps unfinished (start_readers ok n rs :: 't exec \<Rightarrow> unit outcome \<times> 't exec)" for ok n rs
    unfolding keeps_def using start_readers_frame by (metis prod.collapse unfinished_def)
  moreover have "keeps unfinished (set_tree t)" for t :: 't by (simp add: keeps_def set_tree_def unfinished_def)
  moreover have "keeps unfinished (spawn_worker E P)"
    by (auto simp: keeps_def spawn_worker_def log_action_def unfinished_def split: option.splits)
  moreover have "keeps unfinished (\<lambda>e :: 't exec. ex_transition L (start_update (stamp Q (ex_now e))) e)"
    unfolding keeps_def by (auto simp: ex_transition_eq log_action_def start_update_def unfinished_def split: prod.splits)
  ultimately show ?thesis
    unfolding launch_def start_capture_def
    by (auto intro!: unfinished.running_intros split: option.split)
qed

lemma run_task_panic: "panics_in unfinished (run_task L Q E P rt rargs)"
proof -
  have final: "panics_in unfinished (\<lambda>ex. ex_transition L (final_update (stamp Q (ex_now ex)) why st) ex)" for why st
  proof -
    have "outcome_of r \<noteq> Panic" for r :: "error + unit" by (cases r) auto
    then show ?thesis by (auto simp: panics_in_def ex_transition_def split: prod.splits)
  qed
  have "keeps unfinished (do_exec close_control)" "keeps unfinished (do_exec release_permits)"
    by (simp_all add: keeps_def do_exec_def unfinished_def)
  moreover have "keeps unfinished (\<lambda>ex. join_readers [0..<length (ex_readers ex)] ex)"
    by (auto simp: keeps_def intro: unfinished.join_readers_keeps [unfolded keeps_def, rule_format])
  ultimately show ?thesis
    unfolding run_task_def conclude_def
    by (auto intro!: panics_seq launch_unfinished unfinished.wait_for_end_keeps unfinished.drain_tree_keeps final
        split: prod.split)
qed

text \<open>
  C36. A panic strands a task: when the coroutine panics, which it does if a configured time limit
  does not fit the clock, the task keeps an unfinished status and stays counted as active, so that
  a shutdown waits for it in vain; only its permits are released.
\<close>

theorem panic_strands_task:
  assumes "start_task L Q E P rt rargs ex st = (Panic, ex', st')"
    and "\<not> is_finished (status (rec_snapshot (ex_record ex)))"
  shows "\<not> is_finished (status (rec_snapshot (ex_record ex'))) \<and> active_count st' = active_count st \<and>
    notifications st' = notifications st \<and> \<not> ex_permits ex'"
proof -
  let ?ex = "ex\<lparr>ex_seen := length (stop_sent (ex_record ex))\<rparr>"
  obtain out e1 where r: "run_task L Q E P rt rargs ?ex = (out, e1)" by fastforce
  with assms(1) have "out = Panic" by (cases out) (auto simp: start_task_def Let_def)
  moreover have "unfinished ?ex" using assms(2) by (simp add: unfinished_def)
  ultimately have "unfinished e1"
    using run_task_panic [of L Q E P rt rargs] r unfolding panics_in_def by (metis fst_conv snd_conv)
  with assms(1) r \<open>out = Panic\<close> show ?thesis by (auto simp: start_task_def Let_def unfinished_def)
qed

section \<open>Witnesses\<close>

lemma demo_stop_pending:
  fixes P :: "'t platform"
  assumes "tree_graceful P t (ex_sys (demo_exec [] :: 't exec)) = (Inr (), S)"
  obtains ex' :: "'t exec" where
    "stop_process demo_store_lib demo_proc_lib P t demo_resolved_route CancelledReason (demo_exec []) = (Pending, ex')"
    and "ex_now ex' = 0" and "stop_sent (ex_record ex') = []"
proof -
  obtain f where f: "transition demo_store_lib (graceful_update P 1 CancelledReason) demo_record (demo_fs [] (\<lambda>_. None)) =
      (update_snapshot (graceful_update P 1 CancelledReason) demo_record, f, Inr ())"
    by (rule demo_transition [of "demo_fs [] (\<lambda>_. None)"]) (simp_all add: demo_fs_def)
  have "\<exists>ex'. stop_process demo_store_lib demo_proc_lib P t demo_resolved_route CancelledReason (demo_exec []) = (Pending, ex')
     \<and> ex_now ex' = 0 \<and> stop_sent (ex_record ex') = []"
    using assms
    by (simp add: stop_process_def seq_def demo_resolved_route_def ex_transition_def f demo_exec_def act_def log_action_def
        ex_sysop_def deadline_in_def instant_add_secs_def demo_proc_lib_def nanos_per_sec_def await_worker_grace_def
        await_def grace_select_def next_pick_def Let_def force_requested_def watch_value_def mark_seen_def
        update_snapshot_def)
  with that show ?thesis by blast
qed

theorem unix_no_early_kill_witness:
  "\<exists>ex'. stop_process demo_store_lib demo_proc_lib (unix_platform 7) \<lparr>tree_pid = Some 7\<rparr> demo_resolved_route
      CancelledReason (demo_exec []) = (Pending, ex') \<and> (\<forall>p. KillPg p SIGKILL \<notin> set (sys_log (ex_sys ex')))"
proof -
  obtain S where "tree_graceful (unix_platform 7) \<lparr>tree_pid = Some 7\<rparr> (ex_sys (demo_exec [] :: unix_tree exec)) = (Inr (), S)"
    by (simp add: unix_platform_def unix_graceful_def send_group_def killpg_def do_call_def demo_exec_def)
  then obtain ex' where e: "stop_process demo_store_lib demo_proc_lib (unix_platform 7) \<lparr>tree_pid = Some 7\<rparr> demo_resolved_route
      CancelledReason (demo_exec []) = (Pending, ex')" "ex_now ex' = 0" "stop_sent (ex_record ex') = []"
    by (rule demo_stop_pending)
  have "sys_log (ex_sys (demo_exec [] :: unix_tree exec)) = []" by (simp add: demo_exec_def)
  with unix_no_early_kill [OF _ e(1)] e show ?thesis
    by (auto simp: demo_resolved_route_def nanos_per_sec_def)
qed

theorem windows_no_early_kill_witness:
  "\<exists>ex'. stop_process demo_store_lib demo_proc_lib (windows_platform 7) \<lparr>tree_job = 3\<rparr> demo_resolved_route
      CancelledReason (demo_exec []) = (Pending, ex') \<and> (\<forall>j n. TerminateJob j n \<notin> set (sys_log (ex_sys ex')))"
proof -
  obtain S where "tree_graceful (windows_platform 7) \<lparr>tree_job = 3\<rparr> (ex_sys (demo_exec [] :: windows_tree exec)) = (Inr (), S)"
    by (simp add: windows_platform_def windows_graceful_def)
  then obtain ex' where e: "stop_process demo_store_lib demo_proc_lib (windows_platform 7) \<lparr>tree_job = 3\<rparr> demo_resolved_route
      CancelledReason (demo_exec []) = (Pending, ex')" "ex_now ex' = 0" "stop_sent (ex_record ex') = []"
    by (rule demo_stop_pending)
  have "sys_log (ex_sys (demo_exec [] :: windows_tree exec)) = []" by (simp add: demo_exec_def)
  with windows_no_early_kill [OF _ e(1)] e show ?thesis
    by (auto simp: demo_resolved_route_def nanos_per_sec_def)
qed

definition demo_long_route :: resolved_route where
  "demo_long_route = demo_resolved_route\<lparr>r_max_execution_seconds := 0xFFFFFFFFFFFFFFFF\<rparr>"

theorem panic_strands_task_witness:
  "\<exists>ex' st'. start_task demo_store_lib demo_proc_lib demo_start (unix_platform 7) demo_long_route []
     (demo_exec demo_wakes) (demo_store demo_record) = (Panic, ex', st') \<and> active_count st' = 1 \<and>
     \<not> is_finished (status (rec_snapshot (ex_record ex')))"
proof -
  obtain f where f: "transition demo_store_lib (start_update ''t'') demo_record (demo_fs [] (\<lambda>_. None)) =
      (update_snapshot (start_update ''t'') demo_record, f, Inr ())"
    by (rule demo_transition [of "demo_fs [] (\<lambda>_. None)"]) (simp_all add: demo_fs_def)
  have "\<exists>e. launch demo_store_lib demo_proc_lib demo_start (unix_platform 7) demo_long_route [] (demo_exec demo_wakes) = (Panic, e)"
    unfolding launch_def start_capture_def
    by (simp add: seq_def demo_exec_defs demo_long_route_def demo_resolved_route_def route_mode_def ensure_def
        ex_sysop_def set_tree_def spawn_worker_def act_def log_action_def ret_def deadline_in_def nanos_per_sec_def
        instant_add_secs_def unix_platform_def unix_new_def unix_attach_def ex_transition_def f)
  then obtain e where "run_task demo_store_lib demo_proc_lib demo_start (unix_platform 7) demo_long_route [] (demo_exec demo_wakes) = (Panic, e)"
    by (auto simp: run_task_def seq_def)
  then obtain ex' st' where s: "start_task demo_store_lib demo_proc_lib demo_start (unix_platform 7) demo_long_route []
     (demo_exec demo_wakes) (demo_store demo_record) = (Panic, ex', st')"
    by (simp add: start_task_def Let_def)
  from panic_strands_task [OF s] show ?thesis
    by (intro exI [of _ ex'] exI [of _ st'] conjI s) (simp_all add: demo_store_def)
qed

end
