(* ===== verification/Progress.thy ===== *)
theory Progress
  imports Process
begin

text \<open>
  Liveness of the task executor (\<open>src/src/process/mod.rs\<close>): every schedule in which the worker
  exits, the output pipes close and the process tree empties ends the coroutine of the task. The
  locale \<open>settling_tree\<close> states what the executor needs of a platform for that and is
  interpreted on both; the waits of the executor are covered by one lemma on \<open>await\<close>.
\<close>

section \<open>Coroutines that are not suspended\<close>

definition completes :: "('s \<Rightarrow> bool) \<Rightarrow> ('s \<Rightarrow> 'a outcome \<times> 's) \<Rightarrow> bool" where
  "completes I m \<longleftrightarrow> (\<forall>s. I s \<longrightarrow> fst (m s) \<noteq> Pending \<and> I (snd (m s)))"

lemma completesI: "(\<And>s out s'. I s \<Longrightarrow> m s = (out, s') \<Longrightarrow> out \<noteq> Pending \<and> I s') \<Longrightarrow> completes I m"
  unfolding completes_def by (metis prod.collapse)

lemma completesD: "completes I m \<Longrightarrow> I s \<Longrightarrow> m s = (out, s') \<Longrightarrow> out \<noteq> Pending \<and> I s'"
  unfolding completes_def by (metis fst_conv snd_conv)

lemma completes_seq:
  assumes "completes I m" and "\<And>a. completes I (k a)"
  shows "completes I (seq m k)"
proof (rule completesI)
  fix s out s' assume s: "I s" and r: "seq m k s = (out, s')"
  obtain o1 s1 where m: "m s = (o1, s1)" by fastforce
  from completesD [OF assms(1) s m] r m completesD [OF assms(2)] show "out \<noteq> Pending \<and> I s'"
    by (cases o1) (auto simp: seq_def)
qed

lemma outcome_of_live [simp]: "outcome_of r \<noteq> Pending"
  by (cases r) auto

lemma completes_pure:
  "completes I (ret a)" "completes I (fail e)" "completes I (ensure b e)" "completes I (deadline_in Q n)"
  "completes I (\<lambda>s. (Err e', s))" "completes I (\<lambda>s. (outcome_of r, s))"
  by (auto simp: completes_def ret_def fail_def ensure_def deadline_in_def split: option.splits)

text \<open>An operation that always comes to an end completes whatever it keeps.\<close>

lemma completes_keeps: "keeps I m \<Longrightarrow> (\<And>s. fst (m s) \<noteq> Pending) \<Longrightarrow> completes I m"
  by (simp add: completes_def keeps_def)

lemma always_ends:
  "fst (act x ex) \<noteq> Pending" "fst (ex_transition L u ex) \<noteq> Pending" "fst (ex_sysop g ex) \<noteq> Pending"
  "fst (set_tree t ex) \<noteq> Pending" "fst (do_exec h ex) \<noteq> Pending" "fst (spawn_worker E P ex) \<noteq> Pending"
  by (simp_all add: act_def ex_transition_def ex_sysop_def set_tree_def do_exec_def spawn_worker_def
      split: prod.splits option.splits)

lemma poll_onlyD: "poll_only R p \<Longrightarrow> p ex = (a, ex') \<Longrightarrow> polled R ex ex'"
  unfolding poll_only_def by (metis snd_conv)

section \<open>What has to happen\<close>

definition closing :: "env_event \<Rightarrow> nat \<Rightarrow> bool" where
  "closing e k \<longleftrightarrow> e = ReaderStep k (ReadBytes []) \<or> e = ReaderStep k ReadFailed"

text \<open>The worker's exit, and the end of the pipe of every reader, have happened or are scheduled.\<close>

definition exits_in :: "env_event list list \<Rightarrow> 't exec \<Rightarrow> bool" where
  "exits_in bs ex \<longleftrightarrow> ex_child ex \<noteq> None \<or> (\<exists>st. WorkerExits st \<in> set (concat bs))"

definition closes_in :: "env_event list list \<Rightarrow> 't exec \<Rightarrow> bool" where
  "closes_in bs ex \<longleftrightarrow> (\<forall>k < length (ex_readers ex).
     rd_end (ex_readers ex ! k) \<noteq> None \<or> (\<exists>e\<in>set (concat bs). closing e k))"

text \<open>The worker has exited and every reader has ended.\<close>

definition quiet :: "'t exec \<Rightarrow> bool" where
  "quiet ex \<longleftrightarrow> ex_child ex \<noteq> None \<and> (\<forall>k < length (ex_readers ex). rd_end (ex_readers ex ! k) \<noteq> None)"

lemma quiet_iff: "exits_in [] ex \<and> closes_in [] ex \<longleftrightarrow> quiet ex"
  by (simp add: quiet_def exits_in_def closes_in_def)

lemma fold_absorb_exits: "WorkerExits st \<in> set b \<Longrightarrow> ex_child (fold absorb b ex) \<noteq> None"
proof (induction b arbitrary: ex)
  case (Cons e b)
  show ?case
  proof (cases "e = WorkerExits st")
    case True
    have "ex_child (absorb e ex) \<noteq> None" by (simp add: True)
    then show ?thesis using fold_absorb_child [of "absorb e ex" b] by simp
  qed (use Cons in auto)
qed simp

lemma step_reader_end:
  "step_reader limit rd res r f = (rd', r', f') \<Longrightarrow> rd_end rd \<noteq> None \<Longrightarrow> rd' = rd"
  by (simp add: step_reader_def)

lemma step_reader_closes:
  assumes "step_reader limit rd res r f = (rd', r', f')" and "res = ReadBytes [] \<or> res = ReadFailed"
  shows "rd_end rd' \<noteq> None"
proof (cases "rd_end rd")
  case None
  obtain f1 o1 where o: "(if rd_open rd then (f, Inr ()) else copy_open (rd_stream rd) r f) = (f1, o1)" by fastforce
  show ?thesis
    using assms None o by (cases o1) (auto simp: step_reader_def)
next
  case (Some x)
  with assms(1) step_reader_end have "rd' = rd" by blast
  with Some show ?thesis by simp
qed

lemma absorb_reader_end:
  assumes "k < length (ex_readers ex)" and "rd_end (ex_readers ex ! k) \<noteq> None \<or> closing e k"
  shows "rd_end (ex_readers (absorb e ex) ! k) \<noteq> None"
proof (cases e)
  case (ReaderStep j res)
  obtain rd r f where s: "step_reader (ex_limit ex) (ex_readers ex ! j) res (ex_record ex) (ex_fs ex) = (rd, r, f)"
    by (cases "step_reader (ex_limit ex) (ex_readers ex ! j) res (ex_record ex) (ex_fs ex)")
  show ?thesis
    using assms ReaderStep s step_reader_closes [OF s] step_reader_end [OF s]
    by (cases "j = k") (auto simp: closing_def)
next
  case (ReaderPanics j)
  with assms show ?thesis by (cases "j = k") (auto simp: closing_def)
qed (use assms in \<open>auto simp: closing_def\<close>)

lemma fold_absorb_reader_end:
  "k < length (ex_readers ex) \<Longrightarrow> rd_end (ex_readers ex ! k) \<noteq> None \<or> (\<exists>e\<in>set b. closing e k) \<Longrightarrow>
     rd_end (ex_readers (fold absorb b ex) ! k) \<noteq> None"
proof (induction b arbitrary: ex)
  case (Cons e b)
  have k: "k < length (ex_readers (absorb e ex))" using Cons.prems(1) by simp
  show ?case
  proof (cases "rd_end (ex_readers ex ! k) \<noteq> None \<or> closing e k")
    case True
    from Cons.IH [OF k] absorb_reader_end [OF Cons.prems(1) True] show ?thesis by simp
  next
    case False
    with Cons.prems Cons.IH [OF k] show ?thesis by auto
  qed
qed simp

lemma exits_in_absorb: "exits_in (b # bs) ex \<Longrightarrow> exits_in bs (fold absorb b ex)"
  using fold_absorb_child [of ex b] fold_absorb_exits [of _ b ex] by (auto simp: exits_in_def)

lemma closes_in_absorb:
  assumes "closes_in (b # bs) ex"
  shows "closes_in bs (fold absorb b ex)"
  unfolding closes_in_def
proof (intro allI impI)
  fix k assume "k < length (ex_readers (fold absorb b ex))"
  then have k: "k < length (ex_readers ex)" by simp
  with assms have "rd_end (ex_readers ex ! k) \<noteq> None \<or> (\<exists>e\<in>set b. closing e k) \<or> (\<exists>e\<in>set (concat bs). closing e k)"
    by (auto simp: closes_in_def)
  with fold_absorb_reader_end [OF k, of b]
  show "rd_end (ex_readers (fold absorb b ex) ! k) \<noteq> None \<or> (\<exists>e\<in>set (concat bs). closing e k)" by blast
qed

section \<open>Platforms whose process trees empty\<close>

text \<open>
  \<open>left k S\<close>: in the system state \<open>S\<close> at most \<open>k\<close> more polls find the tree of a task not
  empty.
\<close>

locale settling_tree =
  fixes P :: "'t platform" and left :: "nat \<Rightarrow> sys \<Rightarrow> bool"
  assumes left_poll: "tree_poll_empty P t S = (x, S') \<Longrightarrow> left k S \<Longrightarrow> left k S'"
    and left_unready: "tree_poll_empty P t S = (None, S') \<Longrightarrow> left k S \<Longrightarrow> \<exists>j. k = Suc j \<and> left j S'"
    and left_force: "tree_force P t S = (r, S') \<Longrightarrow> left k S \<Longrightarrow> left k S'"
    and left_graceful: "tree_graceful P t S = (r, S') \<Longrightarrow> left k S \<Longrightarrow> left k S'"
    and left_new: "tree_new P S = (n, S') \<Longrightarrow> left k S \<Longrightarrow> left k S'"
    and left_attach: "tree_attach P ch t S = (n, S') \<Longrightarrow> left k S \<Longrightarrow> left k S'"

sublocale settling_tree \<subseteq> spends: poll_relation "\<lambda>S S'. \<forall>k. left k S \<longrightarrow> left k S'" P
  by unfold_locales (auto intro: left_poll)

context settling_tree
begin

abbreviation spend :: "sys \<Rightarrow> sys \<Rightarrow> bool" where
  "spend S S' \<equiv> \<forall>k. left k S \<longrightarrow> left k S'"

text \<open>With the batches \<open>bs\<close> still to come, the worker exits and the pipes close in a first part
  of them, and the rest is enough for the tree to become empty.\<close>

definition settling_in :: "env_event list list \<Rightarrow> 't exec \<Rightarrow> bool" where
  "settling_in bs ex \<longleftrightarrow> (\<exists>pre post. bs = pre @ post \<and> exits_in pre ex \<and> closes_in pre ex \<and>
     left (length post) (ex_sys ex))"

definition settling :: "nat \<Rightarrow> 't exec \<Rightarrow> bool" where
  "settling n ex \<longleftrightarrow> length (ex_readers ex) = n \<and> settling_in (ex_wakes ex) ex"

text \<open>Once the worker and the readers are done, a poll waits for nothing but the tree.\<close>

definition blocked_by_tree :: "nat \<Rightarrow> ('t exec \<Rightarrow> 'a option \<times> 't exec) \<Rightarrow> bool" where
  "blocked_by_tree n p \<longleftrightarrow> (\<forall>ex ex' k. p ex = (None, ex') \<longrightarrow> length (ex_readers ex) = n \<longrightarrow> quiet ex \<longrightarrow> left k (ex_sys ex) \<longrightarrow>
     (\<exists>j. k = Suc j \<and> left j (ex_sys ex')))"

lemma settling_in_frame:
  assumes "settling_in bs ex" and "ex_child ex' = ex_child ex" and "ex_readers ex' = ex_readers ex"
    and "spend (ex_sys ex) (ex_sys ex')"
  shows "settling_in bs ex'"
proof -
  from assms(2,3) have "exits_in pre ex' = exits_in pre ex" "closes_in pre ex' = closes_in pre ex" for pre
    by (simp_all add: exits_in_def closes_in_def)
  with assms(1,4) show ?thesis unfolding settling_in_def by blast
qed

lemma settling_frame:
  assumes "settling n ex" and "ex_child ex' = ex_child ex" and "ex_readers ex' = ex_readers ex"
    and "ex_wakes ex' = ex_wakes ex" and "spend (ex_sys ex) (ex_sys ex')"
  shows "settling n ex'"
  using assms settling_in_frame [of "ex_wakes ex" ex ex'] by (simp add: settling_def)

lemma settling_in_step:
  assumes "polled spend ex ex'" and "blocked_by_tree n p" and "p ex = (None, ex')"
    and "settling_in bs ex" and "length (ex_readers ex) = n"
  shows "\<exists>b bs'. bs = b # bs' \<and> settling_in bs' (fold absorb b ex')"
proof -
  from assms(4) obtain pre post where bs: "bs = pre @ post" and pre: "exits_in pre ex" "closes_in pre ex"
    and left: "left (length post) (ex_sys ex)" by (auto simp: settling_in_def)
  from polled_fields [OF assms(1)] pre left have pre': "exits_in pre ex'" "closes_in pre ex'"
    and left': "left (length post) (ex_sys ex')" by (auto simp: exits_in_def closes_in_def)
  show ?thesis
  proof (cases pre)
    case Nil
    with pre have "quiet ex" by (simp flip: quiet_iff)
    with assms(2,3,5) left obtain j where j: "length post = Suc j" "left j (ex_sys ex')"
      unfolding blocked_by_tree_def by blast
    then obtain b bs' where "post = b # bs'" by (cases post) auto
    moreover have "exits_in [] (fold absorb b ex')" "closes_in [] (fold absorb b ex')" for b
      using pre' Nil exits_in_absorb [of b "[]" ex'] closes_in_absorb [of b "[]" ex']
      by (auto simp: exits_in_def closes_in_def)
    ultimately show ?thesis using bs Nil j by (fastforce simp: settling_in_def)
  next
    case (Cons b pre1)
    with pre' have "exits_in pre1 (fold absorb b ex')" "closes_in pre1 (fold absorb b ex')"
      by (auto intro: exits_in_absorb closes_in_absorb)
    with left' have "settling_in (pre1 @ post) (fold absorb b ex')" unfolding settling_in_def by auto
    with bs Cons show ?thesis by simp
  qed
qed

lemma await_loop_settles:
  assumes "poll_only spend p" and "blocked_by_tree n p"
  shows "settling_in bs ex \<Longrightarrow> length (ex_readers ex) = n \<Longrightarrow> await_loop bs p ex = (out, ex') \<Longrightarrow>
     out \<noteq> Pending \<and> settling_in (ex_wakes ex') ex' \<and> length (ex_readers ex') = n"
proof (induction bs arbitrary: ex)
  case Nil
  obtain a e where p: "p ex = (a, e)" by fastforce
  note e = poll_onlyD [OF assms(1) p]
  have "a \<noteq> None" using settling_in_step [OF e assms(2) _ Nil(1,2)] p by auto
  with Nil(3) p have "out \<noteq> Pending" "ex' = e\<lparr>ex_wakes := []\<rparr>" by (cases a; auto)+
  with settling_in_frame [OF Nil(1), of ex'] polled_fields(4,5,12) [OF e] Nil(2) show ?case by simp
next
  case (Cons b bs)
  obtain a e where p: "p ex = (a, e)" by fastforce
  note e = poll_onlyD [OF assms(1) p]
  show ?case
  proof (cases a)
    case None
    with settling_in_step [OF e assms(2) _ Cons.prems(1,2)] p have "settling_in bs (fold absorb b e)" by auto
    from Cons.IH [OF this] Cons.prems(2,3) p None polled_fields(5) [OF e] show ?thesis by simp
  next
    case (Some x)
    with Cons.prems(3) p have "out \<noteq> Pending" "ex' = e\<lparr>ex_wakes := b # bs\<rparr>" by auto
    with settling_in_frame [OF Cons.prems(1), of ex'] polled_fields(4,5,12) [OF e] Cons.prems(2) show ?thesis by simp
  qed
qed

lemma await_settles: "poll_only spend p \<Longrightarrow> blocked_by_tree n p \<Longrightarrow> completes (settling n) (await p)"
  by (rule completesI) (auto simp: settling_def await_def dest: await_loop_settles)

end

section \<open>Every wait of the executor settles\<close>

lemma mark_seen_frame [simp]:
  "quiet (mark_seen ex) = quiet ex" "ex_sys (mark_seen ex) = ex_sys ex" "ex_readers (mark_seen ex) = ex_readers ex"
  by (simp_all add: quiet_def mark_seen_def)

lemma grace_select_None:
  assumes "grace_select inner gd ex = (None, ex')" and "next_pick ex = (p, ex1)"
  obtains e e' where "inner e = (None, e')" and "e = ex1 \<or> e = mark_seen ex1" and "ex_sys ex' = ex_sys e'"
proof (cases "even p")
  case True
  with assms show thesis
    by (auto simp: grace_select_def Let_def split: prod.splits option.splits if_splits intro!: that [of ex1])
next
  case False
  with assms show thesis
    by (auto simp: grace_select_def Let_def split: prod.splits option.splits if_splits intro!: that [of "mark_seen ex1"])
qed

context settling_tree
begin

lemma blocked_child: "blocked_by_tree n (\<lambda>ex :: 't exec. (ex_child ex, ex))"
  by (auto simp: blocked_by_tree_def quiet_def)

lemma blocked_reader: "k < n \<Longrightarrow> blocked_by_tree n (\<lambda>ex :: 't exec. (rd_end (ex_readers ex ! k), ex))"
  by (auto simp: blocked_by_tree_def quiet_def)

lemma blocked_tree: "blocked_by_tree n (poll_tree P t)"
  unfolding blocked_by_tree_def poll_tree_def
  by (auto split: prod.splits dest: left_unready)

lemma blocked_tree_until: "blocked_by_tree n (poll_tree_until P t d)"
  using blocked_tree [of n t] unfolding blocked_by_tree_def poll_tree_until_def
  by (auto split: prod.splits option.splits if_splits)

lemma blocked_main: "blocked_by_tree n (poll_main d :: 't exec \<Rightarrow> main_branch option \<times> 't exec)"
  unfolding blocked_by_tree_def
proof (intro allI impI)
  fix ex ex' :: "'t exec" and k assume p: "poll_main d ex = (None, ex')" and "quiet ex"
  obtain a e where a: "pick_ready (main_ready d ex) ex = (a, e)" by fastforce
  from \<open>quiet ex\<close> a have "a \<noteq> None"
    by (auto simp: quiet_def pick_ready_def main_ready_def split: prod.splits if_splits)
  with p show "\<exists>j. k = Suc j \<and> left j (ex_sys ex')" by (simp add: poll_main_cases [OF a])
qed

lemma blocked_grace:
  fixes inner :: "'t exec \<Rightarrow> 'a option \<times> 't exec"
  assumes "blocked_by_tree n inner"
  shows "blocked_by_tree n (grace_select inner gd)"
  unfolding blocked_by_tree_def
proof (intro allI impI)
  fix ex ex' :: "'t exec" and k
  assume g: "grace_select inner gd ex = (None, ex')" and n: "length (ex_readers ex) = n" and q: "quiet ex" and l: "left k (ex_sys ex)"
  obtain p ex1 where p: "next_pick ex = (p, ex1)" by fastforce
  then have ex1: "quiet ex1" "ex_sys ex1 = ex_sys ex" "length (ex_readers ex1) = n"
    using q n by (auto simp: next_pick_def quiet_def split: list.splits)
  from g p obtain e e' where "inner e = (None, e')" "e = ex1 \<or> e = mark_seen ex1" "ex_sys ex' = ex_sys e'"
    by (rule grace_select_None)
  with assms ex1 l show "\<exists>j. k = Suc j \<and> left j (ex_sys ex')"
    unfolding blocked_by_tree_def by (metis mark_seen_frame)
qed

lemmas await_intros = await_settles spends.poll_intros blocked_child blocked_reader blocked_tree blocked_tree_until blocked_main blocked_grace

lemma log_settles:
  "completes (settling n) (act a)" "completes (settling n) (ex_transition L u)" "completes (settling n) (set_tree t)"
  "completes (settling n) (do_exec close_control)" "completes (settling n) (do_exec release_permits)"
  by (intro completes_keeps always_ends; auto simp: keeps_def act_def log_action_def ex_transition_eq set_tree_def
      do_exec_def close_control_def release_permits_def split: prod.splits elim!: settling_frame)+

lemma sysop_settles:
  "(\<And>S r S' k. g S = (r, S') \<Longrightarrow> left k S \<Longrightarrow> left k S') \<Longrightarrow> completes (settling n) (ex_sysop g)"
  by (intro completes_keeps always_ends) (auto simp: keeps_def ex_sysop_def split: prod.splits elim!: settling_frame)

lemma tree_settles:
  "completes (settling n) (ex_sysop (tree_force P t))" "completes (settling n) (ex_sysop (tree_graceful P t))"
  by (auto intro!: sysop_settles dest: left_force left_graceful)

lemmas settle_intros = completes_seq completes_pure await_intros log_settles tree_settles

lemma await_empty_settles: "completes (settling n) (await_empty P t)"
  unfolding await_empty_def by (intro settle_intros)

lemma await_child_settles: "completes (settling n) (await_child e)"
  unfolding await_child_def by (intro settle_intros) (auto intro: settle_intros split: option.split)

lemma forced_end_settles: "completes (settling n) (forced_end_of L P t why b ws)"
  unfolding forced_end_of_def force_stop_process_def
  by (intro settle_intros await_empty_settles) (auto intro: settle_intros await_child_settles split: option.split)

lemma stop_process_settles: "completes (settling n) (stop_process L Q P t rt why)"
  unfolding stop_process_def await_worker_grace_def await_tree_grace_def
  by (auto intro!: settle_intros forced_end_settles split: grace.split option.split sum.split)

lemma wait_for_end_settles: "completes (settling n) (wait_for_end L Q P t rt d)"
  unfolding wait_for_end_def
  by (auto intro!: settle_intros stop_process_settles split: main_branch.split option.split prod.split)

lemma drain_tree_settles: "completes (settling n) (drain_tree L P t d why)"
proof -
  have "completes (settling n) (\<lambda>ex. await (poll_tree_until P t (max d (ex_now ex))) ex)"
    using await_settles [OF spends.poll_only_tree_until blocked_tree_until] by (simp add: completes_def)
  then show ?thesis
    unfolding drain_tree_def by (auto intro!: settle_intros await_empty_settles split: option.split)
qed

lemma join_readers_settles: "list_all (\<lambda>k. k < n) ks \<Longrightarrow> completes (settling n) (join_readers ks)"
proof (induction ks)
  case Nil
  then show ?case by (simp add: completes_def)
next
  case (Cons k ks)
  have "completes (settling n) (seq (await (\<lambda>ex. (rd_end (ex_readers ex ! k), ex))) (\<lambda>fin.
       case fin of JoinPanic \<Rightarrow> fail ReaderCrashed
       | Joined (Inl e) \<Rightarrow> (\<lambda>ex. (Err e, ex)) | Joined (Inr _) \<Rightarrow> join_readers ks))"
    using Cons by (auto intro!: settle_intros split: reader_end.split sum.split)
  then show ?case by (simp add: completes_def)
qed

lemma conclude_settles: "completes (settling n) (conclude L Q P t rt d)"
proof -
  have "completes (settling n) (\<lambda>ex. join_readers [0..<length (ex_readers ex)] ex)"
    using join_readers_settles [of n "[0..<n]"] by (auto simp: completes_def settling_def list_all_iff)
  moreover have "completes (settling n) (\<lambda>ex. ex_transition L (final_update (stamp Q (ex_now ex)) why st) ex)" for why st
    using log_settles(2) by (simp add: completes_def)
  ultimately show ?thesis
    unfolding conclude_def
    by (auto intro!: settle_intros wait_for_end_settles drain_tree_settles split: prod.split)
qed

end

section \<open>The start of a task\<close>

lemma start_readers_length:
  "start_readers ok m rs ex = (out, ex') \<Longrightarrow> length (ex_readers ex') \<le> length (ex_readers ex) + length rs"
  by (induction ok m rs ex rule: start_readers.induct) (auto split: if_splits)

lemma start_readers_ends: "fst (start_readers ok m rs ex) \<noteq> Pending"
  by (induction ok m rs ex rule: start_readers.induct) auto

lemma start_capture_frame:
  assumes "start_capture E rt ex = (out, ex')" and "ex_readers ex = []"
  shows "out \<noteq> Pending \<and> ex_wakes ex' = ex_wakes ex \<and> ex_sys ex' = ex_sys ex \<and> length (ex_readers ex') \<le> 2"
proof (cases "capture_new (route_mode rt) (pipes_ok E)")
  case (Inl e)
  with assms show ?thesis by (auto simp: start_capture_def seq_def)
next
  case (Inr cap)
  then have "length (cap_readers cap) \<le> 2" by (cases "route_mode rt") (auto split: if_splits)
  moreover have r: "start_readers (clones_ok E) 0 (cap_readers cap) ex = (out, ex')"
    using assms(1) Inr by (simp add: start_capture_def seq_def)
  ultimately show ?thesis
    using start_readers_frame [OF r] start_readers_length [OF r] start_readers_ends [of "clones_ok E" 0 "cap_readers cap" ex]
      assms(2) by simp
qed

context settling_tree
begin

text \<open>Starting the worker takes no batch and leaves at most two readers.\<close>

lemma launch_settles:
  assumes "launch L Q E P rt rargs ex = (out, ex')" and "ex_readers ex = []" and "left k (ex_sys ex)"
  shows "out \<noteq> Pending \<and> ex_wakes ex' = ex_wakes ex \<and> length (ex_readers ex') \<le> 2 \<and> left k (ex_sys ex')"
proof -
  let ?I = "\<lambda>e :: 't exec. ex_wakes e = ex_wakes ex \<and> length (ex_readers e) \<le> 2 \<and> left k (ex_sys e)"
  have "completes ?I (act a)" "completes ?I (set_tree t)" "completes ?I (spawn_worker E P)"
    "completes ?I (\<lambda>e. ex_transition L (start_update (stamp Q (ex_now e))) e)" for a t
    by (intro completes_keeps always_ends; auto simp: keeps_def act_def log_action_def set_tree_def spawn_worker_def
        ex_transition_eq split: prod.splits option.splits)+
  moreover have "completes ?I (ex_sysop (tree_new P))" "completes ?I (ex_sysop (tree_attach P ch t))" for ch t
    by (intro completes_keeps always_ends; auto simp: keeps_def ex_sysop_def split: prod.splits dest: left_new left_attach)+
  moreover obtain o1 ex1 where s: "start_capture E rt ex = (o1, ex1)" by fastforce
  moreover obtain rest where l: "launch L Q E P rt rargs = seq (start_capture E rt) (\<lambda>_. rest)" and "completes ?I rest"
    by (rule that [OF launch_def]) (auto intro!: completes_seq completes_pure calculation split: option.split)
  ultimately show ?thesis
    using start_capture_frame [OF s assms(2)] assms(1,3) completesD [of ?I rest ex1 out ex']
    by (cases o1) (auto simp: seq_def)
qed

lemma run_task_settles:
  assumes "ex_readers ex = []" and "ex_wakes ex = pre @ post" and "WorkerExits st \<in> set (concat pre)"
    and "\<forall>k<2. \<exists>e\<in>set (concat pre). closing e k" and "left (length post) (ex_sys ex)"
  shows "fst (run_task L Q E P rt rargs ex) \<noteq> Pending"
proof -
  obtain out ex1 where l: "launch L Q E P rt rargs ex = (out, ex1)" by fastforce
  note f = launch_settles [OF l assms(1,5)]
  have "exits_in pre ex1" "closes_in pre ex1"
    using f assms(3,4) by (auto simp: exits_in_def closes_in_def)
  with f assms(2) have "settling (length (ex_readers ex1)) ex1"
    unfolding settling_def settling_in_def by metis
  then have "fst (conclude L Q P t rt d ex1) \<noteq> Pending" for t d
    using conclude_settles unfolding completes_def by blast
  with f l show ?thesis by (cases out) (auto simp: run_task_def seq_def)
qed

end

text \<open>On Unix the executor does not poll the tree: its wait is the worker's own.\<close>

interpretation unix_settles: settling_tree "unix_platform pgrp" "\<lambda>_ _. True" for pgrp
  by unfold_locales (simp_all add: unix_platform_def unix_poll_empty_def)

text \<open>On Windows the replies from some call on say that no process is active, or fail.\<close>

definition job_empties :: "nat \<Rightarrow> sys \<Rightarrow> bool" where
  "job_empties k S \<longleftrightarrow> (\<forall>i \<ge> sys_count S + k. \<forall>n. sys_replies S i = Success n \<longrightarrow> n = 0)"

lemma job_empties_issues: "issues S cs S' \<Longrightarrow> job_empties k S \<Longrightarrow> job_empties k S'"
  unfolding issues_def job_empties_def by (metis add.assoc add.commute add_leD1)

lemma job_empties_spares: "spares bad S S' \<Longrightarrow> job_empties k S \<Longrightarrow> job_empties k S'"
  by (auto simp: spares_def intro: job_empties_issues)

lemma job_empties_unready:
  assumes "windows_poll_empty t S = (None, S')" and "job_empties k S"
  shows "\<exists>j. k = Suc j \<and> job_empties j S'"
  using assms
  by (cases k) (auto simp: windows_poll_empty_def call_or_def do_call_def job_empties_def split: reply.splits if_splits)

interpretation windows_settles: settling_tree "windows_platform pid" job_empties for pid
proof
  fix t S x S' k assume "tree_poll_empty (windows_platform pid) t S = (x, S')" and "job_empties k S"
  then show "job_empties k S'" by (blast dest: windows.poll_spares job_empties_spares)
next
  fix t S S' k assume "tree_poll_empty (windows_platform pid) t S = (None, S')" and "job_empties k S"
  then show "\<exists>j. k = Suc j \<and> job_empties j S'" by (simp add: windows_platform_def job_empties_unready)
next
  fix t S r S' k assume "tree_force (windows_platform pid) t S = (r, S')" and "job_empties k S"
  then show "job_empties k S'" by (blast dest: windows.force_kills job_empties_issues)
qed (blast dest: windows.graceful_spares windows.new_spares windows.attach_spares job_empties_spares)+

text \<open>
  C8. The executor does not hang on Unix: if the worker exits and the output pipes reach their end
  (or fail) at some point of the schedule, the coroutine of the task ends, whatever stop requests,
  timeouts and errors come in between.
\<close>

theorem unix_task_ends:
  assumes "ex_readers ex = []" and "WorkerExits st \<in> set (concat (ex_wakes ex))"
    and "\<forall>k<2. \<exists>e\<in>set (concat (ex_wakes ex)). closing e k"
  shows "fst (run_task L Q E (unix_platform pg) rt rargs ex) \<noteq> Pending"
  by (rule unix_settles.run_task_settles [where pre = "ex_wakes ex" and post = "[]"]) (use assms in auto)

text \<open>
  C9. Nor does it hang on Windows: if the worker exits and the output pipes reach their end in a
  first part of the schedule, and at most as many further queries of the job object find an active
  process as the schedule has batches left, then the coroutine of the task ends.
\<close>

theorem windows_task_ends:
  assumes "ex_readers ex = []" and "ex_wakes ex = pre @ post" and "WorkerExits st \<in> set (concat pre)"
    and "\<forall>k<2. \<exists>e\<in>set (concat pre). closing e k"
    and "\<forall>i n. sys_count (ex_sys ex) + length post \<le> i \<longrightarrow> sys_replies (ex_sys ex) i = Success n \<longrightarrow> n = 0"
  shows "fst (run_task L Q E (windows_platform pid) rt rargs ex) \<noteq> Pending"
  by (rule windows_settles.run_task_settles [OF assms(1-4)]) (use assms(5) in \<open>auto simp: job_empties_def\<close>)

section \<open>Witnesses\<close>

lemma demo_wakes_close: "\<forall>k<2. \<exists>e\<in>set (concat demo_wakes). closing e k"
proof -
  have "k < 2 \<longleftrightarrow> k = 0 \<or> k = (1 :: nat)" for k by auto
  then show ?thesis by (auto simp: demo_wakes_def closing_def)
qed

theorem unix_task_ends_witness:
  "fst (run_task demo_store_lib demo_proc_lib demo_start (unix_platform 7) demo_resolved_route []
     (demo_exec demo_wakes)) \<noteq> Pending"
  by (rule unix_task_ends [where st = "Some (ExitCode 0)"]) (use demo_wakes_close in \<open>auto simp: demo_wakes_def\<close>)

text \<open>Job 3 is created, configured and joined, then found with one active process.\<close>

definition demo_job_exec :: "windows_tree exec" where
  "demo_job_exec = (demo_exec (demo_wakes @ replicate 4 []))\<lparr>ex_sys :=
     \<lparr>sys_log = [], sys_replies = (\<lambda>i. if i = 0 then Success 3 else if i = 3 then Success 1 else Success 0), sys_count = 0\<rparr>\<rparr>"

theorem windows_task_ends_witness:
  "fst (run_task demo_store_lib demo_proc_lib demo_start (windows_platform 7) demo_resolved_route [] demo_job_exec) \<noteq> Pending"
  by (rule windows_task_ends [where st = "Some (ExitCode 0)" and pre = demo_wakes and post = "replicate 4 []"])
    (use demo_wakes_close in \<open>auto simp: demo_job_exec_def demo_wakes_def\<close>)

end
