(* ===== verification/Lifecycle.thy ===== *)
theory Lifecycle
  imports Process
begin

text \<open>
  The life cycle of a task (\<open>TaskStatus\<close> in \<open>src/src/model.rs\<close>, driven by \<open>run_task\<close> and
  \<open>start_task\<close> in \<open>src/src/process/mod.rs\<close>): the statuses that readers can see refine a small
  automaton, in which a finished status is never left.
\<close>

section \<open>The automaton\<close>

definition may_follow :: "task_status \<Rightarrow> task_status \<Rightarrow> bool" where
  "may_follow x y \<longleftrightarrow>
     (case x of
        Starting \<Rightarrow> y = Running \<or> y = Failed
      | Running \<Rightarrow> y = Stopping \<or> is_finished y
      | Stopping \<Rightarrow> y = Stopping \<or> is_finished y
      | _ \<Rightarrow> y = x)"

fun published_statuses :: "action list \<Rightarrow> task_status list" where
  "published_statuses [] = []"
| "published_statuses (Published x # tr) = x # published_statuses tr"
| "published_statuses (_ # tr) = published_statuses tr"

lemma published_statuses_append [simp]:
  "published_statuses (xs @ ys) = published_statuses xs @ published_statuses ys"
  by (induction xs rule: published_statuses.induct) simp_all

lemma published_statuses_log [simp]:
  "published_statuses (ex_trace (log_action a ex)) = published_statuses (ex_trace ex) @ published_statuses [a]"
  "ex_record (log_action a ex) = ex_record ex"
  by (simp_all add: log_action_def)

lemma may_follow_finished: "is_finished x \<Longrightarrow> may_follow x y \<longleftrightarrow> y = x"
  by (cases x) (auto simp: may_follow_def)

section \<open>Stages of the coroutine\<close>

text \<open>The published statuses follow the automaton, and the current one is among \<open>S\<close>.\<close>

definition stage :: "task_status set \<Rightarrow> 't exec \<Rightarrow> bool" where
  "stage S ex \<longleftrightarrow> (let l = Starting # published_statuses (ex_trace ex) in
     successively may_follow l \<and> last l = status (rec_snapshot (ex_record ex)) \<and>
     status (rec_snapshot (ex_record ex)) \<in> S)"

lemma stage_mono: "stage S ex \<Longrightarrow> S \<subseteq> S' \<Longrightarrow> stage S' ex"
  by (auto simp: stage_def Let_def)

lemma stage_frame:
  "stage S ex \<Longrightarrow> published_statuses (ex_trace ex') = published_statuses (ex_trace ex) \<Longrightarrow>
     rec_snapshot (ex_record ex') = rec_snapshot (ex_record ex) \<Longrightarrow> stage S ex'"
  by (simp add: stage_def)

lemma stage_transition:
  assumes "stage S ex" and "\<And>s. status s \<in> S \<Longrightarrow> may_follow (status s) (status (u s)) \<and> status (u s) \<in> S'"
  shows "stage S' (snd (ex_transition L u ex))"
proof -
  let ?s = "rec_snapshot (ex_record ex)" and ?l = "Starting # published_statuses (ex_trace ex)"
  from assms(1) have "successively may_follow ?l" "last ?l = status ?s" "status ?s \<in> S" by (auto simp: stage_def Let_def)
  with assms(2) [of ?s] have "successively may_follow (?l @ [status (u ?s)])" "status (u ?s) \<in> S'"
    by (simp_all only: successively_append_iff) auto
  then show ?thesis
    by (auto simp: stage_def Let_def ex_transition_eq split: prod.splits)
qed

abbreviation finished_statuses :: "task_status set" where
  "finished_statuses \<equiv> {x. is_finished x}"

interpretation stopping: coroutine_invariant P "stage {Running, Stopping}" L for P :: "'t platform" and L
proof
  fix ex :: "'t exec" and b bs assume "stage {Running, Stopping} (ex\<lparr>ex_wakes := b # bs\<rparr>)"
  then show "stage {Running, Stopping} ((fold absorb b ex)\<lparr>ex_wakes := bs\<rparr>)"
    by (rule stage_frame) (use fold_absorb_record [of b ex] in simp_all)
next
  fix ex :: "'t exec" and u assume "stage {Running, Stopping} ex" and u: "stop_update P u"
  then show "stage {Running, Stopping} (snd (ex_transition L u ex))"
    by (intro stage_transition) (auto simp: may_follow_def stop_update_fields [OF u])
qed (auto elim!: stage_frame)

lemma stage_keeps_launch:
  fixes P :: "'t platform"
  shows "keeps (stage S) (start_capture E rt :: 't exec \<Rightarrow> unit outcome \<times> 't exec)" "keeps (stage S) (set_tree t)"
    "keeps (stage S) (spawn_worker E P)" "keeps (stage S) (ex_sysop g :: 't exec \<Rightarrow> 'a outcome \<times> 't exec)"
    "keeps (stage S) (act (ControlWritten l) :: 't exec \<Rightarrow> unit outcome \<times> 't exec)"
    "keeps (stage S) (do_exec close_control :: 't exec \<Rightarrow> unit outcome \<times> 't exec)"
    "keeps (stage S) (do_exec release_permits :: 't exec \<Rightarrow> unit outcome \<times> 't exec)"
proof -
  have "keeps (stage S) (start_readers ok n rs :: 't exec \<Rightarrow> unit outcome \<times> 't exec)" for ok n rs
    unfolding keeps_def using start_readers_frame [of ok n rs] stage_frame by (metis prod.collapse)
  then show "keeps (stage S) (start_capture E rt :: 't exec \<Rightarrow> unit outcome \<times> 't exec)"
    unfolding start_capture_def by (intro step_intros)
qed (auto simp: keeps_def set_tree_def spawn_worker_def ex_sysop_def act_def do_exec_def close_control_def release_permits_def
    elim!: stage_frame split: option.splits prod.splits)

lemma launch_stages:
  fixes P :: "'t platform"
  shows "triple (stage {Starting}) (launch L Q E P rt rargs) (stage {Running, Stopping}) (stage UNIV)"
proof -
  note k = stage_keeps_launch [where S = "{Starting}"]
  have init: "keeps (stage {Starting} :: 't exec \<Rightarrow> bool) (case init_line Q rt rargs of
      None \<Rightarrow> fail SpecNotJson | Some line \<Rightarrow> act (ControlWritten line))"
    by (auto intro: k step_intros split: option.split)
  have start: "triple (stage {Starting}) (\<lambda>ex :: 't exec. ex_transition L (start_update (stamp Q (ex_now ex))) ex)
      (stage {Running, Stopping}) (stage UNIV)"
  proof (rule tripleI)
    fix ex ex' :: "'t exec" and out
    assume "stage {Starting} ex" and t: "ex_transition L (start_update (stamp Q (ex_now ex))) ex = (out, ex')"
    then have "stage {Running, Stopping} (snd (ex_transition L (start_update (stamp Q (ex_now ex))) ex))"
      by (intro stage_transition) (auto simp: may_follow_def start_update_def)
    with t show "case out of Ret _ \<Rightarrow> stage {Running, Stopping} ex' | _ \<Rightarrow> stage UNIV ex'"
      by (cases out) (auto elim: stage_mono)
  qed
  show ?thesis
    unfolding launch_def
    by (rule triple_after [OF k(1)] triple_after [OF k(2)] triple_after [OF k(3)] triple_after [OF k(4)]
        triple_after [OF keeps_pure(3)] triple_after [OF init] triple_before [OF start])+
      (auto intro!: step_intros elim: stage_mono)
qed

lemma conclude_stages:
  fixes P :: "'t platform"
  shows "triple (stage {Running, Stopping}) (conclude L Q P t rt d) (stage finished_statuses) (stage UNIV)"
proof -
  note k = stage_keeps_launch [where S = "{Running, Stopping}"]
  have join: "keeps (stage {Running, Stopping}) (\<lambda>ex :: 't exec. join_readers [0..<length (ex_readers ex)] ex)"
    by (auto simp: keeps_def intro: stopping.join_readers_keeps [unfolded keeps_def, rule_format])
  have final: "triple (stage {Running, Stopping}) (\<lambda>ex :: 't exec. ex_transition L (final_update (stamp Q (ex_now ex)) why st) ex)
      (stage finished_statuses) (stage UNIV)" for why st
  proof (rule tripleI)
    fix ex ex' :: "'t exec" and out
    assume "stage {Running, Stopping} ex" and t: "ex_transition L (final_update (stamp Q (ex_now ex)) why st) ex = (out, ex')"
    then have "stage finished_statuses (snd (ex_transition L (final_update (stamp Q (ex_now ex)) why st) ex))"
      by (intro stage_transition) (auto simp: may_follow_def)
    with t show "case out of Ret _ \<Rightarrow> stage finished_statuses ex' | _ \<Rightarrow> stage UNIV ex'"
      by (cases out) (auto elim: stage_mono)
  qed
  show ?thesis
    unfolding conclude_def split_def
    by (intro triple_after stopping.wait_for_end_keeps stopping.drain_tree_keeps k join final) (auto elim: stage_mono)
qed

lemma run_task_stages:
  "triple (stage {Starting}) (run_task L Q E P rt rargs) (stage finished_statuses) (stage UNIV)"
  unfolding run_task_def by (rule triple_seq [OF launch_stages]) (auto intro: conclude_stages split: prod.split)

lemma start_task_statuses:
  fixes P :: "'t platform"
  assumes "start_task L Q E P rt rargs ex st = (out, ex', st')"
    and "status (rec_snapshot (ex_record ex)) = Starting" and "ex_trace ex = []"
  shows "successively may_follow (Starting # published_statuses (ex_trace ex')) \<and>
    last (Starting # published_statuses (ex_trace ex')) = status (rec_snapshot (ex_record ex'))"
proof -
  let ?ex = "ex\<lparr>ex_seen := length (stop_sent (ex_record ex))\<rparr>"
  obtain o1 e1 where r: "run_task L Q E P rt rargs ?ex = (o1, e1)" by fastforce
  have i: "stage {Starting} ?ex" using assms(2,3) by (simp add: stage_def)
  from triple_outcome [OF run_task_stages i r] have "stage UNIV e1" by (cases o1) (auto elim: stage_mono)
  then have leave: "stage UNIV (leave_run P e1)"
    by (rule stage_frame) (simp_all add: leave_run_def release_permits_def close_control_def)
  have "stage UNIV (snd (ex_transition L (failed_update ts e) (leave_run P e1)))" for ts e
    by (rule stage_transition [OF leave]) (auto simp: failed_update_def may_follow_def split: task_status.split)
  with assms(1) r leave \<open>stage UNIV e1\<close> have "stage UNIV ex'"
    by (cases o1) (simp_all add: start_task_def Let_def, metis+)
  then show ?thesis by (simp add: stage_def Let_def)
qed

text \<open>
  C10. The statuses a client can see follow the documented life cycle in every schedule and under
  every failure: Starting, then Running or Failed, then any number of Stopping, then one finished
  status, which never changes again; the last one is the current status of the record.
\<close>

theorem task_lifecycle:
  fixes P :: "'t platform"
  assumes "start_task L Q E P rt rargs ex st = (out, ex', st')"
    and "status (rec_snapshot (ex_record ex)) = Starting" and "ex_trace ex = []"
  shows "successively may_follow (Starting # published_statuses (ex_trace ex')) \<and>
    last (Starting # published_statuses (ex_trace ex')) = status (rec_snapshot (ex_record ex'))"
  by (rule start_task_statuses [OF assms])

theorem task_lifecycle_witness:
  "\<exists>ex' st'. start_task demo_store_lib demo_proc_lib demo_start (unix_platform 7)
     demo_resolved_route [] (demo_exec demo_wakes) (demo_store demo_record) = (Ret (), ex', st') \<and>
     successively may_follow (Starting # published_statuses (ex_trace ex')) \<and>
     is_finished (last (Starting # published_statuses (ex_trace ex')))"
proof -
  obtain e where r: "run_task demo_store_lib demo_proc_lib demo_start (unix_platform 7) demo_resolved_route []
     (demo_exec demo_wakes) = (Ret (), e)" by (rule demo_run)
  then obtain ex' st' where s: "start_task demo_store_lib demo_proc_lib demo_start (unix_platform 7)
     demo_resolved_route [] (demo_exec demo_wakes) (demo_store demo_record) = (Ret (), ex', st')"
    and e: "ex_record ex' = ex_record e" by (simp add: start_task_def Let_def)
  from r have "is_finished (status (rec_snapshot (ex_record e)))"
    by (rule run_task_Ret) (auto dest: transition_snapshot)
  with task_lifecycle [OF s] s e show ?thesis by auto
qed

end
