(* ===== verification/Worker.thy ===== *)
theory Worker
  imports Process
begin

text \<open>
  The worker process (\<open>worker_main\<close>, \<open>run_worker\<close>, \<open>build_script_command\<close> of
  \<open>src/src/process/mod.rs\<close> and the \<open>__worker\<close> branch of \<open>main\<close> in
  \<open>src/src/main.rs\<close>): it reads its specification from standard input, runs the script and
  watches the control pipe from a second thread. The waiting loop is a
  \<open>partial_function\<close>: not returning is \<open>None\<close>, and that it does return is a theorem.
\<close>

section \<open>Trimming\<close>

fun trim_start_fuel :: "nat \<Rightarrow> string \<Rightarrow> string" where
  "trim_start_fuel 0 s = s"
| "trim_start_fuel (Suc n) s = (case strip_blank s of None \<Rightarrow> s | Some t \<Rightarrow> trim_start_fuel n t)"

definition trim_start :: "string \<Rightarrow> string" where
  "trim_start s = trim_start_fuel (length s) s"

text \<open>The longest blank tail goes; no byte inside a UTF-8 character starts a blank one.\<close>

definition trim_end :: "string \<Rightarrow> string" where
  "trim_end s = (case find (\<lambda>n. is_blank (drop n s)) [0..<Suc (length s)] of None \<Rightarrow> s | Some n \<Rightarrow> take n s)"

definition trim :: "string \<Rightarrow> string" where
  "trim s = trim_end (trim_start s)"

section \<open>The control pipe\<close>

text \<open>A result of \<open>read_line\<close>: a line with its terminator, the end of the pipe, or an error.\<close>

datatype control_read = ControlLine string | ControlEof | ControlError

text \<open>The value of \<open>stop_requested\<close> after the reader thread has seen these results.\<close>

fun control_reader :: "control_read list \<Rightarrow> bool" where
  "control_reader [] = False"
| "control_reader (ControlEof # _) = True"
| "control_reader (ControlError # _) = True"
| "control_reader (ControlLine line # rs) = (if trim line = ''terminate'' then True else control_reader rs)"

section \<open>The script\<close>

text \<open>The command of the script; its standard input is always null, its outputs are inherited.\<close>

record script_command =
  sc_program :: string
  sc_args :: "string list"
  sc_current_dir :: string
  sc_envs :: "(string \<times> string) list"

definition build_script_command :: "worker_spec \<Rightarrow> script_command" where
  "build_script_command spec =
     \<lparr>sc_program = ws_program spec,
      sc_args = launcher_args (ws_executor spec) @ [ws_script spec] @ ws_fixed_args spec @ ws_request_args spec,
      sc_current_dir = ws_working_directory spec, sc_envs = ws_env spec\<rparr>"

section \<open>The waiting loop\<close>

text \<open>
  What the worker meets: its first line, whether the script starts, and for the \<open>n\<close>-th round
  of the loop what the reader thread has read by then, the result of \<open>try_wait\<close>
  (\<open>None\<close> an error) and the clock when the graceful signal is sent and when the grace period
  is checked.
\<close>

record worker_env =
  we_init :: control_read
  we_spawn_ok :: bool
  we_control :: "nat \<Rightarrow> control_read list"
  we_try_wait :: "nat \<Rightarrow> exit_status option option"
  we_sent_at :: "nat \<Rightarrow> instant"
  we_checked_at :: "nat \<Rightarrow> instant"

datatype loop_end = ScriptExited exit_status | LoopFailed error | LoopForced forced_end

definition worker_stop :: "worker_env \<Rightarrow> nat \<Rightarrow> bool" where
  "worker_stop W n = control_reader (we_control W n)"

definition worker_round ::
  "'t platform \<Rightarrow> worker_env \<Rightarrow> u64 \<Rightarrow> nat \<Rightarrow> instant option \<Rightarrow> sys \<Rightarrow> ((loop_end + instant option) \<times> sys) option" where
  "worker_round P W secs n sent S =
     (case (if worker_stop W n \<and> sent = None then
              (case worker_graceful P S of
                 (Inl e, S') \<Rightarrow> (Inl e, S')
               | (Inr _, S') \<Rightarrow> (Inr (Some (we_sent_at W n)), S'))
            else (Inr sent, S)) of
        (Inl e, S1) \<Rightarrow> Some (Inl (LoopFailed e), S1)
      | (Inr sent1, S1) \<Rightarrow>
         (case we_try_wait W n of
            None \<Rightarrow> Some (Inl (LoopFailed (ProcessError ScriptWait)), S1)
          | Some (Some st) \<Rightarrow> Some (Inl (ScriptExited st), S1)
          | Some None \<Rightarrow>
             (case sent1 of
                None \<Rightarrow> Some (Inr None, S1)
              | Some started \<Rightarrow>
                  if unat secs * nanos_per_sec \<le> we_checked_at W n - started
                  then (case worker_force P S1 of
                          None \<Rightarrow> None
                        | Some (gone, S2) \<Rightarrow> Some (Inl (LoopForced gone), S2))
                  else Some (Inr (Some started), S1))))"

partial_function (option) worker_loop ::
  "'t platform \<Rightarrow> worker_env \<Rightarrow> u64 \<Rightarrow> nat \<Rightarrow> instant option \<Rightarrow> sys \<Rightarrow> (loop_end \<times> sys) option" where
  "worker_loop Pl W secs n sent S =
     (case worker_round Pl W secs n sent S of
        None \<Rightarrow> None
      | Some (Inl r, S') \<Rightarrow> Some (r, S')
      | Some (Inr sent', S') \<Rightarrow> worker_loop Pl W secs (Suc n) sent' S')"

section \<open>The worker\<close>

datatype worker_end = WorkerReturned "error + int" | WorkerGone forced_end

definition worker_init :: "proc_lib \<Rightarrow> control_read \<Rightarrow> error + worker_spec" where
  "worker_init Q first =
     (case first of
        ControlError \<Rightarrow> Inl (ProcessError WorkerInitRead)
      | ControlEof \<Rightarrow> Inl (ProcessError WorkerNoInit)
      | ControlLine line \<Rightarrow>
         (case spec_from_json Q (trim_end line) of
            None \<Rightarrow> Inl (ProcessError WorkerInitInvalid)
          | Some spec \<Rightarrow> Inr spec))"

definition worker_finish :: "'t platform \<Rightarrow> exit_status \<Rightarrow> sys \<Rightarrow> (worker_end \<times> sys) option" where
  "worker_finish P st S =
     (case worker_wait P S of
        None \<Rightarrow> None
      | Some (Inl e, S') \<Rightarrow> Some (WorkerReturned (Inl e), S')
      | Some (Inr _, S') \<Rightarrow>
          Some (WorkerReturned (Inr (case exit_code_of st of None \<Rightarrow> 1 | Some c \<Rightarrow> c)), S'))"

text \<open>The result comes with the command that was spawned, if any.\<close>

definition run_worker ::
  "proc_lib \<Rightarrow> 't platform \<Rightarrow> worker_env \<Rightarrow> sys \<Rightarrow> script_command option \<times> (worker_end \<times> sys) option" where
  "run_worker Q P W S =
     (case worker_setup P S of
        (Inl e, S1) \<Rightarrow> (None, Some (WorkerReturned (Inl e), S1))
      | (Inr _, S1) \<Rightarrow>
         (case worker_init Q (we_init W) of
            Inl e \<Rightarrow> (None, Some (WorkerReturned (Inl e), S1))
          | Inr spec \<Rightarrow>
              if \<not> we_spawn_ok W then (None, Some (WorkerReturned (Inl (ProcessError (ScriptSpawn (ws_program spec) (ws_script spec)))), S1))
              else
                (Some (build_script_command spec),
                 (case worker_loop P W (ws_graceful_shutdown_seconds spec) 0 None S1 of
                    None \<Rightarrow> None
                  | Some (LoopFailed e, S2) \<Rightarrow> Some (WorkerReturned (Inl e), S2)
                  | Some (LoopForced gone, S2) \<Rightarrow> Some (WorkerGone gone, S2)
                  | Some (ScriptExited st, S2) \<Rightarrow> worker_finish P st S2))))"

datatype process_end = ExitedWith int | Vanished forced_end

fun worker_main :: "worker_end \<Rightarrow> process_end" where
  "worker_main (WorkerReturned (Inr code)) = ExitedWith code"
| "worker_main (WorkerReturned (Inl e)) = ExitedWith 127"
| "worker_main (WorkerGone gone) = Vanished gone"

text \<open>The branch of \<open>main\<close>: \<open>code.clamp(0, 255)\<close>.\<close>

fun worker_exit :: "process_end \<Rightarrow> process_end" where
  "worker_exit (ExitedWith code) = ExitedWith (max 0 (min 255 code))"
| "worker_exit (Vanished gone) = Vanished gone"

section \<open>The loop ends\<close>

lemma control_reader_prefix: "prefix xs ys \<Longrightarrow> control_reader xs \<Longrightarrow> control_reader ys"
  by (induction xs arbitrary: ys rule: control_reader.induct) (auto simp: prefix_def split: if_splits)

text \<open>A clock that does not stop.\<close>

definition clock_advances :: "(nat \<Rightarrow> instant) \<Rightarrow> bool" where
  "clock_advances c \<longleftrightarrow> (\<forall>b. \<exists>n. \<forall>k\<ge>n. b \<le> c k)"

text \<open>The first round from \<open>n\<close> on in which the stop flag is up.\<close>

definition first_stop :: "worker_env \<Rightarrow> nat \<Rightarrow> nat \<Rightarrow> bool" where
  "first_stop W n m \<longleftrightarrow> n \<le> m \<and> worker_stop W m \<and> (\<forall>j. n \<le> j \<and> j < m \<longrightarrow> \<not> worker_stop W j)"

text \<open>The script outlives the grace period: from round \<open>n\<close> on, with the signal sent at \<open>t\<close>, it is
  running until a round in which the period is over; \<open>outlived\<close> counts from the first stop if the
  signal was not sent yet.\<close>

definition outlives :: "worker_env \<Rightarrow> u64 \<Rightarrow> nat \<Rightarrow> instant \<Rightarrow> bool" where
  "outlives W secs n t \<longleftrightarrow>
     (\<exists>k\<ge>n. unat secs * nanos_per_sec \<le> we_checked_at W k - t \<and> (\<forall>j. n \<le> j \<and> j \<le> k \<longrightarrow> we_try_wait W j = Some None))"

definition outlived :: "worker_env \<Rightarrow> u64 \<Rightarrow> nat \<Rightarrow> instant option \<Rightarrow> bool" where
  "outlived W secs n sent =
     (case sent of
        Some t \<Rightarrow> outlives W secs n t
      | None \<Rightarrow> \<exists>m. first_stop W n m \<and> (\<forall>j. n \<le> j \<and> j < m \<longrightarrow> we_try_wait W j = Some None) \<and>
          outlives W secs m (we_sent_at W m))"

lemma first_stop_Suc: "first_stop W (Suc n) m \<Longrightarrow> \<not> worker_stop W n \<Longrightarrow> first_stop W n m"
  unfolding first_stop_def by (metis Suc_leD Suc_leI le_neq_implies_less)

lemma first_stop_here: "worker_stop W n \<Longrightarrow> first_stop W n n"
  by (auto simp: first_stop_def)

lemma outlives_Suc: "outlives W secs (Suc n) t \<Longrightarrow> we_try_wait W n = Some None \<Longrightarrow> outlives W secs n t"
  unfolding outlives_def by (metis Suc_leD Suc_leI le_neq_implies_less)

lemma outlives_here:
  "we_try_wait W n = Some None \<Longrightarrow> unat secs * nanos_per_sec \<le> we_checked_at W n - t \<Longrightarrow> outlives W secs n t"
  unfolding outlives_def by (intro exI [of _ n]) (auto dest: le_antisym)

lemma worker_loop_unfold:
  "worker_round P W secs n sent S = None \<Longrightarrow> worker_loop P W secs n sent S = None"
  "worker_round P W secs n sent S = Some (Inl r, S') \<Longrightarrow> worker_loop P W secs n sent S = Some (r, S')"
  "worker_round P W secs n sent S = Some (Inr sent', S') \<Longrightarrow> worker_loop P W secs n sent S = worker_loop P W secs (Suc n) sent' S'"
  by (subst worker_loop.simps, simp)+

lemma worker_round_sent:
  assumes "worker_round P W secs n sent S = Some (Inr sent', S')"
  shows "we_try_wait W n = Some None"
    and "sent' = (if worker_stop W n \<and> sent = None then Some (we_sent_at W n) else sent)"
    and "\<And>t. sent' = Some t \<Longrightarrow> we_checked_at W n < unat secs * nanos_per_sec + t"
  using assms by (auto simp: worker_round_def split: option.splits if_splits prod.splits sum.splits)

lemma worker_round_None:
  assumes "worker_round P W secs n sent S = None"
  shows "outlived W secs n sent \<and> (\<exists>S'. worker_force P S' = None)"
  using assms
  by (auto simp: worker_round_def outlived_def split: option.splits if_splits prod.splits sum.splits
      intro: outlives_here intro!: exI [of _ n] first_stop_here)

text \<open>The loop has ended, or the platform's last resort does not return and the script outlived
  the grace period.\<close>

definition settled :: "'t platform \<Rightarrow> worker_env \<Rightarrow> u64 \<Rightarrow> nat \<Rightarrow> instant option \<Rightarrow> sys \<Rightarrow> bool" where
  "settled P W secs n sent S \<longleftrightarrow>
     worker_loop P W secs n sent S \<noteq> None \<or> outlived W secs n sent \<and> (\<exists>S'. worker_force P S' = None)"

lemma settled_step:
  assumes "\<And>sent' S'. worker_round P W secs n sent S = Some (Inr sent', S') \<Longrightarrow> settled P W secs (Suc n) sent' S'"
  shows "settled P W secs n sent S"
proof (cases "worker_round P W secs n sent S")
  case None
  with worker_round_None show ?thesis unfolding settled_def by blast
next
  case (Some x)
  obtain a S' where x: "x = (a, S')" by fastforce
  show ?thesis
  proof (cases a)
    case (Inl r)
    with Some x worker_loop_unfold(2) show ?thesis unfolding settled_def by fastforce
  next
    case (Inr sent')
    with Some x have r: "worker_round P W secs n sent S = Some (Inr sent', S')" by simp
    note sent = worker_round_sent [OF r]
    have "outlived W secs n sent" if "outlived W secs (Suc n) sent'"
    proof (cases sent)
      case (Some t)
      with that sent(1,2) show ?thesis by (auto simp: outlived_def intro: outlives_Suc)
    next
      case None
      show ?thesis
      proof (cases "worker_stop W n")
        case True
        with that sent(1,2) None show ?thesis
          by (auto simp: outlived_def intro!: exI [of _ n] first_stop_here outlives_Suc)
      next
        case False
        with that sent(2) None obtain m where m: "first_stop W (Suc n) m" "outlives W secs m (we_sent_at W m)"
          "\<forall>j. Suc n \<le> j \<and> j < m \<longrightarrow> we_try_wait W j = Some None" by (auto simp: outlived_def)
        moreover have "\<forall>j. n \<le> j \<and> j < m \<longrightarrow> we_try_wait W j = Some None"
          using m(3) sent(1) by (metis Suc_leI le_neq_implies_less)
        ultimately show ?thesis using None False by (auto simp: outlived_def intro: first_stop_Suc)
      qed
    qed
    with assms [OF r] worker_loop_unfold(3) [OF r] show ?thesis unfolding settled_def by auto
  qed
qed

lemma settled_after_signal:
  assumes "\<forall>k\<ge>n0. unat secs * nanos_per_sec + t \<le> we_checked_at W k"
  shows "settled P W secs n (Some t) S"
proof (induction "n0 - n" arbitrary: n S)
  case (0 n S)
  have over: "unat secs * nanos_per_sec + t \<le> we_checked_at W n" using assms 0 by simp
  show ?case
  proof (rule settled_step)
    fix sent' S' assume r: "worker_round P W secs n (Some t) S = Some (Inr sent', S')"
    with worker_round_sent(2,3) [OF r] over show "settled P W secs (Suc n) sent' S'" by simp
  qed
next
  case (Suc d n S)
  show ?case
  proof (rule settled_step)
    fix sent' S' assume r: "worker_round P W secs n (Some t) S = Some (Inr sent', S')"
    with worker_round_sent(2) [OF r] have "sent' = Some t" by simp
    moreover have "d = n0 - Suc n" using Suc.hyps(2) by simp
    ultimately show "settled P W secs (Suc n) sent' S'" using Suc.hyps(1) by blast
  qed
qed

lemma settled_some_time:
  assumes "clock_advances (we_checked_at W)"
  shows "settled P W secs n (Some t) S"
proof -
  from assms obtain n0 where "\<forall>k\<ge>n0. unat secs * nanos_per_sec + t \<le> we_checked_at W k"
    unfolding clock_advances_def by blast
  then show ?thesis by (rule settled_after_signal)
qed

lemma worker_loop_settles:
  assumes "clock_advances (we_checked_at W)" and "\<forall>k\<ge>m. worker_stop W k"
  shows "settled P W secs n None S"
proof (induction "m - n" arbitrary: n S)
  case (0 n S)
  have stop: "worker_stop W n" using 0 assms(2) by simp
  show ?case
  proof (rule settled_step)
    fix sent' S' assume r: "worker_round P W secs n None S = Some (Inr sent', S')"
    from worker_round_sent(2) [OF r] stop have "sent' = Some (we_sent_at W n)" by simp
    then show "settled P W secs (Suc n) sent' S'" using settled_some_time [OF assms(1)] by simp
  qed
next
  case (Suc d n S)
  show ?case
  proof (rule settled_step)
    fix sent' S'
    have "d = m - Suc n" using Suc.hyps(2) by simp
    then show "settled P W secs (Suc n) sent' S'"
      using Suc.hyps(1) settled_some_time [OF assms(1)] by (cases sent') blast+
  qed
qed

text \<open>On Windows the loop is really stuck in its last resort when the script outlives the grace period.\<close>

lemma windows_sleeps_after:
  assumes "outlives W secs n t"
  shows "worker_loop (windows_platform pid) W secs n (Some t) S = None"
proof -
  from assms obtain k where "n \<le> k" "unat secs * nanos_per_sec \<le> we_checked_at W k - t"
    "\<forall>j. n \<le> j \<and> j \<le> k \<longrightarrow> we_try_wait W j = Some None" unfolding outlives_def by blast
  then show ?thesis
  proof (induction "k - n" arbitrary: n)
    case 0
    then have "worker_round (windows_platform pid) W secs n (Some t) S = None"
      by (simp add: worker_round_def windows_platform_def)
    then show ?case by (rule worker_loop_unfold)
  next
    case (Suc d)
    have "we_try_wait W n = Some None" using Suc.prems by simp
    then have r: "worker_round (windows_platform pid) W secs n (Some t) S =
        (if unat secs * nanos_per_sec \<le> we_checked_at W n - t then None else Some (Inr (Some t), S))"
      by (simp add: worker_round_def windows_platform_def)
    show ?case
    proof (cases "unat secs * nanos_per_sec \<le> we_checked_at W n - t")
      case True
      with r show ?thesis by (intro worker_loop_unfold) simp
    next
      case False
      have "worker_loop (windows_platform pid) W secs (Suc n) (Some t) S = None"
        using Suc.hyps(2) Suc.prems by (intro Suc.hyps(1)) auto
      with False r worker_loop_unfold(3) show ?thesis by fastforce
    qed
  qed
qed

lemma windows_sleeps:
  assumes "outlived W secs n None" and g: "worker_graceful (windows_platform pid) S = (Inr (), S1)"
  shows "worker_loop (windows_platform pid) W secs n None S = None"
proof -
  from assms(1) obtain m where "first_stop W n m" "\<forall>j. n \<le> j \<and> j < m \<longrightarrow> we_try_wait W j = Some None"
    and m: "outlives W secs m (we_sent_at W m)" by (auto simp: outlived_def)
  then show ?thesis
  proof (induction "m - n" arbitrary: n)
    case (0 n)
    then have "n = m" "worker_stop W m" by (simp_all add: first_stop_def)
    then have "worker_round (windows_platform pid) W secs n None S =
        worker_round (windows_platform pid) W secs m (Some (we_sent_at W m)) S1"
      by (simp add: worker_round_def g)
    with windows_sleeps_after [OF m, of pid S1] show ?case by (simp add: worker_loop.simps \<open>n = m\<close>)
  next
    case (Suc d n)
    then have "n < m" "\<not> worker_stop W n" "we_try_wait W n = Some None" by (auto simp: first_stop_def)
    then have "worker_round (windows_platform pid) W secs n None S = Some (Inr None, S)" by (simp add: worker_round_def)
    moreover have "first_stop W (Suc n) m" using Suc.prems(1) \<open>n < m\<close> by (auto simp: first_stop_def)
    then have "worker_loop (windows_platform pid) W secs (Suc n) None S = None"
      using Suc.hyps(2) Suc.prems by (intro Suc.hyps(1)) auto
    ultimately show ?case using worker_loop_unfold(3) by fastforce
  qed
qed

text \<open>
  C26. No orphaned worker: once the control pipe is closed (the service is gone) or says
  \<open>terminate\<close>, then on Unix the waiting loop of the worker ends, whatever the script does. On
  Windows it ends unless the script outlives the grace period; in that case, if the console event could
  be sent, the worker sleeps for ever and is left to the job object of the service. Both provided
  that what was read stays read and the clock advances.
\<close>

theorem worker_loop_ends:
  assumes "\<And>m n. m \<le> n \<Longrightarrow> prefix (we_control W m) (we_control W n)"
    and "control_reader (we_control W m)" and "clock_advances (we_checked_at W)"
  shows "(\<exists>r S'. worker_loop (unix_platform pg) W secs 0 None S = Some (r, S')) \<and>
    ((\<exists>r S'. worker_loop (windows_platform pid) W secs 0 None S = Some (r, S')) \<or> outlived W secs 0 None) \<and>
    (outlived W secs 0 None \<and> fst (worker_graceful (windows_platform pid) S) = Inr () \<longrightarrow>
       worker_loop (windows_platform pid) W secs 0 None S = None)"
proof -
  have "\<forall>k\<ge>m. worker_stop W k"
    using assms(1,2) control_reader_prefix unfolding worker_stop_def by blast
  from worker_loop_settles [OF assms(3) this] have s: "settled P W secs 0 None S" for P :: "'t platform" .
  have "worker_force (unix_platform pg) S' \<noteq> None" for S' by (simp add: unix_platform_def)
  then have "worker_loop (unix_platform pg) W secs 0 None S \<noteq> None" using s [of "unix_platform pg"] unfolding settled_def by blast
  moreover have "worker_loop (windows_platform pid) W secs 0 None S = None"
    if "outlived W secs 0 None" "fst (worker_graceful (windows_platform pid) S) = Inr ()"
    using windows_sleeps [OF that(1), of pid S] that(2) by (metis prod.collapse)
  ultimately show ?thesis using s [of "windows_platform pid"] by (auto simp: settled_def)
qed

section \<open>The signals of the worker\<close>

text \<open>What the loop may do after the graceful signal was sent at the clock reading \<open>t\<close>.\<close>

definition signals_after :: "int \<Rightarrow> worker_env \<Rightarrow> u64 \<Rightarrow> nat \<Rightarrow> instant \<Rightarrow> loop_end \<Rightarrow> syscall list \<Rightarrow> bool" where
  "signals_after pg W secs n t r cs \<longleftrightarrow>
     cs = [] \<and> (\<forall>g. r \<noteq> LoopForced g) \<or>
     cs = [KillPg pg SIGKILL] \<and> r = LoopForced Aborted \<and>
       (\<exists>k\<ge>n. unat secs * nanos_per_sec \<le> we_checked_at W k - t \<and> (\<forall>j. n \<le> j \<and> j \<le> k \<longrightarrow> we_try_wait W j = Some None))"

definition signals_from :: "int \<Rightarrow> worker_env \<Rightarrow> u64 \<Rightarrow> nat \<Rightarrow> loop_end \<Rightarrow> syscall list \<Rightarrow> bool" where
  "signals_from pg W secs n r cs \<longleftrightarrow>
     cs = [] \<and> (\<forall>g. r \<noteq> LoopForced g) \<or>
     (\<exists>m cs'. first_stop W n m \<and> cs = KillPg pg SIGTERM # cs' \<and> signals_after pg W secs m (we_sent_at W m) r cs')"

definition worker_signals :: "int \<Rightarrow> worker_env \<Rightarrow> u64 \<Rightarrow> nat \<Rightarrow> instant option \<Rightarrow> loop_end \<Rightarrow> syscall list \<Rightarrow> bool" where
  "worker_signals pg W secs n sent r cs =
     (case sent of None \<Rightarrow> signals_from pg W secs n r cs | Some t \<Rightarrow> signals_after pg W secs n t r cs)"

lemma signals_after_Suc:
  assumes "signals_after pg W secs (Suc n) t r cs" and "we_try_wait W n = Some None"
  shows "signals_after pg W secs n t r cs"
proof -
  have "\<forall>j. n \<le> j \<and> j \<le> k \<longrightarrow> we_try_wait W j = Some None"
    if "\<forall>j. Suc n \<le> j \<and> j \<le> k \<longrightarrow> we_try_wait W j = Some None" for k
    using that assms(2) by (metis Suc_leI le_neq_implies_less)
  with assms(1) show ?thesis unfolding signals_after_def by (meson Suc_leD)
qed

lemma unix_graceful_issues:
  "worker_graceful (unix_platform pg) S = (res, S') \<Longrightarrow> issues S [KillPg pg SIGTERM] S'"
  by (auto simp: unix_platform_def unix_worker_graceful_def dest: killpg_issues)

lemma unix_force_issues:
  "worker_force (unix_platform pg) S = Some (gone, S') \<Longrightarrow> gone = Aborted \<and> issues S [KillPg pg SIGKILL] S'"
  by (auto simp: unix_platform_def unix_worker_force_def)

text \<open>One round after the graceful signal, and the whole round.\<close>

definition round_rest ::
  "'t platform \<Rightarrow> worker_env \<Rightarrow> u64 \<Rightarrow> nat \<Rightarrow> instant option \<Rightarrow> sys \<Rightarrow> ((loop_end + instant option) \<times> sys) option" where
  "round_rest P W secs n sent S =
     (case we_try_wait W n of
        None \<Rightarrow> Some (Inl (LoopFailed (ProcessError ScriptWait)), S)
      | Some (Some st) \<Rightarrow> Some (Inl (ScriptExited st), S)
      | Some None \<Rightarrow>
         (case sent of
            None \<Rightarrow> Some (Inr None, S)
          | Some started \<Rightarrow>
              if unat secs * nanos_per_sec \<le> we_checked_at W n - started
              then (case worker_force P S of None \<Rightarrow> None | Some (gone, S2) \<Rightarrow> Some (Inl (LoopForced gone), S2))
              else Some (Inr (Some started), S)))"

lemma round_split:
  "worker_round P W secs n sent S =
     (if worker_stop W n \<and> sent = None then
        (case worker_graceful P S of
           (Inl e, S') \<Rightarrow> Some (Inl (LoopFailed e), S')
         | (Inr _, S') \<Rightarrow> round_rest P W secs n (Some (we_sent_at W n)) S')
      else round_rest P W secs n sent S)"
  by (auto simp: worker_round_def round_rest_def split: prod.split sum.split)

lemma unix_rest:
  assumes "round_rest (unix_platform pg) W secs n sent S = Some (x, S')"
  shows "\<exists>cs. issues S cs S' \<and>
    (case x of
       Inr sent' \<Rightarrow> cs = [] \<and> sent' = sent \<and> we_try_wait W n = Some None
     | Inl r \<Rightarrow> (case sent of None \<Rightarrow> cs = [] \<and> (\<forall>g. r \<noteq> LoopForced g) | Some t \<Rightarrow> signals_after pg W secs n t r cs))"
proof (cases "\<exists>t. sent = Some t \<and> we_try_wait W n = Some None \<and> unat secs * nanos_per_sec \<le> we_checked_at W n - t")
  case True
  then obtain t where t: "sent = Some t" "we_try_wait W n = Some None" "unat secs * nanos_per_sec \<le> we_checked_at W n - t"
    by blast
  obtain S2 gone where f: "worker_force (unix_platform pg) S = Some (gone, S2)" by (simp add: unix_platform_def)
  with assms t have "x = Inl (LoopForced gone)" "S' = S2" by (simp_all add: round_rest_def)
  moreover have "signals_after pg W secs n t (LoopForced Aborted) [KillPg pg SIGKILL]"
    unfolding signals_after_def using t(2,3) by (metis le_antisym order_refl)
  ultimately show ?thesis using unix_force_issues [OF f] t(1) by auto
next
  case False
  with assms have "S' = S" and "case x of Inr sent' \<Rightarrow> sent' = sent \<and> we_try_wait W n = Some None | Inl r \<Rightarrow> (\<forall>g. r \<noteq> LoopForced g)"
    by (auto simp: round_rest_def split: option.splits if_splits prod.splits)
  then show ?thesis
    by (intro exI [of _ "[]"]) (auto simp: signals_after_def split: sum.splits option.splits)
qed

lemma unix_round:
  assumes "worker_round (unix_platform pg) W secs n sent S = Some (x, S')"
  shows "\<exists>cs. issues S cs S' \<and>
    (case x of
       Inl r \<Rightarrow> worker_signals pg W secs n sent r cs
     | Inr sent' \<Rightarrow> we_try_wait W n = Some None \<and>
         (if worker_stop W n \<and> sent = None then cs = [KillPg pg SIGTERM] \<and> sent' = Some (we_sent_at W n)
          else cs = [] \<and> sent' = sent))"
proof (cases "worker_stop W n \<and> sent = None")
  case True
  obtain res S1 where g: "worker_graceful (unix_platform pg) S = (res, S1)" by fastforce
  note g1 = unix_graceful_issues [OF g]
  show ?thesis
  proof (cases res)
    case (Inl e)
    with assms g True have "x = Inl (LoopFailed e)" "S' = S1" by (auto simp: round_split)
    moreover have "signals_from pg W secs n (LoopFailed e) [KillPg pg SIGTERM]"
      using first_stop_here True by (auto simp: signals_from_def signals_after_def)
    ultimately show ?thesis using g1 True by (auto simp: worker_signals_def)
  next
    case (Inr u)
    with assms g True have "round_rest (unix_platform pg) W secs n (Some (we_sent_at W n)) S1 = Some (x, S')"
      by (simp add: round_split)
    from unix_rest [OF this, unfolded option.case] obtain cs where cs: "issues S1 cs S'"
      "case x of Inr sent' \<Rightarrow> cs = [] \<and> sent' = Some (we_sent_at W n) \<and> we_try_wait W n = Some None
        | Inl r \<Rightarrow> signals_after pg W secs n (we_sent_at W n) r cs" by blast
    from issues_trans [OF g1 cs(1)] have "issues S (KillPg pg SIGTERM # cs) S'" by simp
    with cs(2) True first_stop_here [of W n] show ?thesis
      by (intro exI [of _ "KillPg pg SIGTERM # cs"])
        (auto simp: worker_signals_def signals_from_def split: sum.splits)
  qed
next
  case False
  with assms have "round_rest (unix_platform pg) W secs n sent S = Some (x, S')" by (auto simp: round_split)
  from unix_rest [OF this] False show ?thesis
    by (auto simp: worker_signals_def signals_from_def split: sum.splits option.splits)
qed

lemma worker_signals_step:
  assumes "worker_signals pg W secs (Suc n) sent' r cs'" and "we_try_wait W n = Some None"
    and "if worker_stop W n \<and> sent = None then cs = [KillPg pg SIGTERM] \<and> sent' = Some (we_sent_at W n) else cs = [] \<and> sent' = sent"
  shows "worker_signals pg W secs n sent r (cs @ cs')"
proof (cases sent)
  case (Some t)
  with assms show ?thesis by (auto simp: worker_signals_def intro: signals_after_Suc)
next
  case None
  show ?thesis
  proof (cases "worker_stop W n")
    case True
    with None assms show ?thesis
      by (auto simp: worker_signals_def signals_from_def intro!: exI [of _ n] first_stop_here signals_after_Suc)
  next
    case False
    with None assms show ?thesis
      by (auto simp: worker_signals_def signals_from_def intro: first_stop_Suc)
  qed
qed

lemma unix_loop_signals:
  "worker_loop P W secs n sent S = Some y \<Longrightarrow>
     P = unix_platform pg \<longrightarrow> (\<exists>cs. issues S cs (snd y) \<and> worker_signals pg W secs n sent (fst y) cs)"
proof (rule worker_loop.raw_induct [where P = "\<lambda>P W secs n sent S y. P = unix_platform pg \<longrightarrow> (\<exists>cs. issues S cs (snd y) \<and> worker_signals pg W secs n sent (fst y) cs)"])
  fix loop P W secs n sent S y
  assume IH: "\<And>P W secs n sent S y. loop P W secs n sent S = Some y \<Longrightarrow>
      P = unix_platform pg \<longrightarrow> (\<exists>cs. issues S cs (snd y) \<and> worker_signals pg W secs n sent (fst y) cs)"
    and eq: "(case worker_round P W secs n sent S of None \<Rightarrow> None | Some (Inl r, S') \<Rightarrow> Some (r, S')
        | Some (Inr sent', S') \<Rightarrow> loop P W secs (Suc n) sent' S') = Some y"
  show "P = unix_platform pg \<longrightarrow> (\<exists>cs. issues S cs (snd y) \<and> worker_signals pg W secs n sent (fst y) cs)"
  proof
    assume P: "P = unix_platform pg"
    from eq obtain x S1 where r: "worker_round P W secs n sent S = Some (x, S1)" by (auto split: option.splits)
    from unix_round [OF r [unfolded P]] obtain cs where cs: "issues S cs S1"
      "case x of Inl r \<Rightarrow> worker_signals pg W secs n sent r cs
        | Inr sent' \<Rightarrow> we_try_wait W n = Some None \<and>
         (if worker_stop W n \<and> sent = None then cs = [KillPg pg SIGTERM] \<and> sent' = Some (we_sent_at W n)
          else cs = [] \<and> sent' = sent)" by blast
    show "\<exists>cs. issues S cs (snd y) \<and> worker_signals pg W secs n sent (fst y) cs"
    proof (cases x)
      case (Inl a)
      with eq r cs show ?thesis by auto
    next
      case (Inr sent')
      with eq r have "loop P W secs (Suc n) sent' S1 = Some y" by simp
      from IH [OF this] P obtain cs' where cs': "issues S1 cs' (snd y)" "worker_signals pg W secs (Suc n) sent' (fst y) cs'"
        by blast
      with worker_signals_step [OF cs'(2)] cs Inr issues_trans [OF cs(1) cs'(1)] show ?thesis by auto
    qed
  qed
qed

text \<open>
  C27. The signals of the worker on Unix: the loop sends nothing to its process group before the
  control pipe is closed or says \<open>terminate\<close>, then one SIGTERM, and after that at most one
  SIGKILL, only when the grace period counted from the SIGTERM is over and the script was running in
  every round in between.
\<close>

theorem unix_worker_signals:
  assumes "worker_loop (unix_platform pg) W secs 0 None S = Some (r, S')"
  shows "\<exists>cs. sys_log S' = sys_log S @ cs \<and> signals_from pg W secs 0 r cs"
  using unix_loop_signals [OF assms] by (auto simp: worker_signals_def dest: issues_log)

section \<open>Exit codes\<close>

lemma worker_round_exited:
  assumes "worker_round P W secs n sent S = Some (Inl (ScriptExited st), S')"
  shows "we_try_wait W n = Some (Some st)"
  using assms by (auto simp: round_split round_rest_def split: if_splits prod.splits sum.splits option.splits)

lemma worker_loop_exited:
  "worker_loop P W secs n sent S = Some y \<Longrightarrow> \<forall>st. fst y = ScriptExited st \<longrightarrow> (\<exists>k\<ge>n. we_try_wait W k = Some (Some st))"
proof (rule worker_loop.raw_induct
    [where P = "\<lambda>P W secs n sent S y. \<forall>st. fst y = ScriptExited st \<longrightarrow> (\<exists>k\<ge>n. we_try_wait W k = Some (Some st))"])
  fix loop P W secs n sent S y
  assume IH: "\<And>P W secs n sent S y. loop P W secs n sent S = Some y \<Longrightarrow>
      \<forall>st. fst y = ScriptExited st \<longrightarrow> (\<exists>k\<ge>n. we_try_wait W k = Some (Some st))"
    and eq: "(case worker_round P W secs n sent S of None \<Rightarrow> None | Some (Inl r, S') \<Rightarrow> Some (r, S')
        | Some (Inr sent', S') \<Rightarrow> loop P W secs (Suc n) sent' S') = Some y"
  show "\<forall>st. fst y = ScriptExited st \<longrightarrow> (\<exists>k\<ge>n. we_try_wait W k = Some (Some st))"
    using eq worker_round_exited [of P W secs n sent S]
    by (auto split: option.splits prod.splits sum.splits dest!: IH intro: Suc_leD)
qed

lemma run_worker_returned:
  assumes "run_worker Q P W S = (cmd, Some (WorkerReturned (Inr code), S'))"
  obtains spec n st S1 where "worker_init Q (we_init W) = Inr spec" and "cmd = Some (build_script_command spec)"
    and "we_try_wait W n = Some (Some st)" and "code = (case exit_code_of st of None \<Rightarrow> 1 | Some c \<Rightarrow> c)"
    and "worker_wait P S1 = Some (Inr (), S')"
proof -
  from assms obtain S0 spec st S1 where spec: "worker_init Q (we_init W) = Inr spec" "cmd = Some (build_script_command spec)"
    and l: "worker_loop P W (ws_graceful_shutdown_seconds spec) 0 None S0 = Some (ScriptExited st, S1)"
    and f: "worker_finish P st S1 = Some (WorkerReturned (Inr code), S')"
    by (auto simp: run_worker_def split: prod.splits sum.splits option.splits if_splits loop_end.splits)
  from worker_loop_exited [OF l] obtain n where "we_try_wait W n = Some (Some st)" by auto
  moreover from f have "code = (case exit_code_of st of None \<Rightarrow> 1 | Some c \<Rightarrow> c)" "worker_wait P S1 = Some (Inr (), S')"
    by (auto simp: worker_finish_def split: prod.splits sum.splits option.splits)
  ultimately show ?thesis using spec that by blast
qed

text \<open>
  The exit code of a script on Unix, where the system reports codes from 0 to 255: when the
  worker ends normally, it has waited until it has no child left, and it exits with the code of the
  script, or with 1 if the script was killed by a signal; the final status of the task is
  \<open>succeeded\<close> exactly when the script exited with 0.
\<close>

theorem unix_exit_code:
  assumes "run_worker Q (unix_platform pg) W S = (cmd, Some (WorkerReturned (Inr code), S'))"
    and "\<And>n c. we_try_wait W n = Some (Some (ExitCode c)) \<Longrightarrow> 0 \<le> c \<and> c \<le> 255"
  shows "\<exists>n st c. we_try_wait W n = Some (Some st) \<and>
    worker_exit (worker_main (WorkerReturned (Inr code))) = ExitedWith c \<and>
    c = (case st of ExitCode c \<Rightarrow> c | ExitSignal _ \<Rightarrow> 1) \<and>
    (final_status None (ExitCode c) = Succeeded \<longleftrightarrow> st = ExitCode 0) \<and> (\<exists>S1. waited S1 S')"
  using assms(1)
proof (rule run_worker_returned)
  fix spec n st S1
  assume st: "we_try_wait W n = Some (Some st)" and code: "code = (case exit_code_of st of None \<Rightarrow> 1 | Some c \<Rightarrow> c)"
    and w: "worker_wait (unix_platform pg) S1 = Some (Inr (), S')"
  from w have "waited S1 S'" using worker_wait_sound [of S1] by (auto simp: unix_platform_def)
  with st code assms(2) [of n] show ?thesis
    by (intro exI [of _ n] exI [of _ st]) (cases st; auto simp: exit_success_def)
qed

text \<open>
  C37. Negative exit codes are lost: Windows reports crashes as codes such as 0xC0000005, negative as
  \<open>i32\<close>; the worker process then exits with 0, for which the executor publishes
  \<open>succeeded\<close>.
\<close>

theorem negative_exit_succeeds:
  assumes "run_worker Q (windows_platform pid) W S = (cmd, Some (WorkerReturned (Inr code), S'))" and "code < 0"
  shows "(\<exists>n. we_try_wait W n = Some (Some (ExitCode code))) \<and>
    worker_exit (worker_main (WorkerReturned (Inr code))) = ExitedWith 0 \<and>
    final_status None (ExitCode 0) = Succeeded"
  using assms(1)
proof (rule run_worker_returned)
  fix n st assume "we_try_wait W n = Some (Some st)" "code = (case exit_code_of st of None \<Rightarrow> 1 | Some c \<Rightarrow> c)"
  with assms(2) show ?thesis by (cases st) (auto simp: exit_success_def)
qed

section \<open>Witnesses\<close>

definition demo_spec :: worker_spec where
  "demo_spec = \<lparr>ws_executor = Sh, ws_program = ''sh'', ws_script = ''/s'', ws_fixed_args = [], ws_request_args = [],
     ws_working_directory = ''/'', ws_env = [], ws_graceful_shutdown_seconds = 0\<rparr>"

definition demo_worker_lib :: proc_lib where
  "demo_worker_lib = \<lparr>spec_to_json = (\<lambda>_. Some ''{}''), spec_from_json = (\<lambda>l. if l = ''{}'' then Some demo_spec else None),
     stamp = (\<lambda>_. ''t''), instant_max = 0\<rparr>"

text \<open>The control pipe is closed at once; the script runs, or has exited.\<close>

definition demo_worker :: "exit_status option \<Rightarrow> worker_env" where
  "demo_worker st = \<lparr>we_init = ControlLine ''{}'', we_spawn_ok = True, we_control = (\<lambda>_. [ControlEof]),
     we_try_wait = (\<lambda>_. Some st), we_sent_at = (\<lambda>n. 0), we_checked_at = (\<lambda>n. n)\<rparr>"

definition demo_sys :: "(nat \<Rightarrow> reply) \<Rightarrow> sys" where
  "demo_sys reps = \<lparr>sys_log = [], sys_replies = reps, sys_count = 0\<rparr>"

lemmas demo_worker_defs = demo_spec_def demo_worker_lib_def demo_worker_def demo_sys_def

lemma demo_trim: "trim_end ''{}'' = ''{}''"
  by code_simp

theorem worker_loop_ends_witness:
  "(\<exists>r S'. worker_loop (unix_platform 7) (demo_worker None) 0 0 None (demo_sys (\<lambda>_. Success 1)) = Some (r, S')) \<and>
   worker_loop (windows_platform 7) (demo_worker None) 0 0 None (demo_sys (\<lambda>_. Success 1)) = None"
proof -
  have "clock_advances (we_checked_at (demo_worker None))" by (auto simp: clock_advances_def demo_worker_def)
  moreover have "outlived (demo_worker None) 0 0 None"
    unfolding outlived_def option.case
    by (intro exI [of _ 0] conjI outlives_here first_stop_here) (simp_all add: worker_stop_def demo_worker_def)
  moreover have "fst (worker_graceful (windows_platform 7) (demo_sys (\<lambda>_. Success 1))) = Inr ()"
    by (simp add: windows_platform_def windows_worker_graceful_def call_or_def do_call_def demo_sys_def)
  moreover have "prefix (we_control (demo_worker None) m) (we_control (demo_worker None) n)" "control_reader (we_control (demo_worker None) 0)" for m n
    by (simp_all add: demo_worker_def)
  ultimately show ?thesis using worker_loop_ends [of "demo_worker None" 0 7 0 "demo_sys (\<lambda>_. Success 1)" 7] by blast
qed

theorem unix_worker_signals_witness:
  "\<exists>S'. worker_loop (unix_platform 7) (demo_worker None) 0 0 None (demo_sys (\<lambda>_. Success 0)) = Some (LoopForced Aborted, S') \<and>
     (\<exists>cs. sys_log S' = cs \<and> signals_from 7 (demo_worker None) 0 0 (LoopForced Aborted) cs)"
proof -
  obtain S' where "worker_loop (unix_platform 7) (demo_worker None) 0 0 None (demo_sys (\<lambda>_. Success 0)) = Some (LoopForced Aborted, S')"
    by (simp add: worker_loop.simps worker_round_def worker_stop_def demo_worker_def demo_sys_def unix_platform_def
        unix_worker_graceful_def killpg_def do_call_def)
  with unix_worker_signals [OF this] show ?thesis by (simp add: demo_sys_def)
qed

theorem unix_exit_code_witness:
  "\<exists>S' c. run_worker demo_worker_lib (unix_platform 7) (demo_worker (Some (ExitCode 3)))
       (demo_sys (\<lambda>n. if n < 3 then Success 0 else Failure ECHILD)) =
     (Some (build_script_command demo_spec), Some (WorkerReturned (Inr 3), S')) \<and>
     worker_exit (worker_main (WorkerReturned (Inr 3))) = ExitedWith c \<and> c = 3"
proof -
  obtain S' where r: "run_worker demo_worker_lib (unix_platform 7) (demo_worker (Some (ExitCode 3)))
       (demo_sys (\<lambda>n. if n < 3 then Success 0 else Failure ECHILD)) =
     (Some (build_script_command demo_spec), Some (WorkerReturned (Inr 3), S'))"
    by (simp add: run_worker_def worker_loop.simps worker_round_def worker_stop_def worker_init_def demo_trim
        demo_worker_defs unix_platform_def unix_worker_setup_def call_or_def
        unix_worker_graceful_def killpg_def do_call_def worker_finish_def unix_worker_wait.simps)
  have "\<exists>n st c. we_try_wait (demo_worker (Some (ExitCode 3))) n = Some (Some st) \<and>
    worker_exit (worker_main (WorkerReturned (Inr 3))) = ExitedWith c \<and>
    c = (case st of ExitCode c \<Rightarrow> c | ExitSignal _ \<Rightarrow> 1) \<and>
    (final_status None (ExitCode c) = Succeeded \<longleftrightarrow> st = ExitCode 0) \<and> (\<exists>S1. waited S1 S')"
    by (rule unix_exit_code [OF r]) (simp add: demo_worker_def)
  then show ?thesis using r by (auto simp: demo_worker_def)
qed

theorem negative_exit_succeeds_witness:
  "\<exists>S'. run_worker demo_worker_lib (windows_platform 7) (demo_worker (Some (ExitCode (- 1073741819))))
       (demo_sys (\<lambda>_. Success 1)) =
     (Some (build_script_command demo_spec), Some (WorkerReturned (Inr (- 1073741819)), S')) \<and>
     worker_exit (worker_main (WorkerReturned (Inr (- 1073741819)))) = ExitedWith 0"
proof -
  obtain S' where r: "run_worker demo_worker_lib (windows_platform 7) (demo_worker (Some (ExitCode (- 1073741819))))
       (demo_sys (\<lambda>_. Success 1)) =
     (Some (build_script_command demo_spec), Some (WorkerReturned (Inr (- 1073741819)), S'))"
    by (simp add: run_worker_def worker_loop.simps worker_round_def worker_stop_def worker_init_def demo_trim
        demo_worker_defs windows_platform_def windows_worker_setup_def call_or_def
        windows_worker_graceful_def do_call_def worker_finish_def windows_worker_wait_def)
  from negative_exit_succeeds [OF r] r show ?thesis by auto
qed

end
