(* ===== verification/App.thy ===== *)
theory App
  imports Config Store
begin

text \<open>
  The HTTP application (\<open>src/src/app.rs\<close>): the state shared by the handlers, the
  authentication layer in front of them and one definition per handler. A handler takes the state
  and the file system and returns them updated with its response. Routing, extractors and body limits
  belong to the web framework: a request arrives as the \<open>endpoint\<close> it was dispatched to, and
  \<open>Rejected\<close> carries the framework's own answer. A semaphore is its number of free permits,
  the management channel its queue of capacity one.
\<close>

section \<open>State\<close>

datatype management_action = StopAction | RestartAction resolved_config

record route_runtime =
  rt_config :: resolved_route
  rt_limit :: nat

text \<open>A task handed to the executor, with the permits it holds.\<close>

record started_task =
  st_id :: uuid
  st_path :: string
  st_args :: "string list"

record app_state =
  as_token :: token_verifier
  as_allowed_cidrs :: "ip_net list"
  as_cooldown :: token_failure_cooldown_config
  as_failures :: "ip_addr \<rightharpoonup> instant"
  as_global :: nat
  as_routes :: "string \<rightharpoonup> route_runtime"
  as_queue :: "management_action list"
  as_listening :: bool
  as_lifecycle :: nat
  as_config_path :: string
  as_log_directory :: string
  as_store :: task_store
  as_running :: "started_task list"

text \<open>
  What the handlers use of libraries: containment of an address in a CIDR block, the text of a header
  value, regular expression matching, the order in which the map of failures is iterated, whether
  the router takes a list of paths, and the range of the clock.
\<close>

record app_lib =
  al_contains :: "ip_net \<Rightarrow> ip_addr \<Rightarrow> bool"
  al_to_str :: "bytes \<Rightarrow> string option"
  al_is_match :: "regex \<Rightarrow> string \<Rightarrow> bool"
  al_order :: "(ip_addr \<rightharpoonup> instant) \<Rightarrow> ip_addr list"
  al_router_ok :: "string list \<Rightarrow> bool"
  al_instant_max :: instant
  al_crypto :: crypto_lib
  al_store :: store_lib

text \<open>The largest number of permits of a semaphore; more make its constructor panic.\<close>

definition max_permits :: nat where
  "max_permits = (2 ^ 64 - 1) div 8"

definition runtime_of :: "resolved_route \<Rightarrow> route_runtime" where
  "runtime_of r = \<lparr>rt_config = r, rt_limit = unat (r_max_concurrency r)\<rparr>"

text \<open>\<open>None\<close> is a panic of a semaphore or of the router.\<close>

definition build :: "app_lib \<Rightarrow> resolved_config \<Rightarrow> task_store \<Rightarrow> app_state option" where
  "build A c st =
     (if (\<forall>r\<in>set (rc_routes c). unat (r_max_concurrency r) \<le> max_permits) \<and>
         unat (max_total_concurrency (rc_execution c)) \<le> max_permits \<and>
         al_router_ok A (map r_path (rc_routes c))
      then Some
        \<lparr>as_token = rc_token c, as_allowed_cidrs = allowed_cidrs (rc_access c),
         as_cooldown = token_failure_cooldown (rc_access c), as_failures = Map.empty,
         as_global = unat (max_total_concurrency (rc_execution c)),
         as_routes = map_of (rev (map (\<lambda>r. (r_path r, runtime_of r)) (rc_routes c))),
         as_queue = [], as_listening = True, as_lifecycle = 0, as_config_path = source_path c,
         as_log_directory = directory (rc_logging c), as_store = st, as_running = []\<rparr>
      else None)"

section \<open>Responses\<close>

datatype header = RetryAfter u64 | WwwAuthenticate string

datatype body =
    ErrorB api_error_body
  | BasicB basic_response
  | AcceptedB accepted_task
  | TaskB task_view
  | ChunkB output_chunk
  | OtherB string

record response =
  rs_status :: status_code
  rs_headers :: "header list"
  rs_body :: body

definition respond :: "status_code \<Rightarrow> body \<Rightarrow> response" where
  "respond st b = \<lparr>rs_status = st, rs_headers = [], rs_body = b\<rparr>"

definition error_response :: "status_code \<Rightarrow> string \<Rightarrow> message \<Rightarrow> response" where
  "error_response st code msg =
     (case api_error_into_response (api_error_new st code msg) of (s, b) \<Rightarrow> respond s (ErrorB b))"

definition message_response :: "status_code \<Rightarrow> message \<Rightarrow> response" where
  "message_response st msg = respond st (BasicB \<lparr>basic_success = True, basic_data = MessageData msg\<rparr>)"

section \<open>The cooldown table\<close>

definition cooldown_remaining ::
  "token_failure_cooldown_config \<Rightarrow> instant \<Rightarrow> ip_addr \<Rightarrow> (ip_addr \<rightharpoonup> instant)
     \<Rightarrow> u64 option \<times> (ip_addr \<rightharpoonup> instant)" where
  "cooldown_remaining c now ip m =
     (if \<not> cooldown_enabled c then (None, m)
      else (case m ip of
        None \<Rightarrow> (None, m)
      | Some until \<Rightarrow>
          if until > now then
            let remaining = until - now in
            (Some (of_nat (remaining div nanos_per_sec) + (if remaining mod nanos_per_sec > 0 then 1 else 0)), m)
          else (None, m(ip := None))))"

definition retain_unexpired :: "instant \<Rightarrow> (ip_addr \<rightharpoonup> instant) \<Rightarrow> ip_addr \<rightharpoonup> instant" where
  "retain_unexpired now m = (\<lambda>ip. case m ip of Some until \<Rightarrow> if until > now then Some until else None | None \<Rightarrow> None)"

fun min_by_key :: "('a \<Rightarrow> instant) \<Rightarrow> 'a list \<Rightarrow> 'a option" where
  "min_by_key key [] = None"
| "min_by_key key (x # xs) =
     (case min_by_key key xs of None \<Rightarrow> Some x | Some y \<Rightarrow> Some (if key x \<le> key y then x else y))"

definition evict_oldest :: "ip_addr list \<Rightarrow> (ip_addr \<rightharpoonup> instant) \<Rightarrow> ip_addr \<rightharpoonup> instant" where
  "evict_oldest ips m = (case min_by_key (\<lambda>ip. the (m ip)) ips of None \<Rightarrow> m | Some ip \<Rightarrow> m(ip := None))"

text \<open>The flag tells of the panic of \<open>now + Duration\<close>.\<close>

definition record_auth_failure ::
  "app_lib \<Rightarrow> token_failure_cooldown_config \<Rightarrow> instant \<Rightarrow> ip_addr \<Rightarrow> (ip_addr \<rightharpoonup> instant)
     \<Rightarrow> bool \<times> (ip_addr \<rightharpoonup> instant)" where
  "record_auth_failure A c now ip m =
     (if \<not> cooldown_enabled c then (False, m)
      else
        let m1 = retain_unexpired now m;
            ips = al_order A m1;
            m2 = (if length ips \<ge> unat (max_tracked_ips c) then evict_oldest ips m1 else m1)
        in case instant_add_secs (al_instant_max A) now (cooldown_seconds c) of
             None \<Rightarrow> (True, m2)
           | Some until \<Rightarrow> (False, m2(ip \<mapsto> until)))"

section \<open>Authentication\<close>

record http_request =
  rq_peer :: "ip_addr option"
  rq_authorization :: "bytes option"

definition bearer_token :: "app_lib \<Rightarrow> bytes option \<Rightarrow> string option" where
  "bearer_token A h = Option.bind (Option.bind h (al_to_str A)) (strip_prefix ''Bearer '')"

datatype gate = Admitted app_state | Refused app_state response | GatePanic app_state

text \<open>\<open>now\<close> and \<open>now'\<close> are the clock at the check and at the record of a failure,
  \<open>joined\<close> the outcome of the blocking verification.\<close>

definition authenticate :: "app_lib \<Rightarrow> bool \<Rightarrow> instant \<Rightarrow> instant \<Rightarrow> http_request \<Rightarrow> app_state \<Rightarrow> gate" where
  "authenticate A joined now now' rq s =
     (case map_option normalize_ip (rq_peer rq) of
        None \<Rightarrow> Refused s (error_response FORBIDDEN ''source_ip_unavailable'' M_source_ip_unavailable)
      | Some ip \<Rightarrow>
         if \<not> list_ex (\<lambda>cidr. al_contains A cidr ip) (as_allowed_cidrs s) then
           Refused s (error_response FORBIDDEN ''source_ip_denied'' M_source_ip_denied)
         else (case cooldown_remaining (as_cooldown s) now ip (as_failures s) of
           (Some retry_after, m) \<Rightarrow>
             Refused (s\<lparr>as_failures := m\<rparr>)
               ((error_response TOO_MANY_REQUESTS ''token_failure_cooldown'' M_token_failure_cooldown)
                  \<lparr>rs_headers := [RetryAfter retry_after]\<rparr>)
         | (None, m) \<Rightarrow>
             (let s1 = s\<lparr>as_failures := m\<rparr>;
                  (authorized, v) = (case bearer_token A (rq_authorization rq) of
                                       Some token \<Rightarrow> verify (al_crypto A) joined (as_token s1) token
                                     | None \<Rightarrow> (False, as_token s1));
                  s2 = s1\<lparr>as_token := v\<rparr>
              in if authorized then Admitted s2
                 else (case record_auth_failure A (as_cooldown s2) now' ip (as_failures s2) of
                   (True, m') \<Rightarrow> GatePanic (s2\<lparr>as_failures := m'\<rparr>)
                 | (False, m') \<Rightarrow>
                     Refused (s2\<lparr>as_failures := m'\<rparr>)
                       ((error_response UNAUTHORIZED ''unauthorized'' M_unauthorized)
                          \<lparr>rs_headers := [WwwAuthenticate ''Bearer'']\<rparr>)))))"

section \<open>Handlers\<close>

definition index :: response where
  "index = respond OK (BasicB \<lparr>basic_success = True,
     basic_data = IndexData ''command-api''
       (utf8 [0xE9,0x80,0x9A,0xE8,0xBF,0x87,0xE5,0x8F,0x97,0xE6,0x8E,0xA7] @ '' HTTP API '' @
        utf8 [0xE5,0xBC,0x82,0xE6,0xAD,0xA5,0xE6,0x89,0xA7,0xE8,0xA1,0x8C,0xE9,0xA2,0x84,0xE9,0x85,0x8D,0xE7,0xBD,0xAE,0xE8,0x84,0x9A,0xE6,0x9C,0xAC])
       ''https://github.com/loveyu/command-api''\<rparr>)"

definition healthz :: response where
  "healthz = message_response OK M_ok"

definition task_mode :: "resolved_route \<Rightarrow> output_mode" where
  "task_mode rt = (if r_merge_stdout_stderr rt then CombinedMode else Separate)"

text \<open>The router dispatches to \<open>execute\<close> only on the paths of the routes, and to
  \<open>fallback\<close> otherwise. The permits are local values: on an early return they are dropped, that is, given back.
  A handler is one step; the permits it holds while it awaits \<open>create\<close> are seen by others only as taken
  by it in the end, or not at all.\<close>

definition execute ::
  "app_lib \<Rightarrow> uuid \<Rightarrow> string \<Rightarrow> string \<Rightarrow> execute_request \<Rightarrow> app_state \<Rightarrow> fs \<Rightarrow> app_state \<times> fs \<times> response" where
  "execute A tid ts p req s f =
     (case as_routes s p of
        None \<Rightarrow> (s, f, error_response NOT_FOUND ''not_found'' M_not_found)
      | Some rt \<Rightarrow>
       (case validate_request_args (al_is_match A) (rt_config rt) (args req) of
          Inl e \<Rightarrow> (s, f, error_response BAD_REQUEST ''invalid_arguments'' (M_of_error e))
        | Inr _ \<Rightarrow>
          if as_global s = 0 then
            (s, f, error_response TOO_MANY_REQUESTS ''global_concurrency_limit'' M_global_limit)
          else if rt_limit rt = 0 then
            (s, f, error_response TOO_MANY_REQUESTS ''route_concurrency_limit''
                     (M_route_limit (r_path (rt_config rt)) (r_max_concurrency (rt_config rt))))
          else
           (case create (al_store A) tid ts (r_path (rt_config rt)) (task_mode (rt_config rt))
                   (r_output_encoding (rt_config rt)) (as_store s) f of
              (store', f', Inl e) \<Rightarrow>
                (s\<lparr>as_store := store'\<rparr>, f', error_response INTERNAL_SERVER_ERROR ''task_create_failed'' (M_of_error e))
            | (store', f', Inr r) \<Rightarrow>
                (s\<lparr>as_store := store', as_global := as_global s - 1,
                   as_routes := (as_routes s)(p \<mapsto> rt\<lparr>rt_limit := rt_limit rt - 1\<rparr>),
                   as_running := as_running s @ [\<lparr>st_id = rec_id r, st_path = p, st_args = args req\<rparr>]\<rparr>,
                 f',
                 respond ACCEPTED (AcceptedB
                   \<lparr>accepted_success = True, accepted_id = rec_id r, accepted_status = Starting,
                    status_url = ''/tasks/'' @ uuid_text (al_store A) (rec_id r)\<rparr>)))))"

text \<open>The executor of a task drops its permits.\<close>

definition drop_permits :: "nat \<Rightarrow> app_state \<Rightarrow> app_state" where
  "drop_permits k s =
     (let t = as_running s ! k in
      s\<lparr>as_global := as_global s + 1,
        as_routes := (as_routes s)(st_path t := map_option (\<lambda>rt. rt\<lparr>rt_limit := rt_limit rt + 1\<rparr>) (as_routes s (st_path t))),
        as_running := take k (as_running s) @ drop (Suc k) (as_running s)\<rparr>)"

definition task_not_found :: response where
  "task_not_found = error_response NOT_FOUND ''task_not_found'' M_task_not_found"

definition get_task :: "app_lib \<Rightarrow> int \<Rightarrow> uuid \<Rightarrow> app_state \<Rightarrow> response" where
  "get_task A now tid s =
     (case store_view (al_store A) now (as_store s) tid of
        None \<Rightarrow> task_not_found
      | Some v \<Rightarrow> respond OK (TaskB v))"

definition get_output :: "app_lib \<Rightarrow> uuid \<Rightarrow> output_query \<Rightarrow> app_state \<Rightarrow> fs \<Rightarrow> fs \<times> response" where
  "get_output A tid q s f =
     (case get (as_store s) tid of
        None \<Rightarrow> (f, task_not_found)
      | Some _ \<Rightarrow>
         (case Store.output_chunk (al_store A) (as_store s) tid (query_stream q) (query_offset q) (query_limit q) f of
            (f', Inl e) \<Rightarrow> (f', error_response BAD_REQUEST ''invalid_output_query'' (M_of_error e))
          | (f', Inr c) \<Rightarrow> (f', respond OK (ChunkB c))))"

text \<open>\<open>cancel_task\<close> and \<open>kill_task\<close> differ in the reason and the texts.\<close>

definition stop_task :: "stop_reason \<Rightarrow> message \<Rightarrow> message \<Rightarrow> uuid \<Rightarrow> app_state \<Rightarrow> app_state \<times> response" where
  "stop_task why finished accepted tid s =
     (case get (as_store s) tid of
        None \<Rightarrow> (s, task_not_found)
      | Some _ \<Rightarrow>
         (case request_stop (as_store s) tid why of
            (store', False) \<Rightarrow> (s\<lparr>as_store := store'\<rparr>, error_response CONFLICT ''task_finished'' finished)
          | (store', True) \<Rightarrow> (s\<lparr>as_store := store'\<rparr>, message_response ACCEPTED accepted)))"

definition cancel_task :: "uuid \<Rightarrow> app_state \<Rightarrow> app_state \<times> response" where
  "cancel_task = stop_task CancelledReason M_cancel_finished M_cancel_accepted"

definition kill_task :: "uuid \<Rightarrow> app_state \<Rightarrow> app_state \<times> response" where
  "kill_task = stop_task ForceKilled M_kill_finished M_kill_accepted"

text \<open>\<open>try_send\<close> fails when the channel is full or its receiver is gone.\<close>

definition request_management_action :: "management_action \<Rightarrow> app_state \<Rightarrow> app_state \<times> response option" where
  "request_management_action a s =
     (if as_lifecycle s \<noteq> 0 then
        (s, Some (error_response CONFLICT ''service_transition_in_progress'' M_transition_in_progress))
      else if as_listening s \<and> as_queue s = [] then
        (s\<lparr>as_lifecycle := 1, as_queue := [a]\<rparr>, None)
      else
        (s\<lparr>as_lifecycle := 0\<rparr>, Some (error_response SERVICE_UNAVAILABLE ''service_control_unavailable'' M_control_unavailable)))"

definition stop_service :: "app_state \<Rightarrow> app_state \<times> response" where
  "stop_service s =
     (case request_management_action StopAction s of
        (s', Some e) \<Rightarrow> (s', e)
      | (s', None) \<Rightarrow> (s', message_response ACCEPTED M_stop_accepted))"

text \<open>\<open>E\<close> is what \<open>Config::load\<close> meets when the handler runs.\<close>

definition restart_service :: "config_env \<Rightarrow> app_state \<Rightarrow> app_state \<times> response" where
  "restart_service E s =
     (case snd (load E (as_config_path s)) of
        Inl e \<Rightarrow> (s, error_response CONFLICT ''restart_config_invalid'' (M_restart_config_invalid e))
      | Inr c \<Rightarrow>
          if directory (rc_logging c) \<noteq> as_log_directory s then
            (s, error_response CONFLICT ''restart_log_directory_changed'' M_restart_log_directory)
          else
            (case request_management_action (RestartAction c) s of
               (s', Some e) \<Rightarrow> (s', e)
             | (s', None) \<Rightarrow> (s', message_response ACCEPTED M_restart_accepted)))"

definition fallback :: response where
  "fallback = error_response NOT_FOUND ''not_found'' M_not_found"

section \<open>Dispatch\<close>

datatype endpoint =
    Index | Healthz | GetTask uuid | GetOutput uuid output_query | CancelTask uuid | KillTask uuid
  | StopService | RestartService | Execute string execute_request | Fallback | Rejected response

text \<open>What a request draws from its environment: a fresh id, time stamp, wall clock, configuration.\<close>

record draw =
  dr_id :: uuid
  dr_stamp :: string
  dr_wall :: int
  dr_config :: config_env

fun dispatch :: "app_lib \<Rightarrow> draw \<Rightarrow> endpoint \<Rightarrow> app_state \<Rightarrow> fs \<Rightarrow> app_state \<times> fs \<times> response" where
  "dispatch A d Index s f = (s, f, index)"
| "dispatch A d Healthz s f = (s, f, healthz)"
| "dispatch A d (GetTask tid) s f = (s, f, get_task A (dr_wall d) tid s)"
| "dispatch A d (GetOutput tid q) s f = (case get_output A tid q s f of (f', r) \<Rightarrow> (s, f', r))"
| "dispatch A d (CancelTask tid) s f = (case cancel_task tid s of (s', r) \<Rightarrow> (s', f, r))"
| "dispatch A d (KillTask tid) s f = (case kill_task tid s of (s', r) \<Rightarrow> (s', f, r))"
| "dispatch A d StopService s f = (case stop_service s of (s', r) \<Rightarrow> (s', f, r))"
| "dispatch A d RestartService s f = (case restart_service (dr_config d) s of (s', r) \<Rightarrow> (s', f, r))"
| "dispatch A d (Execute p req) s f = execute A (dr_id d) (dr_stamp d) p req s f"
| "dispatch A d Fallback s f = (s, f, fallback)"
| "dispatch A d (Rejected r) s f = (s, f, r)"

text \<open>A request through the authentication layer; no response is a panicked connection.\<close>

definition serve ::
  "app_lib \<Rightarrow> bool \<Rightarrow> instant \<Rightarrow> instant \<Rightarrow> draw \<Rightarrow> http_request \<Rightarrow> endpoint \<Rightarrow> app_state \<Rightarrow> fs
     \<Rightarrow> app_state \<times> fs \<times> response option" where
  "serve A joined now now' d rq e s f =
     (case authenticate A joined now now' rq s of
        Refused s' r \<Rightarrow> (s', f, Some r)
      | GatePanic s' \<Rightarrow> (s', f, None)
      | Admitted s' \<Rightarrow> (case dispatch A d e s' f of (s'', f', r) \<Rightarrow> (s'', f', Some r)))"

section \<open>The cooldown table\<close>

text \<open>What the iteration order of a hash map is good for: every key once.\<close>

definition order_enumerates :: "app_lib \<Rightarrow> bool" where
  "order_enumerates A \<longleftrightarrow> (\<forall>m. finite (dom m) \<longrightarrow> distinct (al_order A m) \<and> set (al_order A m) = dom m)"

definition table_ok :: "token_failure_cooldown_config \<Rightarrow> (ip_addr \<rightharpoonup> instant) \<Rightarrow> bool" where
  "table_ok c m \<longleftrightarrow> finite (dom m) \<and> card (dom m) \<le> max 1 (unat (max_tracked_ips c))"

lemma retain_dom: "dom (retain_unexpired now m) \<subseteq> dom m"
  by (auto simp: retain_unexpired_def split: option.splits if_splits)

lemma retain_lookup: "retain_unexpired now m ip = Some u \<longleftrightarrow> m ip = Some u \<and> now < u"
  by (auto simp: retain_unexpired_def split: option.splits)

lemma min_by_key_None [simp]: "min_by_key key xs = None \<longleftrightarrow> xs = []"
  by (cases xs) (auto split: option.splits)

lemma min_by_key_in: "min_by_key key xs = Some x \<Longrightarrow> x \<in> set xs \<and> (\<forall>y\<in>set xs. key x \<le> key y)"
proof (induction xs arbitrary: x)
  case (Cons a xs)
  show ?case
  proof (cases "min_by_key key xs")
    case (Some y)
    with Cons.IH [OF Some] Cons.prems show ?thesis by (force split: if_splits)
  qed (use Cons.prems in auto)
qed simp

lemma remaining_table:
  assumes "cooldown_remaining c now ip m = (r, m')"
  shows "m' = m \<or> r = None \<and> m' = m(ip := None) \<and> (\<exists>u. m ip = Some u \<and> u \<le> now)"
  using assms by (auto simp: cooldown_remaining_def Let_def split: if_splits option.splits)

lemma remaining_ok: "table_ok c m \<Longrightarrow> cooldown_remaining c now ip m = (r, m') \<Longrightarrow> table_ok c m'"
  using remaining_table [of c now ip m r m'] card_Diff1_le [of "dom m" ip]
  by (auto simp: table_ok_def dom_fun_upd)

lemma remaining_blocks:
  assumes "cooldown_enabled c" and "m ip = Some u" and "now < u"
  shows "\<exists>w. cooldown_remaining c now ip m = (Some w, m)"
  using assms by (simp add: cooldown_remaining_def Let_def)

lemma evict_card:
  assumes "finite (dom m)" and "distinct ips" and "set ips = dom m"
  shows "finite (dom (evict_oldest ips m))" and "card (dom (evict_oldest ips m)) \<le> card (dom m) - 1"
proof -
  show "finite (dom (evict_oldest ips m))"
    using assms(1) by (auto simp: evict_oldest_def dom_fun_upd split: option.splits)
  show "card (dom (evict_oldest ips m)) \<le> card (dom m) - 1"
  proof (cases "ips = []")
    case True
    with assms(3) show ?thesis by (simp add: evict_oldest_def)
  next
    case False
    then obtain x where x: "min_by_key (\<lambda>ip. the (m ip)) ips = Some x" by (cases "min_by_key (\<lambda>ip. the (m ip)) ips") auto
    with min_by_key_in [OF x] assms(1,3) show ?thesis
      by (simp add: evict_oldest_def dom_fun_upd)
  qed
qed

lemma record_table:
  assumes "record_auth_failure A c now ip m = (b, m')" and "cooldown_enabled c"
  defines "m1 \<equiv> retain_unexpired now m"
  defines "m2 \<equiv> if length (al_order A m1) \<ge> unat (max_tracked_ips c) then evict_oldest (al_order A m1) m1 else m1"
  shows "b \<and> m' = m2 \<or> \<not> b \<and> m' = m2(ip \<mapsto> now + unat (cooldown_seconds c) * nanos_per_sec)"
  using assms(1,2) unfolding m1_def m2_def
  by (auto simp: record_auth_failure_def Let_def instant_add_secs_def split: option.splits if_splits)

lemma record_ok:
  assumes "order_enumerates A" and "table_ok c m" and "record_auth_failure A c now ip m = (b, m')"
  shows "table_ok c m'"
proof (cases "cooldown_enabled c")
  case False
  with assms(2,3) show ?thesis by (simp add: record_auth_failure_def)
next
  case True
  let ?m1 = "retain_unexpired now m"
  let ?N = "unat (max_tracked_ips c)"
  let ?m2 = "if length (al_order A ?m1) \<ge> ?N then evict_oldest (al_order A ?m1) ?m1 else ?m1"
  have fin: "finite (dom ?m1)" using assms(2) retain_dom finite_subset unfolding table_ok_def by blast
  with assms(1) have o: "distinct (al_order A ?m1)" "set (al_order A ?m1) = dom ?m1" unfolding order_enumerates_def by blast+
  then have len: "length (al_order A ?m1) = card (dom ?m1)" by (metis distinct_card)
  have "card (dom ?m1) \<le> max 1 ?N"
    using assms(2) card_mono [OF _ retain_dom, of m now] unfolding table_ok_def by linarith
  then have m2: "finite (dom ?m2)" "card (dom ?m2) \<le> max 1 ?N - 1"
    using evict_card [OF fin o] fin len by (auto split: if_splits)
  from record_table [OF assms(3) True] have "m' = ?m2 \<or> (\<exists>u. m' = ?m2(ip \<mapsto> u))" by blast
  moreover have "card (dom (?m2(ip \<mapsto> u))) \<le> Suc (card (dom ?m2))" for u
    using card_insert_le_m1 m2(1) by (simp add: card_insert_if)
  ultimately show ?thesis
    unfolding table_ok_def using m2 by (auto simp: le_diff_conv2 dom_fun_upd simp del: fun_upd_apply intro: le_trans)
qed

text \<open>
  The contract of a table of failures towards the authentication layer: an entry blocks its address
  until it runs out, checks leave unexpired entries alone, and recording a failure of another address
  does so while the table is not full.
\<close>

datatype 'ip table_event = Checked instant 'ip | Failed_at instant 'ip

fun event_time :: "'ip table_event \<Rightarrow> instant" where
  "event_time (Checked t _) = t"
| "event_time (Failed_at t _) = t"

fun table_apply ::
  "(instant \<Rightarrow> 'ip \<Rightarrow> 'm \<Rightarrow> 'w option \<times> 'm) \<Rightarrow> (instant \<Rightarrow> 'ip \<Rightarrow> 'm \<Rightarrow> bool \<times> 'm)
     \<Rightarrow> 'ip table_event \<Rightarrow> 'm \<Rightarrow> 'm" where
  "table_apply rem note (Checked t ip) m = snd (rem t ip m)"
| "table_apply rem note (Failed_at t ip) m = snd (note t ip m)"

text \<open>Only other addresses fail, and each time there is room for them.\<close>

fun others_fit ::
  "('ip table_event \<Rightarrow> 'm \<Rightarrow> 'm) \<Rightarrow> (instant \<Rightarrow> 'm \<Rightarrow> bool) \<Rightarrow> 'ip \<Rightarrow> 'ip table_event list \<Rightarrow> 'm \<Rightarrow> bool" where
  "others_fit app room ip [] m = True"
| "others_fit app room ip (e # es) m =
     ((case e of Checked _ _ \<Rightarrow> True | Failed_at t jp \<Rightarrow> jp \<noteq> ip \<and> room t m) \<and> others_fit app room ip es (app e m))"

locale failure_table =
  fixes remaining :: "instant \<Rightarrow> 'ip \<Rightarrow> 'm \<Rightarrow> 'w option \<times> 'm"
    and note_failure :: "instant \<Rightarrow> 'ip \<Rightarrow> 'm \<Rightarrow> bool \<times> 'm"
    and entry :: "'m \<Rightarrow> 'ip \<Rightarrow> instant option"
    and room :: "instant \<Rightarrow> 'm \<Rightarrow> bool"
    and valid :: "'m \<Rightarrow> bool"
    and period :: nat
  assumes blocks: "valid m \<Longrightarrow> entry m ip = Some u \<Longrightarrow> now < u \<Longrightarrow> \<exists>w. remaining now ip m = (Some w, m)"
    and remaining_keeps: "valid m \<Longrightarrow> entry m jp = Some u \<Longrightarrow> now < u \<Longrightarrow> entry (snd (remaining now ip m)) jp = Some u"
    and noted: "valid m \<Longrightarrow> note_failure now ip m = (False, m') \<Longrightarrow> entry m' ip = Some (now + period)"
    and note_keeps: "valid m \<Longrightarrow> entry m jp = Some u \<Longrightarrow> now < u \<Longrightarrow> room now m \<Longrightarrow> jp \<noteq> ip \<Longrightarrow>
        entry (snd (note_failure now ip m)) jp = Some u"
    and remaining_valid: "valid m \<Longrightarrow> valid (snd (remaining now ip m))"
    and note_valid: "valid m \<Longrightarrow> valid (snd (note_failure now ip m))"
begin

abbreviation apply_event :: "'ip table_event \<Rightarrow> 'm \<Rightarrow> 'm" where
  "apply_event \<equiv> table_apply remaining note_failure"

lemma apply_event_valid: "valid m \<Longrightarrow> valid (apply_event e m)"
  by (cases e) (simp_all add: remaining_valid note_valid)

lemma entry_survives:
  assumes "valid m" and "entry m ip = Some u" and "\<forall>e\<in>set es. event_time e < u" and "others_fit apply_event room ip es m"
  shows "valid (fold apply_event es m) \<and> entry (fold apply_event es m) ip = Some u"
  using assms
proof (induction es arbitrary: m)
  case (Cons e es)
  have "entry (apply_event e m) ip = Some u"
    using Cons.prems by (cases e) (auto intro: remaining_keeps note_keeps)
  with Cons apply_event_valid show ?case by simp
qed simp

lemma stays_blocked:
  assumes "valid m" and "note_failure now ip m = (False, m')"
    and "\<forall>e\<in>set es. event_time e < now + period" and "others_fit apply_event room ip es m'" and "t < now + period"
  shows "\<exists>w. remaining t ip (fold apply_event es m') = (Some w, fold apply_event es m')"
proof -
  have "valid m'" using note_valid [OF assms(1), of now ip] assms(2) by simp
  from entry_survives [OF this noted [OF assms(1,2)] assms(3,4)] assms(5) show ?thesis
    by (auto intro: blocks)
qed

end

definition table_room :: "token_failure_cooldown_config \<Rightarrow> instant \<Rightarrow> (ip_addr \<rightharpoonup> instant) \<Rightarrow> bool" where
  "table_room c now m \<longleftrightarrow> card (dom (retain_unexpired now m)) < unat (max_tracked_ips c)"

text \<open>An application whose cooldown is in force and whose maps enumerate their keys.\<close>

definition cooldown_in_force :: "app_lib \<Rightarrow> token_failure_cooldown_config \<Rightarrow> bool" where
  "cooldown_in_force A c \<longleftrightarrow> cooldown_enabled c \<and> order_enumerates A"

interpretation cooldown: failure_table "cooldown_remaining c" "record_auth_failure A c" "\<lambda>m ip. m ip" "table_room c"
  "\<lambda>m. cooldown_in_force A c \<and> table_ok c m" "unat (cooldown_seconds c) * nanos_per_sec" for A c
proof
  fix m :: "ip_addr \<rightharpoonup> instant" and ip u now
  assume "cooldown_in_force A c \<and> table_ok c m" "m ip = Some u" "now < u"
  then show "\<exists>w. cooldown_remaining c now ip m = (Some w, m)"
    by (auto simp: cooldown_in_force_def intro: remaining_blocks)
next
  fix m :: "ip_addr \<rightharpoonup> instant" and jp u now ip
  assume "m jp = Some u" "now < u"
  then show "snd (cooldown_remaining c now ip m) jp = Some u"
    using remaining_table [of c now ip m] by (cases "cooldown_remaining c now ip m") auto
next
  fix m m' :: "ip_addr \<rightharpoonup> instant" and now ip
  assume "cooldown_in_force A c \<and> table_ok c m" "record_auth_failure A c now ip m = (False, m')"
  then show "m' ip = Some (now + unat (cooldown_seconds c) * nanos_per_sec)"
    using record_table [of A c now ip m False m'] by (auto simp: cooldown_in_force_def)
next
  fix m :: "ip_addr \<rightharpoonup> instant" and jp u now ip
  assume v: "cooldown_in_force A c \<and> table_ok c m" and u: "m jp = Some u" "now < u" "table_room c now m" "jp \<noteq> ip"
  let ?m1 = "retain_unexpired now m"
  have "finite (dom ?m1)" using v retain_dom finite_subset unfolding table_ok_def by blast
  then have "length (al_order A ?m1) = card (dom ?m1)"
    using v unfolding cooldown_in_force_def order_enumerates_def by (metis distinct_card)
  with u(3) have "length (al_order A ?m1) < unat (max_tracked_ips c)" by (simp add: table_room_def)
  moreover have "?m1 jp = Some u" using u by (simp add: retain_lookup)
  ultimately show "snd (record_auth_failure A c now ip m) jp = Some u"
    using record_table [of A c now ip m] v u(4)
    by (cases "record_auth_failure A c now ip m") (auto simp: cooldown_in_force_def)
next
  fix m :: "ip_addr \<rightharpoonup> instant" and now ip
  assume v: "cooldown_in_force A c \<and> table_ok c m"
  then show "cooldown_in_force A c \<and> table_ok c (snd (cooldown_remaining c now ip m))"
    using remaining_ok [of c m now ip] by (cases "cooldown_remaining c now ip m") auto
  from v show "cooldown_in_force A c \<and> table_ok c (snd (record_auth_failure A c now ip m))"
    using record_ok [of A c m now ip] by (cases "record_auth_failure A c now ip m") (auto simp: cooldown_in_force_def)
qed

text \<open>The \<open>Retry-After\<close> value is the remaining time, rounded up to seconds.\<close>

lemma retry_after_exact:
  assumes "0 < r" and "r \<le> unat (k :: u64) * nanos_per_sec"
  defines "w \<equiv> of_nat (r div nanos_per_sec) + (if r mod nanos_per_sec > 0 then 1 else 0) :: u64"
  shows "r \<le> unat w * nanos_per_sec" and "(unat w - 1) * nanos_per_sec < r" and "w \<le> k"
proof -
  define n where "n = r div nanos_per_sec + (if r mod nanos_per_sec > 0 then 1 else 0)"
  have np: "0 < nanos_per_sec" by (simp add: nanos_per_sec_def)
  have up: "r \<le> n * nanos_per_sec" "(n - 1) * nanos_per_sec < r"
  proof -
    have d: "r = r div nanos_per_sec * nanos_per_sec + r mod nanos_per_sec" by simp
    have m: "r mod nanos_per_sec < nanos_per_sec" using np by simp
    have n: "n * nanos_per_sec \<ge> r div nanos_per_sec * nanos_per_sec + r mod nanos_per_sec"
    proof (cases "r mod nanos_per_sec > 0")
      case True
      then have "n = Suc (r div nanos_per_sec)" by (simp add: n_def)
      then have "n * nanos_per_sec = r div nanos_per_sec * nanos_per_sec + nanos_per_sec" by simp
      with m show ?thesis by linarith
    qed (simp add: n_def)
    then show "r \<le> n * nanos_per_sec" using d by linarith
    show "(n - 1) * nanos_per_sec < r"
    proof (cases "r mod nanos_per_sec = 0")
      case True
      have "n * nanos_per_sec = r" using d True by (simp add: n_def)
      moreover from this assms(1) obtain j where "n = Suc j" by (cases n) auto
      ultimately have "(n - 1) * nanos_per_sec + nanos_per_sec = r" by simp
      with np show ?thesis by linarith
    next
      case False
      then have "(n - 1) * nanos_per_sec = r div nanos_per_sec * nanos_per_sec" by (simp add: n_def)
      with d False show ?thesis by linarith
    qed
  qed
  have "(n - 1) * nanos_per_sec < unat k * nanos_per_sec" using up(2) assms(2) by linarith
  then have nk: "n \<le> unat k" using np by simp
  have w: "w = of_nat n" by (simp add: w_def n_def)
  have lt: "n < 2 ^ 64" using nk unsigned_less [where ?'a = nat and w = k] by simp
  then have uw: "unat w = n" unfolding w by (simp add: unat_of_nat take_bit_eq_mod)
  show "r \<le> unat w * nanos_per_sec" "(unat w - 1) * nanos_per_sec < r" using up uw by simp_all
  show "w \<le> k" using nk uw by (simp add: word_le_nat_alt)
qed

definition from_allowed :: "app_lib \<Rightarrow> app_state \<Rightarrow> http_request \<Rightarrow> ip_addr \<Rightarrow> bool" where
  "from_allowed A s rq ip \<longleftrightarrow>
     map_option normalize_ip (rq_peer rq) = Some ip \<and> list_ex (\<lambda>cidr. al_contains A cidr ip) (as_allowed_cidrs s)"

abbreviation cooldown_event :: "app_lib \<Rightarrow> token_failure_cooldown_config \<Rightarrow> ip_addr table_event \<Rightarrow> (ip_addr \<rightharpoonup> instant) \<Rightarrow> ip_addr \<rightharpoonup> instant" where
  "cooldown_event A c \<equiv> table_apply (cooldown_remaining c) (record_auth_failure A c)"

text \<open>
  A full table ends a lockout early: when the failure of another address is recorded and as many
  addresses are locked out as the table may hold, the one whose lockout would end first is forgotten.
\<close>

lemma eviction_ends_lockout:
  assumes "cooldown_enabled c" and "order_enumerates A" and "finite (dom m)"
    and "record_auth_failure A c now ip m = (False, m')"
    and "unat (max_tracked_ips c) \<le> card {b. \<exists>u. m b = Some u \<and> now < u}"
    and "m a = Some until" and "now < until" and "a \<noteq> ip"
    and "\<And>b u. m b = Some u \<Longrightarrow> now < u \<Longrightarrow> b \<noteq> a \<Longrightarrow> until < u"
  shows "m' a = None"
proof -
  let ?m1 = "retain_unexpired now m" and ?ips = "al_order A (retain_unexpired now m)"
  have dom: "dom ?m1 = {b. \<exists>u. m b = Some u \<and> now < u}"
    by (auto simp: retain_unexpired_def split: option.splits if_splits)
  have "finite (dom ?m1)" using assms(3) retain_dom finite_subset by blast
  with assms(2) have o: "distinct ?ips" "set ?ips = dom ?m1" unfolding order_enumerates_def by blast+
  have full: "unat (max_tracked_ips c) \<le> length ?ips" using assms(5) o dom by (metis distinct_card)
  have a: "a \<in> set ?ips" using o(2) dom assms(6,7) by auto
  then obtain x where x: "min_by_key (\<lambda>b. the (?m1 b)) ?ips = Some x" by (cases "min_by_key (\<lambda>b. the (?m1 b)) ?ips") auto
  have val: "?m1 b = m b" if "b \<in> dom ?m1" for b using that by (auto simp: retain_unexpired_def split: option.splits if_splits)
  have "x = a"
  proof (rule ccontr)
    assume ne: "x \<noteq> a"
    from min_by_key_in [OF x] a have "x \<in> dom ?m1" "the (?m1 x) \<le> the (?m1 a)" using o(2) by auto
    moreover from this(1) obtain u where "m x = Some u" "now < u" using dom by auto
    moreover have "?m1 a = Some until" "?m1 x = m x" using val a o(2) \<open>x \<in> dom ?m1\<close> assms(6) by auto
    ultimately show False using assms(9) [of x u] ne by simp
  qed
  with x have "evict_oldest ?ips ?m1 a = None" by (simp add: evict_oldest_def)
  with record_table [OF assms(4,1)] full assms(8) show ?thesis by simp
qed

text \<open>
  C21. Failed tokens lock an address out: after a failed verification of an address was recorded at
  \<open>now\<close>, every request of it before the cooldown is over is refused with 429, even with the
  right token, whatever other addresses do meanwhile, provided that the table has room whenever a
  failure of another address is recorded (otherwise \<open>eviction_ends_lockout\<close> applies);
  \<open>Retry-After\<close> is the remaining time rounded up to seconds.
\<close>

theorem cooldown_blocks:
  fixes s :: app_state
  defines "c \<equiv> as_cooldown s"
  assumes "cooldown_enabled c" and "order_enumerates A" and "table_ok c m"
    and "record_auth_failure A c now ip m = (False, m')"
    and "\<forall>e\<in>set es. event_time e < now + unat (cooldown_seconds c) * nanos_per_sec"
    and "others_fit (cooldown_event A c) (table_room c) ip es m'"
    and "as_failures s = fold (cooldown_event A c) es m'"
    and "from_allowed A s rq ip" and "now \<le> t" and "t < now + unat (cooldown_seconds c) * nanos_per_sec"
  shows "\<exists>w. authenticate A joined t now' rq s =
      Refused s ((error_response TOO_MANY_REQUESTS ''token_failure_cooldown'' M_token_failure_cooldown)
        \<lparr>rs_headers := [RetryAfter w]\<rparr>) \<and>
    now + unat (cooldown_seconds c) * nanos_per_sec - t \<le> unat w * nanos_per_sec \<and>
    (unat w - 1) * nanos_per_sec < now + unat (cooldown_seconds c) * nanos_per_sec - t \<and> w \<le> cooldown_seconds c"
proof -
  let ?u = "now + unat (cooldown_seconds c) * nanos_per_sec"
  have valid: "cooldown_in_force A c \<and> table_ok c m" using assms(2-4) by (simp add: cooldown_in_force_def)
  have m': "cooldown_in_force A c \<and> table_ok c m'"
    using cooldown.note_valid [OF valid, of now ip] assms(5) by simp
  have e: "as_failures s ip = Some ?u"
    using cooldown.entry_survives [OF m' cooldown.noted [OF valid assms(5)] assms(6,7)] assms(8) by simp
  let ?w = "of_nat ((?u - t) div nanos_per_sec) + (if (?u - t) mod nanos_per_sec > 0 then 1 else 0) :: u64"
  have r: "cooldown_remaining c t ip (as_failures s) = (Some ?w, as_failures s)"
    using assms(2,11) e by (simp add: cooldown_remaining_def Let_def)
  have bounds: "0 < ?u - t" "?u - t \<le> unat (cooldown_seconds c) * nanos_per_sec" using assms(10,11) by linarith+
  obtain peer where "rq_peer rq = Some peer" "normalize_ip peer = ip"
    using assms(9) by (auto simp: from_allowed_def)
  then have "authenticate A joined t now' rq s =
      Refused s ((error_response TOO_MANY_REQUESTS ''token_failure_cooldown'' M_token_failure_cooldown)
        \<lparr>rs_headers := [RetryAfter ?w]\<rparr>)"
    using assms(9) r unfolding c_def by (simp add: authenticate_def from_allowed_def del: of_nat_add)
  with retry_after_exact [OF bounds] show ?thesis by blast
qed

text \<open>
  C22. The table of failures stays small: whatever the order of requests, checks and records leave it
  with at most \<open>max_tracked_ips\<close> entries.
\<close>

theorem failures_bounded:
  assumes "order_enumerates A" and "0 < max_tracked_ips c"
  shows "finite (dom (fold (cooldown_event A c) es Map.empty)) \<and>
    card (dom (fold (cooldown_event A c) es Map.empty)) \<le> unat (max_tracked_ips c)"
proof -
  have step: "table_ok c (cooldown_event A c e m)" if "table_ok c m" for e m
  proof (cases e)
    case (Checked t ip)
    with remaining_ok [OF that, of t ip] show ?thesis by (cases "cooldown_remaining c t ip m") simp
  next
    case (Failed_at t ip)
    with record_ok [OF assms(1) that, of t ip] show ?thesis by (cases "record_auth_failure A c t ip m") simp
  qed
  have "table_ok c (fold (cooldown_event A c) es m)" if "table_ok c m" for m
    using that by (induction es arbitrary: m) (simp_all add: step)
  moreover have "table_ok c Map.empty" by (simp add: table_ok_def)
  moreover have "1 \<le> unat (max_tracked_ips c)" using assms(2) by (simp add: word_less_nat_alt Suc_le_eq)
  ultimately show ?thesis unfolding table_ok_def by (metis max.absorb2)
qed

section \<open>The gate\<close>

text \<open>What a request must bring to reach a handler.\<close>

definition locked_out :: "app_state \<Rightarrow> instant \<Rightarrow> ip_addr \<Rightarrow> bool" where
  "locked_out s now ip \<longleftrightarrow>
     cooldown_enabled (as_cooldown s) \<and> (\<exists>until. as_failures s ip = Some until \<and> now < until)"

definition token_accepted :: "app_lib \<Rightarrow> bool \<Rightarrow> http_request \<Rightarrow> app_state \<Rightarrow> bool" where
  "token_accepted A joined rq s \<longleftrightarrow>
     (\<exists>token. bearer_token A (rq_authorization rq) = Some token \<and> fst (verify (al_crypto A) joined (as_token s) token))"

definition authorised :: "app_lib \<Rightarrow> bool \<Rightarrow> instant \<Rightarrow> http_request \<Rightarrow> app_state \<Rightarrow> bool" where
  "authorised A joined now rq s \<longleftrightarrow>
     (\<exists>ip. from_allowed A s rq ip \<and> \<not> locked_out s now ip) \<and> token_accepted A joined rq s"

lemma cooldown_remaining_free:
  "fst (cooldown_remaining (as_cooldown s) now ip (as_failures s)) = None \<longleftrightarrow> \<not> locked_out s now ip"
  by (auto simp: cooldown_remaining_def locked_out_def Let_def split: option.splits)

lemma cooldown_remaining_table:
  assumes "cooldown_remaining c now ip m = (r, m')"
  shows "r \<noteq> None \<Longrightarrow> m' = m" and "m' = m \<or> m' = m(ip := None)" and "\<not> cooldown_enabled c \<Longrightarrow> m' = m"
  using assms by (auto simp: cooldown_remaining_def Let_def split: option.splits if_splits)

lemma verify_refused: "verify C joined v token = (False, v') \<Longrightarrow> v' = v"
  by (cases v) (auto simp: verify_def verify_start_def Let_def split: option.splits if_splits)

lemma verify_accepted:
  assumes "verify C joined v token = (True, v')"
  shows "v' = v \<or> (\<exists>phc. v = Pbkdf2V phc None \<and> v' = Pbkdf2V phc (Some (token_fingerprint C token)))"
  using assms by (cases v) (auto simp: verify_def verify_start_def Let_def split: option.splits if_splits)

text \<open>States that differ in the verifier and the table of failures at most.\<close>

definition same_service :: "app_state \<Rightarrow> app_state \<Rightarrow> bool" where
  "same_service s s' \<longleftrightarrow> (\<exists>v m. s' = s\<lparr>as_token := v, as_failures := m\<rparr>)"

lemma same_service_refl [simp]: "same_service s s"
  unfolding same_service_def by (intro exI [of _ "as_token s"] exI [of _ "as_failures s"]) simp

lemma same_service_upd [intro]:
  "same_service s s' \<Longrightarrow> same_service s (s'\<lparr>as_failures := m\<rparr>)"
  "same_service s s' \<Longrightarrow> same_service s (s'\<lparr>as_token := v\<rparr>)"
  by (cases s; cases s'; auto simp: same_service_def)+

lemma same_service_fields:
  assumes "same_service s s'"
  shows "as_store s' = as_store s" "as_global s' = as_global s" "as_routes s' = as_routes s"
    "as_queue s' = as_queue s" "as_lifecycle s' = as_lifecycle s" "as_running s' = as_running s"
    "as_listening s' = as_listening s" "as_cooldown s' = as_cooldown s" "as_log_directory s' = as_log_directory s"
  using assms by (auto simp: same_service_def)

definition gate_statuses :: "status_code set" where
  "gate_statuses = {FORBIDDEN, TOO_MANY_REQUESTS, UNAUTHORIZED}"

lemma error_response_status [simp]: "rs_status (error_response st code msg) = st"
  by (simp add: error_response_def api_error_into_response_def api_error_new_def respond_def)

lemma authenticate_cases:
  "case authenticate A joined now now' rq s of
     Admitted s' \<Rightarrow> authorised A joined now rq s \<and> same_service s s'
   | Refused s' r \<Rightarrow> \<not> authorised A joined now rq s \<and> same_service s s' \<and> rs_status r \<in> gate_statuses
   | GatePanic s' \<Rightarrow> \<not> authorised A joined now rq s \<and> same_service s s'"
proof (cases "\<exists>ip. from_allowed A s rq ip")
  case False
  then show ?thesis
    by (auto simp: authenticate_def authorised_def from_allowed_def gate_statuses_def split: option.split)
next
  case True
  then obtain ip where ip: "from_allowed A s rq ip" by blast
  then have uniq: "from_allowed A s rq ip' \<longleftrightarrow> ip' = ip" for ip' by (auto simp: from_allowed_def)
  obtain peer where peer: "rq_peer rq = Some peer" "normalize_ip peer = ip"
      "list_ex (\<lambda>cidr. al_contains A cidr ip) (as_allowed_cidrs s)"
    using ip by (auto simp: from_allowed_def)
  obtain r m where c: "cooldown_remaining (as_cooldown s) now ip (as_failures s) = (r, m)" by fastforce
  define av where "av = (case bearer_token A (rq_authorization rq) of
      Some token \<Rightarrow> verify (al_crypto A) joined (as_token s) token | None \<Rightarrow> (False, as_token s))"
  obtain ok v where av: "av = (ok, v)" by fastforce
  have auth: "authorised A joined now rq s \<longleftrightarrow> r = None \<and> ok"
    using av cooldown_remaining_free [of s now ip] unfolding av_def authorised_def token_accepted_def
    by (auto simp: uniq c split: option.splits)
  have upd: "same_service s (s\<lparr>as_failures := m1, as_token := v1, as_failures := m2\<rparr>)"
    "same_service s (s\<lparr>as_failures := m1, as_token := v1\<rparr>)" "same_service s (s\<lparr>as_failures := m1\<rparr>)" for m1 m2 v1
    by (intro same_service_upd same_service_refl)+
  obtain b m' where rec: "record_auth_failure A (as_cooldown s) now' ip m = (b, m')" by fastforce
  have fold: "(case bearer_token A (rq_authorization rq) of
      None \<Rightarrow> (False, as_token (s\<lparr>as_failures := m\<rparr>))
    | Some token \<Rightarrow> verify (al_crypto A) joined (as_token (s\<lparr>as_failures := m\<rparr>)) token) = (ok, v)"
    using av unfolding av_def by (simp split: option.splits)
  show ?thesis
  proof (cases r)
    case (Some w)
    then show ?thesis
      using upd by (simp add: authenticate_def peer c auth gate_statuses_def)
  next
    case None
    then show ?thesis
      using upd by (cases ok; cases b) (simp_all add: authenticate_def peer c Let_def fold rec auth gate_statuses_def)
  qed
qed

lemma gate_frame:
  assumes "serve A joined now now' d rq e s f = (s', f', resp)"
  shows "(\<not> authorised A joined now rq s \<longrightarrow>
      same_service s s' \<and> f' = f \<and> (\<forall>r. resp = Some r \<longrightarrow> rs_status r \<in> gate_statuses)) \<and>
    (authorised A joined now rq s \<longrightarrow>
      (\<exists>s1 r. same_service s s1 \<and> dispatch A d e s1 f = (s', f', r) \<and> resp = Some r))"
  using assms authenticate_cases [of A joined now rq s now']
  by (cases "authenticate A joined now now' rq s") (auto simp: serve_def split: prod.splits)

text \<open>What is recorded of a request that brought no accepted token, and the state in which an accepted
  request reaches its handler.\<close>

definition failure_noted :: "app_lib \<Rightarrow> app_state \<Rightarrow> instant \<Rightarrow> ip_addr \<Rightarrow> (ip_addr \<rightharpoonup> instant) \<Rightarrow> response option \<Rightarrow> bool" where
  "failure_noted A s now ip m resp \<longleftrightarrow>
     (let over = now + unat (cooldown_seconds (as_cooldown s)) * nanos_per_sec in
      (\<forall>a. a \<noteq> ip \<longrightarrow> m a = as_failures s a \<or> m a = None) \<and>
      (case resp of
         None \<Rightarrow> cooldown_enabled (as_cooldown s) \<and> al_instant_max A < over
       | Some r \<Rightarrow> rs_status r = UNAUTHORIZED \<and>
           (if cooldown_enabled (as_cooldown s) then m ip = Some over else m = as_failures s)))"

definition admitted_as :: "app_lib \<Rightarrow> http_request \<Rightarrow> ip_addr \<Rightarrow> app_state \<Rightarrow> app_state \<Rightarrow> bool" where
  "admitted_as A rq ip s s1 \<longleftrightarrow>
     (\<exists>v m. s1 = s\<lparr>as_token := v, as_failures := m\<rparr> \<and> (m = as_failures s \<or> m = (as_failures s)(ip := None)) \<and>
        (v = as_token s \<or>
         (\<exists>phc token. as_token s = Pbkdf2V phc None \<and> bearer_token A (rq_authorization rq) = Some token \<and>
            v = Pbkdf2V phc (Some (token_fingerprint (al_crypto A) token)))))"

lemma record_auth_failure_noted:
  assumes "record_auth_failure A (as_cooldown s) now ip m = (b, m')" and "m = as_failures s \<or> m = (as_failures s)(ip := None)"
    and "\<not> cooldown_enabled (as_cooldown s) \<Longrightarrow> m = as_failures s" and "rs_status r = UNAUTHORIZED"
  shows "failure_noted A s now ip m' (if b then None else Some r)"
proof -
  have evict: "evict_oldest ips m2 a = m2 a \<or> evict_oldest ips m2 a = None" for ips m2 and a :: ip_addr
    by (auto simp: evict_oldest_def split: option.split)
  have retain: "retain_unexpired now m a = m a \<or> retain_unexpired now m a = None" for a
    by (auto simp: retain_unexpired_def split: option.split)
  have other: "m' a = as_failures s a \<or> m' a = None" if "a \<noteq> ip" for a
    using assms(1,2) that evict [of "al_order A (retain_unexpired now m)" "retain_unexpired now m" a] retain [of a]
    by (auto simp: record_auth_failure_def Let_def split: if_splits option.splits)
  show ?thesis
    using assms other
    by (auto simp: failure_noted_def record_auth_failure_def instant_add_secs_def Let_def split: if_splits option.splits)
qed

lemma authenticate_exact:
  assumes ip: "from_allowed A s rq ip"
  shows "(locked_out s now ip \<longrightarrow>
      (\<exists>r. authenticate A joined now now' rq s = Refused s r \<and> rs_status r = TOO_MANY_REQUESTS)) \<and>
    (\<not> locked_out s now ip \<and> \<not> token_accepted A joined rq s \<longrightarrow>
      (\<exists>m. (\<exists>r. authenticate A joined now now' rq s = Refused (s\<lparr>as_failures := m\<rparr>) r \<and> failure_noted A s now' ip m (Some r)) \<or>
         authenticate A joined now now' rq s = GatePanic (s\<lparr>as_failures := m\<rparr>) \<and> failure_noted A s now' ip m None)) \<and>
    (\<not> locked_out s now ip \<and> token_accepted A joined rq s \<longrightarrow>
      (\<exists>s1. authenticate A joined now now' rq s = Admitted s1 \<and> admitted_as A rq ip s s1))"
proof -
  obtain peer where peer: "rq_peer rq = Some peer" "normalize_ip peer = ip"
      "list_ex (\<lambda>cidr. al_contains A cidr ip) (as_allowed_cidrs s)"
    using ip by (auto simp: from_allowed_def)
  obtain r m where c: "cooldown_remaining (as_cooldown s) now ip (as_failures s) = (r, m)" by fastforce
  note table = cooldown_remaining_table [OF c]
  have free: "r = None \<longleftrightarrow> \<not> locked_out s now ip" using cooldown_remaining_free [of s now ip] c by simp
  define av where "av = (case bearer_token A (rq_authorization rq) of
      Some token \<Rightarrow> verify (al_crypto A) joined (as_token s) token | None \<Rightarrow> (False, as_token s))"
  obtain ok v where av: "av = (ok, v)" by fastforce
  have ok: "ok \<longleftrightarrow> token_accepted A joined rq s"
    using av unfolding av_def token_accepted_def by (auto split: option.splits)
  have refused: "\<not> ok \<Longrightarrow> v = as_token s"
    using av verify_refused unfolding av_def by (auto split: option.splits)
  have accepted: "ok \<Longrightarrow> admitted_as A rq ip s (s\<lparr>as_failures := m, as_token := v\<rparr>)"
    using av table(2) verify_accepted [of "al_crypto A" joined "as_token s" _ v] unfolding av_def admitted_as_def
    by (intro exI [of _ v] exI [of _ m]) (auto split: option.splits)
  have fold: "(case bearer_token A (rq_authorization rq) of
      None \<Rightarrow> (False, as_token (s\<lparr>as_failures := m\<rparr>))
    | Some token \<Rightarrow> verify (al_crypto A) joined (as_token (s\<lparr>as_failures := m\<rparr>)) token) = (ok, v)"
    using av unfolding av_def by (simp split: option.splits)
  obtain b m' where rec: "record_auth_failure A (as_cooldown s) now' ip m = (b, m')" by fastforce
  note noted = record_auth_failure_noted [OF rec table(2,3),
      of "(error_response UNAUTHORIZED ''unauthorized'' M_unauthorized)\<lparr>rs_headers := [WwwAuthenticate ''Bearer'']\<rparr>"]
  have same: "s\<lparr>as_failures := m, as_token := as_token s, as_failures := m'\<rparr> = s\<lparr>as_failures := m'\<rparr>" by simp
  show ?thesis
  proof (cases r)
    case (Some w)
    then show ?thesis using table(1) free by (simp add: authenticate_def peer c)
  next
    case None
    then show ?thesis
      using free ok refused accepted noted same
      by (cases ok; cases b) (auto simp: authenticate_def peer c Let_def fold rec)
  qed
qed

text \<open>
  C2. Nothing happens without authentication. A request from an address outside the allowed blocks is
  answered with 403, one from a locked-out address with 429, and both change nothing at all. One
  without an accepted bearer token changes nothing but the table of failures, in which its address gets
  locked out for the cooldown (other entries may only disappear), and is answered with 401; only if the
  end of the cooldown is beyond the range of the clock is its connection dropped. Every other
  request is answered by its handler, before which nothing changes but its own expired entry and the
  fingerprint of its token in an empty cache.
\<close>

theorem gate_exact:
  assumes "serve A joined now now' d rq e s f = (s', f', resp)"
  shows "((\<nexists>ip. from_allowed A s rq ip) \<longrightarrow> s' = s \<and> f' = f \<and> (\<exists>r. resp = Some r \<and> rs_status r = FORBIDDEN)) \<and>
    (\<forall>ip. from_allowed A s rq ip \<longrightarrow>
      (if locked_out s now ip then s' = s \<and> f' = f \<and> (\<exists>r. resp = Some r \<and> rs_status r = TOO_MANY_REQUESTS)
       else if \<not> token_accepted A joined rq s then
         f' = f \<and> (\<exists>m. s' = s\<lparr>as_failures := m\<rparr> \<and> failure_noted A s now' ip m resp)
       else (\<exists>s1 r. admitted_as A rq ip s s1 \<and> dispatch A d e s1 f = (s', f', r) \<and> resp = Some r)))"
proof -
  have none: "s' = s \<and> f' = f \<and> (\<exists>r. resp = Some r \<and> rs_status r = FORBIDDEN)" if "\<nexists>ip. from_allowed A s rq ip"
    using assms that by (auto simp: serve_def authenticate_def from_allowed_def split: option.splits)
  have some: "if locked_out s now ip then s' = s \<and> f' = f \<and> (\<exists>r. resp = Some r \<and> rs_status r = TOO_MANY_REQUESTS)
       else if \<not> token_accepted A joined rq s then
         f' = f \<and> (\<exists>m. s' = s\<lparr>as_failures := m\<rparr> \<and> failure_noted A s now' ip m resp)
       else (\<exists>s1 r. admitted_as A rq ip s s1 \<and> dispatch A d e s1 f = (s', f', r) \<and> resp = Some r)"
    if "from_allowed A s rq ip" for ip
    using authenticate_exact [OF that, of now joined now'] assms by (auto simp: serve_def split: prod.splits)
  from none some show ?thesis by blast
qed

section \<open>The application as a transition system\<close>

text \<open>
  Requests interleave with the ends of tasks, the updates the executors make to the store, and the
  receiver of the management channel, which takes an action or leaves on an external shutdown and is
  gone in either case.
\<close>

inductive app_step :: "app_lib \<Rightarrow> app_state \<Rightarrow> app_state \<Rightarrow> bool" for A where
  as_request: "serve A joined now now' d rq e s f = (s', f', resp) \<Longrightarrow> app_step A s s'"
| as_task_end: "k < length (as_running s) \<Longrightarrow> app_step A s (drop_permits k s)"
| as_executor: "app_step A s (s\<lparr>as_store := st\<rparr>)"
| as_receiver_gone: "app_step A s (s\<lparr>as_queue := [], as_listening := False\<rparr>)"

inductive app_reachable :: "app_lib \<Rightarrow> resolved_config \<Rightarrow> app_state \<Rightarrow> bool" for A c where
  ar_build: "build A c st = Some s \<Longrightarrow> app_reachable A c s"
| ar_step: "app_reachable A c s \<Longrightarrow> app_step A s s' \<Longrightarrow> app_reachable A c s'"

definition on_path :: "string \<Rightarrow> started_task list \<Rightarrow> nat" where
  "on_path p ts = length (filter (\<lambda>t. st_path t = p) ts)"

definition app_permits_inv :: "app_lib \<Rightarrow> resolved_config \<Rightarrow> app_state \<Rightarrow> bool" where
  "app_permits_inv A c s \<longleftrightarrow>
     as_global s + length (as_running s) = unat (max_total_concurrency (rc_execution c)) \<and>
     (\<forall>t\<in>set (as_running s). \<exists>rt. as_routes s (st_path t) = Some rt \<and>
        validate_request_args (al_is_match A) (rt_config rt) (st_args t) = Inr ()) \<and>
     (\<forall>p. map_option rt_config (as_routes s p) = map_of (rev (map (\<lambda>r. (r_path r, r)) (rc_routes c))) p) \<and>
     (\<forall>p rt. as_routes s p = Some rt \<longrightarrow>
        rt_limit rt + on_path p (as_running s) = unat (r_max_concurrency (rt_config rt)))"

lemma on_path_simps [simp]:
  "on_path p [] = 0" "on_path p (xs @ ys) = on_path p xs + on_path p ys"
  "on_path p (t # ts) = (if st_path t = p then 1 else 0) + on_path p ts"
  by (simp_all add: on_path_def)

lemma on_path_remove:
  assumes "k < length ts"
  shows "on_path p ts = (if st_path (ts ! k) = p then 1 else 0) + on_path p (take k ts @ drop (Suc k) ts)"
    and "length ts = Suc (length (take k ts @ drop (Suc k) ts))"
    and "set ts = insert (ts ! k) (set (take k ts @ drop (Suc k) ts))"
proof -
  have ts: "ts = take k ts @ ts ! k # drop (Suc k) ts" by (rule id_take_nth_drop [OF assms])
  show "on_path p ts = (if st_path (ts ! k) = p then 1 else 0) + on_path p (take k ts @ drop (Suc k) ts)"
    by (subst ts) simp
  show "length ts = Suc (length (take k ts @ drop (Suc k) ts))" using assms by simp
  have "set ts = set (take k ts @ ts ! k # drop (Suc k) ts)" using ts by simp
  then show "set ts = insert (ts ! k) (set (take k ts @ drop (Suc k) ts))" by auto
qed

lemma build_permits:
  assumes "build A c st = Some s"
  shows "app_permits_inv A c s"
proof -
  have m: "map_option rt_config (map_of (map (\<lambda>r. (r_path r, runtime_of r)) rs) p) = map_of (map (\<lambda>r. (r_path r, r)) rs) p" for rs p
    by (induction rs) (auto simp: runtime_of_def)
  have l: "map_of (map (\<lambda>r. (r_path r, runtime_of r)) rs) p = Some rt \<Longrightarrow> rt_limit rt = unat (r_max_concurrency (rt_config rt))" for rs p rt
    by (induction rs) (auto simp: runtime_of_def split: if_splits)
  show ?thesis
    using assms m [of "rev (rc_routes c)"] l [of "rev (rc_routes c)"]
    by (auto simp: build_def app_permits_inv_def rev_map split: if_splits)
qed

text \<open>A handler leaves the permits alone, or \<open>execute\<close> takes one of each kind.\<close>

definition takes_permits :: "app_lib \<Rightarrow> string \<Rightarrow> app_state \<Rightarrow> app_state \<Rightarrow> bool" where
  "takes_permits A p s s' \<longleftrightarrow>
     (\<exists>rt t. as_routes s p = Some rt \<and> 0 < rt_limit rt \<and> 0 < as_global s \<and> st_path t = p \<and>
        validate_request_args (al_is_match A) (rt_config rt) (st_args t) = Inr () \<and>
        as_global s' = as_global s - 1 \<and> as_routes s' = (as_routes s)(p \<mapsto> rt\<lparr>rt_limit := rt_limit rt - 1\<rparr>) \<and>
        as_running s' = as_running s @ [t])"

lemma execute_permits:
  assumes "execute A tid ts p req s f = (s', f', r)"
  shows "as_global s' = as_global s \<and> as_routes s' = as_routes s \<and> as_running s' = as_running s \<or> takes_permits A p s s'"
  using assms unfolding execute_def takes_permits_def
  by (auto split: option.splits sum.splits if_splits prod.splits)

lemma management_frame:
  assumes "request_management_action a s = (s', r)"
  shows "as_global s' = as_global s \<and> as_routes s' = as_routes s \<and> as_running s' = as_running s \<and> as_store s' = as_store s"
  using assms by (auto simp: request_management_action_def split: if_splits)

lemma dispatch_permits:
  assumes "dispatch A d e s f = (s', f', r)"
  shows "as_global s' = as_global s \<and> as_routes s' = as_routes s \<and> as_running s' = as_running s \<or> (\<exists>p. takes_permits A p s s')"
proof (cases e)
  case (Execute p req)
  with assms show ?thesis by (auto dest: execute_permits)
next
  case StopService
  with assms show ?thesis
    by (auto simp: stop_service_def split: prod.splits option.splits dest!: management_frame)
next
  case RestartService
  with assms show ?thesis
    by (auto simp: restart_service_def split: prod.splits option.splits sum.splits if_splits dest!: management_frame)
qed (use assms in \<open>auto simp: cancel_task_def kill_task_def stop_task_def split: prod.splits option.splits bool.splits\<close>)

lemma takes_permits_inv:
  assumes "app_permits_inv A c s" and "takes_permits A p s s'"
  shows "app_permits_inv A c s'"
proof -
  from assms(2) obtain rt t where t: "as_routes s p = Some rt" "0 < rt_limit rt" "0 < as_global s" "st_path t = p"
     "as_global s' = as_global s - 1" "as_routes s' = (as_routes s)(p \<mapsto> rt\<lparr>rt_limit := rt_limit rt - 1\<rparr>)"
     "as_running s' = as_running s @ [t]" "validate_request_args (al_is_match A) (rt_config rt) (st_args t) = Inr ()"
     unfolding takes_permits_def by blast
  have "map_option rt_config (as_routes s' q) = map_option rt_config (as_routes s q)" for q using t(1,6) by simp
  moreover have "rt_limit rt + on_path p (as_running s) = unat (r_max_concurrency (rt_config rt))"
    using assms(1) t(1) unfolding app_permits_inv_def by blast
  moreover from this t(2) have "0 < unat (r_max_concurrency (rt_config rt))" by linarith
  ultimately show ?thesis using assms(1) t unfolding app_permits_inv_def by auto
qed

lemma serve_permits:
  assumes "serve A joined now now' d rq e s f = (s', f', resp)" and "app_permits_inv A c s"
  shows "app_permits_inv A c s'"
proof -
  have same: "app_permits_inv A c s2"
    if "app_permits_inv A c s1" "as_global s2 = as_global s1" "as_routes s2 = as_routes s1" "as_running s2 = as_running s1" for s1 s2
    using that by (simp add: app_permits_inv_def)
  show ?thesis
  proof (cases "authorised A joined now rq s")
    case False
    with gate_frame [OF assms(1)] have "same_service s s'" by simp
    from same_service_fields [OF this] show ?thesis by (intro same [OF assms(2)])
  next
    case True
    with gate_frame [OF assms(1)] obtain s1 r where s1: "same_service s s1" "dispatch A d e s1 f = (s', f', r)" by auto
    have inv: "app_permits_inv A c s1" using same_service_fields [OF s1(1)] by (intro same [OF assms(2)])
    from dispatch_permits [OF s1(2)] show ?thesis
      using same [OF inv] takes_permits_inv [OF inv] by (elim disjE exE conjE) simp_all
  qed
qed

lemma drop_permits_inv:
  assumes "app_permits_inv A c s" and "k < length (as_running s)"
  shows "app_permits_inv A c (drop_permits k s)"
proof -
  let ?t = "as_running s ! k" and ?rest = "take k (as_running s) @ drop (Suc k) (as_running s)"
  note rem = on_path_remove [OF assms(2)]
  have routes: "as_routes (drop_permits k s) q =
      (if q = st_path ?t then map_option (\<lambda>rt. rt\<lparr>rt_limit := rt_limit rt + 1\<rparr>) (as_routes s q) else as_routes s q)" for q
    by (simp add: drop_permits_def Let_def)
  have fields: "as_global (drop_permits k s) = as_global s + 1" "as_running (drop_permits k s) = ?rest"
    by (simp_all add: drop_permits_def Let_def)
  have "map_option rt_config (as_routes (drop_permits k s) q) = map_option rt_config (as_routes s q)" for q
    by (simp add: routes option.map_comp o_def)
  moreover have "rt_limit rt + on_path q ?rest = unat (r_max_concurrency (rt_config rt))"
    if "as_routes (drop_permits k s) q = Some rt" for q rt
  proof -
    from that obtain rt0 where rt0: "as_routes s q = Some rt0" "rt_config rt = rt_config rt0"
        "rt_limit rt = rt_limit rt0 + (if q = st_path ?t then 1 else 0)"
      by (auto simp: routes split: if_splits)
    then have "rt_limit rt0 + on_path q (as_running s) = unat (r_max_concurrency (rt_config rt0))"
      using assms(1) unfolding app_permits_inv_def by blast
    with rt0 rem(1) [of q] show ?thesis by (auto split: if_splits)
  qed
  moreover have "as_global s + 1 + length ?rest = unat (max_total_concurrency (rc_execution c))"
    using assms(1) rem(2) unfolding app_permits_inv_def by linarith
  moreover have "\<exists>rt. as_routes (drop_permits k s) (st_path t) = Some rt \<and>
      validate_request_args (al_is_match A) (rt_config rt) (st_args t) = Inr ()" if "t \<in> set ?rest" for t
  proof -
    from that have "t \<in> set (as_running s)" using rem(3) by blast
    then obtain rt where "as_routes s (st_path t) = Some rt" "validate_request_args (al_is_match A) (rt_config rt) (st_args t) = Inr ()"
      using assms(1) unfolding app_permits_inv_def by blast
    then show ?thesis by (auto simp: routes)
  qed
  ultimately show ?thesis
    using assms(1) unfolding app_permits_inv_def fields by simp
qed

lemma reachable_permits: "app_reachable A c s \<Longrightarrow> app_permits_inv A c s"
proof (induction rule: app_reachable.induct)
  case (ar_build st s)
  then show ?case by (rule build_permits)
next
  case (ar_step s s')
  from ar_step.hyps(2) show ?case
  proof (cases rule: app_step.cases)
    case (as_request joined now now' d rq e f f' resp)
    then show ?thesis using serve_permits ar_step.IH by blast
  next
    case (as_task_end k)
    then show ?thesis using drop_permits_inv ar_step.IH by blast
  qed (use ar_step.IH in \<open>simp_all add: app_permits_inv_def\<close>)
qed

text \<open>
  C3. Concurrency limits hold: in every reachable state, whatever requests, task ends and failures came
  before, the tasks that run are at most the global limit and, on each route, at most its limit; and no
  permit is lost: the free permits and the running tasks always make up the limits.
\<close>

theorem concurrency_bounded:
  assumes "app_reachable A c s" and "distinct (map r_path (rc_routes c))"
  shows "length (as_running s) \<le> unat (max_total_concurrency (rc_execution c)) \<and>
    as_global s + length (as_running s) = unat (max_total_concurrency (rc_execution c)) \<and>
    (\<forall>r\<in>set (rc_routes c). \<exists>rt. as_routes s (r_path r) = Some rt \<and> rt_config rt = r \<and>
       rt_limit rt + on_path (r_path r) (as_running s) = unat (r_max_concurrency r))"
proof -
  note inv = reachable_permits [OF assms(1)]
  have "\<exists>rt. as_routes s (r_path r) = Some rt \<and> rt_config rt = r \<and>
      rt_limit rt + on_path (r_path r) (as_running s) = unat (r_max_concurrency r)" if "r \<in> set (rc_routes c)" for r
  proof -
    have "map_of (rev (map (\<lambda>r. (r_path r, r)) (rc_routes c))) (r_path r) = Some r"
      using that assms(2) by (intro map_of_is_SomeI) (auto simp: o_def simp flip: rev_map)
    then have "map_option rt_config (as_routes s (r_path r)) = Some r" using inv by (simp add: app_permits_inv_def)
    then obtain rt where rt: "as_routes s (r_path r) = Some rt" "rt_config rt = r" by auto
    with inv have "rt_limit rt + on_path (r_path r) (as_running s) = unat (r_max_concurrency r)"
      unfolding app_permits_inv_def by blast
    with rt show ?thesis by blast
  qed
  with inv show ?thesis unfolding app_permits_inv_def by auto
qed

lemma running_admitted:
  assumes "app_reachable A c s" and "t \<in> set (as_running s)" and "as_routes s (st_path t) = Some rt"
  shows "validate_request_args (al_is_match A) (rt_config rt) (st_args t) = Inr ()" and "rt_config rt \<in> set (rc_routes c)"
proof -
  note inv = reachable_permits [OF assms(1), unfolded app_permits_inv_def]
  from inv assms(2,3) show "validate_request_args (al_is_match A) (rt_config rt) (st_args t) = Inr ()" by auto
  from inv assms(3) have "map_of (rev (map (\<lambda>r. (r_path r, r)) (rc_routes c))) (st_path t) = Some (rt_config rt)"
    by (metis option.simps(9))
  then show "rt_config rt \<in> set (rc_routes c)" by (auto dest: map_of_SomeD)
qed

section \<open>Handlers\<close>

lemma respond_status [simp]: "rs_status (respond st b) = st"
  by (simp add: respond_def)

lemma message_response_status [simp]: "rs_status (message_response st m) = st"
  by (simp add: message_response_def)

text \<open>
  C20. Submitting a task: it is accepted exactly when its arguments are admissible, a global permit
  and a permit of its route are free and its record can be created; then exactly one task of this
  route, with exactly these arguments, is handed to the executor and one permit of each kind is taken.
  Otherwise the answer is 400, 429 or 500 by the first of these that failed, and no permit is taken.
\<close>

theorem execute_exact:
  fixes s :: app_state
  assumes "as_routes s p = Some rt" and "execute A tid ts p req s f = (s', f', resp)"
  defines "admitted \<equiv> validate_request_args (al_is_match A) (rt_config rt) (args req) = Inr ()"
    and "created \<equiv> create (al_store A) tid ts (r_path (rt_config rt)) (task_mode (rt_config rt)) (r_output_encoding (rt_config rt)) (as_store s) f"
  shows "(admitted \<and> 0 < as_global s \<and> 0 < rt_limit rt \<and> is_ok (snd (snd created)) \<longrightarrow>
      rs_status resp = ACCEPTED \<and> as_store s' = fst created \<and> as_global s' + 1 = as_global s \<and>
      as_routes s' = (as_routes s)(p \<mapsto> rt\<lparr>rt_limit := rt_limit rt - 1\<rparr>) \<and>
      as_running s' = as_running s @ [\<lparr>st_id = tid, st_path = p, st_args = args req\<rparr>]) \<and>
    (\<not> (admitted \<and> 0 < as_global s \<and> 0 < rt_limit rt \<and> is_ok (snd (snd created))) \<longrightarrow>
      s' = s \<and>
      rs_status resp = (if \<not> admitted then BAD_REQUEST
        else if as_global s = 0 \<or> rt_limit rt = 0 then TOO_MANY_REQUESTS else INTERNAL_SERVER_ERROR))"
proof -
  obtain st' f1 res where c: "created = (st', f1, res)" by (rule prod_cases3)
  have id: "rec_id r = tid" if "res = Inr r" for r
    using c that unfolding created_def by (auto elim!: create_ok simp: initial_snapshot_def)
  have same: "st' = as_store s" if "res = Inl e" for e
    using c that unfolding created_def by (auto simp: create_def Let_def split: prod.splits bool.splits sum.splits)
  show ?thesis
  proof (cases "validate_request_args (al_is_match A) (rt_config rt) (args req)")
    case (Inl e)
    with assms(1,2) show ?thesis by (auto simp: execute_def admitted_def)
  next
    case (Inr u)
    with assms(1,2) c id same show ?thesis
      by (cases res; cases "as_global s = 0"; cases "rt_limit rt = 0")
        (auto simp: execute_def admitted_def created_def [symmetric])
  qed
qed

text \<open>
  Cancelling and killing: an unknown task is answered with 404, a finished one with 409, and in
  both cases nothing changes; an unfinished one is answered with 202, and its executor finds the
  request as the next value of its channel, with the reason \<open>cancelled\<close> or
  \<open>force_killed\<close>; no other task is touched.
\<close>

theorem stop_task_exact:
  assumes "(h, why) \<in> {(cancel_task, CancelledReason), (kill_task, ForceKilled)}" and "h tid s = (s', resp)"
  shows "(case get (as_store s) tid of
      None \<Rightarrow> s' = s \<and> rs_status resp = NOT_FOUND
    | Some r \<Rightarrow>
        if is_finished (status (snapshot r)) then s' = s \<and> rs_status resp = CONFLICT
        else rs_status resp = ACCEPTED \<and>
          (\<exists>r'. get (as_store s') tid = Some r' \<and> watch_value r' = Some why \<and> snapshot r' = snapshot r) \<and>
          (\<forall>j. j \<noteq> tid \<longrightarrow> get (as_store s') j = get (as_store s) j))"
  using assms
  by (auto simp: cancel_task_def kill_task_def stop_task_def task_not_found_def request_stop_def get_def
      watch_value_request snapshot_def split: option.splits bool.splits)

section \<open>Stopping and restarting the service\<close>

lemma management_started:
  assumes "as_lifecycle s = 1"
  shows "request_management_action a s =
    (s, Some (error_response CONFLICT ''service_transition_in_progress'' M_transition_in_progress))"
  using assms by (simp add: request_management_action_def)

lemma dispatch_lifecycle:
  assumes "as_lifecycle s = 1" and "dispatch A d e s f = (s', f', r)"
  shows "as_lifecycle s' = 1 \<and> as_queue s' = as_queue s"
  using assms
  by (cases e)
    (auto simp: cancel_task_def kill_task_def stop_task_def stop_service_def restart_service_def execute_def
      management_started split: prod.splits option.splits bool.splits sum.splits if_splits)

lemma step_lifecycle:
  assumes "app_step A s s'" and "as_lifecycle s = 1"
  shows "as_lifecycle s' = 1 \<and> (as_queue s' = as_queue s \<or> as_queue s' = [])"
  using assms(1)
proof (cases rule: app_step.cases)
  case (as_request joined now now' d rq e f f' resp)
  show ?thesis
  proof (cases "authorised A joined now rq s")
    case False
    with gate_frame [OF as_request] have "same_service s s'" by simp
    from same_service_fields [OF this] assms(2) show ?thesis by simp
  next
    case True
    with gate_frame [OF as_request] obtain s1 r where s1: "same_service s s1" "dispatch A d e s1 f = (s', f', r)" by auto
    from same_service_fields [OF s1(1)] dispatch_lifecycle [OF _ s1(2)] assms(2) show ?thesis by simp
  qed
qed (use assms(2) in \<open>simp_all add: drop_permits_def Let_def\<close>)

text \<open>
  C30. One transition in each round: once a stop or restart request is accepted by an application, with
  its action as the only one in the channel, then whatever happens to that application, no further
  action enters the channel and every further stop or restart request is answered with 409. (After a
  restart the service builds a new application, which may accept one again.)
\<close>

theorem one_transition:
  assumes "request_management_action a s = (s1, None)" and "(app_step A)\<^sup>*\<^sup>* s1 s'"
  shows "as_queue s1 = [a] \<and> (as_queue s' = [a] \<or> as_queue s' = []) \<and>
    request_management_action b s' =
      (s', Some (error_response CONFLICT ''service_transition_in_progress'' M_transition_in_progress))"
proof -
  have s1: "as_queue s1 = [a]" "as_lifecycle s1 = 1"
    using assms(1) by (auto simp: request_management_action_def split: if_splits)
  from assms(2) s1 have "as_lifecycle s' = 1 \<and> (as_queue s' = [a] \<or> as_queue s' = [])"
    by (induction rule: rtranclp_induct) (auto dest: step_lifecycle)
  with s1 show ?thesis by (simp add: management_started)
qed

text \<open>
  A restart request never breaks the service: it is accepted exactly when the configuration loads,
  keeps the log directory, and no transition was accepted before and the channel is open and empty; the
  configuration it hands over then satisfies every constraint. A refused request leaves the service as
  it was.
\<close>

theorem restart_exact:
  assumes "restart_service E s = (s', resp)"
  shows "(rs_status resp = ACCEPTED \<longleftrightarrow>
      (\<exists>ds c. load E (as_config_path s) = (ds, Inr c) \<and> directory (rc_logging c) = as_log_directory s) \<and>
      as_lifecycle s = 0 \<and> as_listening s \<and> as_queue s = []) \<and>
    (rs_status resp = ACCEPTED \<longrightarrow>
      (\<exists>ds c. load E (as_config_path s) = (ds, Inr c) \<and> resolved_config_ok c \<and>
         s' = s\<lparr>as_lifecycle := 1, as_queue := [RestartAction c]\<rparr>)) \<and>
    (rs_status resp \<noteq> ACCEPTED \<longrightarrow> s' = s \<and> rs_status resp \<in> {CONFLICT, SERVICE_UNAVAILABLE})"
proof -
  obtain ds res where l: "load E (as_config_path s) = (ds, res)" by fastforce
  show ?thesis
  proof (cases res)
    case (Inl e)
    with assms l show ?thesis by (auto simp: restart_service_def)
  next
    case (Inr c)
    with l have ok: "resolved_config_ok c" by (auto elim: load_ok_cases intro: resolve_ok)
    with assms l Inr show ?thesis
      by (auto simp: restart_service_def request_management_action_def split: if_splits)
  qed
qed

section \<open>Witnesses\<close>

definition demo_app_lib :: app_lib where
  "demo_app_lib = \<lparr>al_contains = (\<lambda>_ _. True), al_to_str = Some, al_is_match = (\<lambda>_ _. False),
     al_order = (\<lambda>m. sorted_list_of_set (dom m)), al_router_ok = (\<lambda>_. True),
     al_instant_max = 10000 * nanos_per_sec, al_crypto = demo_crypto, al_store = demo_store_lib\<rparr>"

lemma demo_order: "order_enumerates demo_app_lib"
  by (simp add: order_enumerates_def demo_app_lib_def)

definition demo_cooldown :: token_failure_cooldown_config where
  "demo_cooldown = \<lparr>cooldown_enabled = True, cooldown_seconds = 10, max_tracked_ips = 1\<rparr>"

definition demo_draw :: draw where
  "demo_draw = \<lparr>dr_id = 1, dr_stamp = ''t'', dr_wall = 0, dr_config = demo_env\<rparr>"

definition demo_app :: app_state where
  "demo_app = \<lparr>as_token = from_token demo_crypto demo_token, as_allowed_cidrs = [IpNet (V4 0) 0],
     as_cooldown = demo_cooldown, as_failures = Map.empty, as_global = 4,
     as_routes = [''/run'' \<mapsto> runtime_of demo_resolved_route], as_queue = [], as_listening = True, as_lifecycle = 0,
     as_config_path = ''/etc/api/config.yaml'', as_log_directory = ''/etc/api/logs'',
     as_store = demo_store demo_record, as_running = []\<rparr>"

lemma demo_app_simps [simp]:
  "as_lifecycle demo_app = 0" "as_listening demo_app" "as_queue demo_app = []"
  "as_config_path demo_app = ''/etc/api/config.yaml''" "as_log_directory demo_app = ''/etc/api/logs''"
  "as_store demo_app = demo_store demo_record" "as_routes demo_app ''/run'' = Some (runtime_of demo_resolved_route)"
  "as_global demo_app = 4" "as_running demo_app = []" "as_cooldown demo_app = demo_cooldown"
  by (simp_all add: demo_app_def)

theorem cooldown_blocks_witness:
  "\<exists>w. authenticate demo_app_lib True 5 5 \<lparr>rq_peer = Some (V4 1), rq_authorization = None\<rparr>
      (demo_app\<lparr>as_failures := [V4 1 \<mapsto> unat (cooldown_seconds demo_cooldown) * nanos_per_sec]\<rparr>) =
    Refused (demo_app\<lparr>as_failures := [V4 1 \<mapsto> unat (cooldown_seconds demo_cooldown) * nanos_per_sec]\<rparr>)
      ((error_response TOO_MANY_REQUESTS ''token_failure_cooldown'' M_token_failure_cooldown)
        \<lparr>rs_headers := [RetryAfter w]\<rparr>) \<and> w \<le> cooldown_seconds demo_cooldown"
proof -
  let ?n = "unat (cooldown_seconds demo_cooldown) * nanos_per_sec"
  let ?s = "demo_app\<lparr>as_failures := [V4 1 \<mapsto> ?n]\<rparr>" and ?rq = "\<lparr>rq_peer = Some (V4 1), rq_authorization = None\<rparr>"
  have r: "record_auth_failure demo_app_lib (as_cooldown ?s) 0 (V4 1) Map.empty = (False, [V4 1 \<mapsto> ?n])"
    by (simp add: record_auth_failure_def demo_cooldown_def demo_app_lib_def retain_unexpired_def
        instant_add_secs_def nanos_per_sec_def)
  have "cooldown_enabled (as_cooldown ?s)" "table_ok (as_cooldown ?s) Map.empty" "from_allowed demo_app_lib ?s ?rq (V4 1)"
    "5 < 0 + unat (cooldown_seconds (as_cooldown ?s)) * nanos_per_sec"
    by (simp_all add: demo_cooldown_def table_ok_def from_allowed_def demo_app_lib_def demo_app_def nanos_per_sec_def)
  from cooldown_blocks [where es = "[]", OF this(1) demo_order this(2) r _ _ _ this(3) _ this(4), of True 5]
  obtain w where w: "authenticate demo_app_lib True 5 5 ?rq ?s = Refused ?s
      ((error_response TOO_MANY_REQUESTS ''token_failure_cooldown'' M_token_failure_cooldown)\<lparr>rs_headers := [RetryAfter w]\<rparr>)"
    "w \<le> cooldown_seconds (as_cooldown ?s)" by auto
  from w(2) have "w \<le> cooldown_seconds demo_cooldown" by simp
  with w(1) show ?thesis by blast
qed

theorem failures_bounded_witness:
  "card (dom (fold (cooldown_event demo_app_lib demo_cooldown)
     [Failed_at 0 (V4 1), Failed_at 1 (V4 2)] Map.empty)) \<le> 1"
  using failures_bounded [OF demo_order, of "demo_cooldown"
      "[Failed_at 0 (V4 1), Failed_at 1 (V4 2)]"] by (simp add: demo_cooldown_def)

theorem gate_exact_witness:
  "\<exists>s' f' resp. serve demo_app_lib True 0 0 demo_draw \<lparr>rq_peer = None, rq_authorization = None\<rparr> StopService
       demo_app (demo_fs [] (\<lambda>_. None)) = (s', f', resp) \<and> as_lifecycle s' = 0"
proof -
  let ?rq = "\<lparr>rq_peer = None, rq_authorization = None\<rparr>"
  obtain s' f' resp where r: "serve demo_app_lib True 0 0 demo_draw ?rq StopService demo_app (demo_fs [] (\<lambda>_. None)) = (s', f', resp)"
    by (rule prod_cases3)
  have "\<nexists>ip. from_allowed demo_app_lib demo_app ?rq ip" by (simp add: from_allowed_def)
  with gate_exact [OF r] have "s' = demo_app" by blast
  with r show ?thesis by auto
qed

theorem concurrency_bounded_witness:
  "\<exists>s. build demo_app_lib demo_resolved (demo_store demo_record) = Some s \<and>
     as_global s + length (as_running s) = unat (max_total_concurrency execution_default)"
proof -
  obtain s where b: "build demo_app_lib demo_resolved (demo_store demo_record) = Some s"
    by (simp add: build_def demo_config_defs demo_app_lib_def max_permits_def)
  have "distinct (map r_path (rc_routes demo_resolved))" by (simp add: demo_resolved_def)
  from concurrency_bounded [OF ar_build [OF b] this] b show ?thesis by (auto simp: demo_resolved_def)
qed

theorem stop_task_exact_witness:
  "rs_status (snd (cancel_task 1 demo_app)) = ACCEPTED"
  using stop_task_exact [of cancel_task CancelledReason 1 demo_app "fst (cancel_task 1 demo_app)" "snd (cancel_task 1 demo_app)"]
  by (simp add: get_def demo_store_def snapshot_def demo_record_def record_new_def demo_snapshot_def initial_snapshot_def)

theorem one_transition_witness:
  "\<exists>s1. request_management_action StopAction demo_app = (s1, None) \<and>
     request_management_action StopAction s1 =
       (s1, Some (error_response CONFLICT ''service_transition_in_progress'' M_transition_in_progress))"
proof -
  obtain s1 where s1: "request_management_action StopAction demo_app = (s1, None)"
    by (simp add: request_management_action_def)
  from one_transition [OF s1 rtranclp.rtrancl_refl] s1 show ?thesis by blast
qed

theorem restart_exact_witness:
  "rs_status (snd (restart_service demo_env demo_app)) = ACCEPTED"
proof -
  have "directory (rc_logging demo_resolved) = ''/etc/api/logs''" by (simp add: demo_resolved_def)
  with restart_exact [of demo_env demo_app "fst (restart_service demo_env demo_app)" "snd (restart_service demo_env demo_app)"] demo_load
  show ?thesis by simp
qed

lemma demo_args_admitted: "validate_request_args (\<lambda>_ _. False) demo_resolved_route [''status''] = Inr ()"
  by (simp add: validate_request_args_ok) (simp add: demo_config_defs arg_admitted_def total_bytes_def)

lemma demo_created:
  assumes "root st = ''/''"
  shows "is_ok (snd (snd (create demo_store_lib 1 ''t'' (r_path demo_resolved_route) (task_mode demo_resolved_route)
      (r_output_encoding demo_resolved_route) st (demo_fs [] (\<lambda>_. None)))))"
proof -
  have d: "task_directory demo_store_lib st 1 = ''/tasks/u''"
    by (simp add: task_directory_def assms demo_store_lib_def path_join_def is_absolute_def text_simps)
  have "snapshot_to_json demo_store_lib = demo_to_json" by (simp add: demo_store_lib_def)
  then show ?thesis
    by (simp add: create_def Let_def d fs_create_dir_def fs_next_fault_def fs_write_def persist_def task_mode_def
        fs_append_def demo_fs_def demo_to_json_def demo_resolved_route_def)
qed

lemma demo_store_root [simp]: "root (demo_store r) = ''/''"
  by (simp add: demo_store_def)

text \<open>A request with the configured token that submits a task.\<close>

definition demo_submission :: http_request where
  "demo_submission = \<lparr>rq_peer = Some (V4 0x7F000001), rq_authorization = Some (''Bearer '' @ demo_token)\<rparr>"

lemma demo_submit:
  assumes b: "build demo_app_lib demo_resolved st = Some s0" and root: "root st = ''/''"
  obtains s f r where "serve demo_app_lib True 0 0 demo_draw demo_submission
      (Execute ''/run'' \<lparr>args = [''status'']\<rparr>) s0 (demo_fs [] (\<lambda>_. None)) = (s, f, r)"
    and "as_running s = [\<lparr>st_id = 1, st_path = ''/run'', st_args = [''status'']\<rparr>]"
    and "as_routes s ''/run'' = Some ((runtime_of demo_resolved_route)\<lparr>rt_limit := 0\<rparr>)"
proof -
  let ?f = "demo_fs [] (\<lambda>_. None)" and ?e = "Execute ''/run'' \<lparr>args = [''status'']\<rparr>"
  obtain s f r where sv: "serve demo_app_lib True 0 0 demo_draw demo_submission ?e s0 ?f = (s, f, r)" by (rule prod_cases3)
  have "as_token s0 = from_token demo_crypto demo_token" "as_allowed_cidrs s0 \<noteq> []" "as_failures s0 = Map.empty"
    using b by (auto simp: build_def demo_config_defs split: if_splits)
  then have "authorised demo_app_lib True 0 demo_submission s0"
    unfolding authorised_def token_accepted_def
    by (intro conjI exI [of _ "V4 0x7F000001"] exI [of _ demo_token])
      (auto simp: demo_submission_def from_allowed_def demo_app_lib_def locked_out_def bearer_token_def text_simps neq_Nil_conv
        verify_def verify_start_def from_token_def demo_crypto_def demo_token_def)
  with gate_frame [OF sv] obtain s1 r1 where s1: "same_service s0 s1" "dispatch demo_app_lib demo_draw ?e s1 ?f = (s, f, r1)" by blast
  have path: "r_path demo_resolved_route = ''/run''" by (simp add: demo_resolved_route_def)
  have f0: "as_routes s0 ''/run'' = Some (runtime_of demo_resolved_route)" "as_running s0 = []" "as_store s0 = st"
    using b path by (auto simp: build_def demo_resolved_def split: if_splits)
  have g0: "as_global s0 \<noteq> 0"
    using b by (auto simp: build_def demo_resolved_def execution_default_def default_max_total_concurrency_def split: if_splits)
  note same = same_service_fields [OF s1(1)]
  have lib: "al_store demo_app_lib = demo_store_lib" "al_is_match demo_app_lib = (\<lambda>_ _. False)" by (simp_all add: demo_app_lib_def)
  have rt: "rt_config (runtime_of demo_resolved_route) = demo_resolved_route" "rt_limit (runtime_of demo_resolved_route) = 1"
    by (simp_all add: runtime_of_def demo_resolved_route_def)
  have d: "dr_id demo_draw = 1" "dr_stamp demo_draw = ''t''" by (simp_all add: demo_draw_def)
  from demo_created [OF root] obtain st' f' rec where c: "create demo_store_lib 1 ''t'' (r_path demo_resolved_route) (task_mode demo_resolved_route)
      (r_output_encoding demo_resolved_route) st ?f = (st', f', Inr rec)"
    by (auto simp: is_ok_iff) (metis prod.collapse)
  then have "rec_id rec = 1" by (auto elim!: create_ok simp: initial_snapshot_def)
  with s1(2) have "as_running s = [\<lparr>st_id = 1, st_path = ''/run'', st_args = [''status'']\<rparr>]"
      "as_routes s ''/run'' = Some ((runtime_of demo_resolved_route)\<lparr>rt_limit := 0\<rparr>)"
    by (auto simp: execute_def same f0 g0 lib rt d c demo_args_admitted)
  with sv that show ?thesis by blast
qed

theorem execute_exact_witness:
  "\<exists>s'. as_running s' = [\<lparr>st_id = 1, st_path = ''/run'', st_args = [''status'']\<rparr>] \<and>
     fst (execute demo_app_lib 1 ''t'' ''/run'' \<lparr>args = [''status'']\<rparr> demo_app (demo_fs [] (\<lambda>_. None))) = s'"
proof -
  let ?rt = "runtime_of demo_resolved_route" and ?f = "demo_fs [] (\<lambda>_. None)"
  obtain s' f' resp where e: "execute demo_app_lib 1 ''t'' ''/run'' \<lparr>args = [''status'']\<rparr> demo_app ?f = (s', f', resp)"
    by (rule prod_cases3)
  have lib: "al_store demo_app_lib = demo_store_lib" "al_is_match demo_app_lib = (\<lambda>_ _. False)" by (simp_all add: demo_app_lib_def)
  have rt: "rt_config ?rt = demo_resolved_route" "rt_limit ?rt = 1" by (simp_all add: runtime_of_def demo_resolved_route_def)
  from demo_created [OF demo_store_root] execute_exact [OF demo_app_simps(7) e] demo_args_admitted show ?thesis by (simp add: lib rt e)
qed

end
