(* ===== verification/System.thy ===== *)
theory System
  imports App Lifecycle
begin

text \<open>
  The application and its executors together: requests create tasks, each with an executor
  (\<open>process::start_task\<close>), and the executors write their records, give their permits back
  and end, beside each other and beside further requests, the expiry of old tasks and a shutdown. An
  executor is known by the id of its task; what it may do is its contract, which
  \<open>start_task\<close> is shown to keep.
\<close>

section \<open>The system\<close>

record system =
  sy_app :: app_state
  sy_live :: "uuid list"
  sy_lost :: "uuid list"

definition status_in :: "task_store \<Rightarrow> uuid \<Rightarrow> task_status option" where
  "status_in st tid = map_option (\<lambda>r. status (rec_snapshot r)) (tasks st tid)"

text \<open>The tasks that hold permits.\<close>

definition holders :: "app_state \<Rightarrow> uuid set" where
  "holders s = st_id ` set (as_running s)"

definition set_tasks :: "(uuid \<rightharpoonup> task_record) \<Rightarrow> app_state \<Rightarrow> app_state" where
  "set_tasks m s = s\<lparr>as_store := (as_store s)\<lparr>tasks := m\<rparr>\<rparr>"

text \<open>
  The contract of an executor: it writes only the record of its own task, whose status follows the
  life cycle; a finished status only after its permits are back; it ends after its task is finished, or
  is lost by a panic, in either case without permits.
\<close>

inductive system_step :: "app_lib \<Rightarrow> system \<Rightarrow> system \<Rightarrow> bool" for A where
  sy_request: "serve A joined now now' d rq e (sy_app S) f = (s', f', resp) \<Longrightarrow>
    system_step A S (S\<lparr>sy_app := s',
      sy_live := sy_live S @ map st_id (drop (length (as_running (sy_app S))) (as_running s'))\<rparr>)"
| sy_write: "tid \<in> set (sy_live S) \<Longrightarrow> tasks (as_store (sy_app S)) tid = Some r \<Longrightarrow>
    may_follow (status (rec_snapshot r)) (status (rec_snapshot r')) \<or> status (rec_snapshot r') = status (rec_snapshot r) \<Longrightarrow>
    is_finished (status (rec_snapshot r')) \<longrightarrow> tid \<notin> holders (sy_app S) \<Longrightarrow>
    system_step A S (S\<lparr>sy_app := set_tasks ((tasks (as_store (sy_app S)))(tid \<mapsto> r')) (sy_app S)\<rparr>)"
| sy_release: "k < length (as_running (sy_app S)) \<Longrightarrow> system_step A S (S\<lparr>sy_app := drop_permits k (sy_app S)\<rparr>)"
| sy_end: "tid \<in> set (sy_live S) \<Longrightarrow> tid \<notin> holders (sy_app S) \<Longrightarrow>
    (\<forall>x. status_in (as_store (sy_app S)) tid = Some x \<longrightarrow> is_finished x) \<Longrightarrow>
    system_step A S (S\<lparr>sy_app := (sy_app S)\<lparr>as_store := mark_finished (as_store (sy_app S))\<rparr>,
      sy_live := remove1 tid (sy_live S)\<rparr>)"
| sy_panic: "tid \<in> set (sy_live S) \<Longrightarrow> tid \<notin> holders (sy_app S) \<Longrightarrow>
    system_step A S (S\<lparr>sy_live := remove1 tid (sy_live S), sy_lost := tid # sy_lost S\<rparr>)"
| sy_cleanup: "cleanup_expired L now ids (as_store (sy_app S)) f = (st, f') \<Longrightarrow>
    system_step A S (S\<lparr>sy_app := (sy_app S)\<lparr>as_store := st\<rparr>\<rparr>)"
| sy_cancel: "system_step A S (S\<lparr>sy_app := (sy_app S)\<lparr>as_store := cancel_all ids why (as_store (sy_app S))\<rparr>\<rparr>)"
| sy_receiver: "system_step A S (S\<lparr>sy_app := (sy_app S)\<lparr>as_queue := [], as_listening := False\<rparr>\<rparr>)"

text \<open>The service starts with the store it has opened.\<close>

inductive system_reachable :: "app_lib \<Rightarrow> resolved_config \<Rightarrow> system \<Rightarrow> bool" for A c where
  sr_start: "open_store L ts now locked entries ids rt keep max_out f = (f', Inr st) \<Longrightarrow>
    (\<And>s. finite (dom (tasks s)) \<Longrightarrow> enumerates (ids s) s) \<Longrightarrow> build A c st = Some s \<Longrightarrow>
    system_reachable A c \<lparr>sy_app = s, sy_live = [], sy_lost = []\<rparr>"
| sr_step: "system_reachable A c S \<Longrightarrow> system_step A S S' \<Longrightarrow> system_reachable A c S'"

section \<open>The application's own steps\<close>

text \<open>Forgetting the executors, every step is one the application admits.\<close>

lemma system_step_app: "system_step A S S' \<Longrightarrow> app_step A (sy_app S) (sy_app S') \<or> sy_app S' = sy_app S"
proof (induction rule: system_step.induct)
  case (sy_request joined now now' d rq e S f s' f' resp)
  from as_request [OF this] show ?case by simp
next
  case (sy_release k S)
  from as_task_end [OF this] show ?case by simp
next
  case (sy_receiver S)
  show ?case by (simp add: as_receiver_gone)
qed (simp_all add: set_tasks_def as_executor)

lemma system_app_reachable: "system_reachable A c S \<Longrightarrow> app_reachable A c (sy_app S)"
proof (induction rule: system_reachable.induct)
  case (sr_start L ts now locked entries ids rt keep max_out f f' st s)
  from ar_build [OF this(3)] show ?case by simp
next
  case (sr_step S S')
  then show ?case using system_step_app [OF sr_step.hyps(2)] by (auto intro: ar_step)
qed

section \<open>What a request does to the tasks\<close>

text \<open>No task changes its status; a new one is Starting and has a new executor with permits.\<close>

definition admits_tasks :: "app_state \<Rightarrow> app_state \<Rightarrow> bool" where
  "admits_tasks s s' \<longleftrightarrow> (\<exists>new. as_running s' = as_running s @ new \<and>
     active_count (as_store s') = active_count (as_store s) + of_nat (length new) \<and>
     (\<forall>tid. status_in (as_store s') tid =
        (if tid \<in> st_id ` set new then Some Starting else status_in (as_store s) tid)))"

lemma admits_nothing:
  "as_running s' = as_running s \<Longrightarrow> active_count (as_store s') = active_count (as_store s) \<Longrightarrow>
     (\<And>tid. status_in (as_store s') tid = status_in (as_store s) tid) \<Longrightarrow> admits_tasks s s'"
  unfolding admits_tasks_def by (intro exI [of _ "[]"]) simp

lemma execute_admits:
  assumes "execute A tid ts p req s f = (s', f', resp)"
  shows "admits_tasks s s'"
proof (cases "s' = s")
  case False
  with assms obtain rt st1 r where "as_routes s p = Some rt" and
    c: "create (al_store A) tid ts (r_path (rt_config rt)) (task_mode (rt_config rt)) (r_output_encoding (rt_config rt)) (as_store s) f = (st1, f', Inr r)"
    and s': "as_store s' = st1" "as_running s' = as_running s @ [\<lparr>st_id = rec_id r, st_path = p, st_args = args req\<rparr>]"
    by (auto simp: execute_def create_def Let_def split: option.splits sum.splits if_splits prod.splits bool.splits)
  from c have "rec_id r = tid" "status (rec_snapshot r) = Starting" "st1 = (as_store s)\<lparr>tasks := (tasks (as_store s))(tid \<mapsto> r),
      active_count := active_count (as_store s) + 1\<rparr>"
    by (auto elim!: create_ok simp: initial_snapshot_def)
  with s' show ?thesis unfolding admits_tasks_def by (intro exI [of _ "[\<lparr>st_id = rec_id r, st_path = p, st_args = args req\<rparr>]"])
      (simp add: status_in_def)
qed (simp add: admits_nothing)

lemma request_stop_status:
  "request_stop st i why = (st', ok) \<Longrightarrow> status_in st' tid = status_in st tid \<and> active_count st' = active_count st"
  by (auto simp: request_stop_def get_def status_in_def split: option.splits if_splits)

lemma management_tasks:
  "request_management_action a s = (s', r) \<Longrightarrow> as_running s' = as_running s \<and> as_store s' = as_store s"
  by (auto simp: request_management_action_def split: if_splits)

lemma dispatch_admits:
  assumes "dispatch A d e s f = (s', f', r)"
  shows "admits_tasks s s'"
proof (cases e)
  case (Execute p req)
  with assms show ?thesis by (auto intro: execute_admits)
next
  case StopService
  with assms show ?thesis
    by (auto simp: stop_service_def split: prod.splits option.splits dest!: management_tasks intro!: admits_nothing)
next
  case RestartService
  with assms show ?thesis
    by (auto simp: restart_service_def split: prod.splits option.splits sum.splits if_splits dest!: management_tasks intro!: admits_nothing)
qed (use assms in \<open>auto simp: cancel_task_def kill_task_def stop_task_def intro!: admits_nothing
      split: prod.splits option.splits bool.splits dest: request_stop_status\<close>)

lemma serve_admits:
  assumes "serve A joined now now' d rq e s f = (s', f', resp)"
  shows "admits_tasks s s'"
proof (cases "authorised A joined now rq s")
  case False
  with gate_frame [OF assms] have "same_service s s'" by simp
  then show ?thesis by (intro admits_nothing) (simp_all add: same_service_fields)
next
  case True
  with gate_frame [OF assms] obtain s1 r where s1: "same_service s s1" "dispatch A d e s1 f = (s', f', r)" by auto
  from dispatch_admits [OF s1(2)] show ?thesis by (simp only: admits_tasks_def same_service_fields [OF s1(1)])
qed

section \<open>The invariant of the system\<close>

text \<open>
  The counter of active tasks counts the executors; a task that is not finished has one; a task that
  holds permits has a live one and is not finished.
\<close>

definition system_inv :: "system \<Rightarrow> bool" where
  "system_inv S \<longleftrightarrow>
     active_count (as_store (sy_app S)) = of_nat (length (sy_live S) + length (sy_lost S)) \<and>
     (\<forall>tid x. status_in (as_store (sy_app S)) tid = Some x \<longrightarrow> \<not> is_finished x \<longrightarrow> tid \<in> set (sy_live S) \<union> set (sy_lost S)) \<and>
     (\<forall>tid \<in> holders (sy_app S). tid \<in> set (sy_live S) \<and>
        (\<forall>x. status_in (as_store (sy_app S)) tid = Some x \<longrightarrow> \<not> is_finished x))"

lemma system_invI:
  assumes "active_count (as_store (sy_app S)) = of_nat (length (sy_live S) + length (sy_lost S))"
    and "\<And>tid x. status_in (as_store (sy_app S)) tid = Some x \<Longrightarrow> \<not> is_finished x \<Longrightarrow> tid \<in> set (sy_live S) \<union> set (sy_lost S)"
    and "\<And>tid. tid \<in> holders (sy_app S) \<Longrightarrow> tid \<in> set (sy_live S)"
    and "\<And>tid x. tid \<in> holders (sy_app S) \<Longrightarrow> status_in (as_store (sy_app S)) tid = Some x \<Longrightarrow> \<not> is_finished x"
  shows "system_inv S"
  using assms by (auto simp: system_inv_def)

lemma system_invD:
  assumes "system_inv S"
  shows "active_count (as_store (sy_app S)) = of_nat (length (sy_live S) + length (sy_lost S))"
    and "status_in (as_store (sy_app S)) tid = Some x \<Longrightarrow> \<not> is_finished x \<Longrightarrow> tid \<in> set (sy_live S) \<union> set (sy_lost S)"
    and "tid \<in> holders (sy_app S) \<Longrightarrow> tid \<in> set (sy_live S)"
    and "tid \<in> holders (sy_app S) \<Longrightarrow> status_in (as_store (sy_app S)) tid = Some x \<Longrightarrow> \<not> is_finished x"
  using assms by (auto simp: system_inv_def)

text \<open>A step that starts and ends no executor and takes no permits may only remove tasks.\<close>

lemma system_inv_frame:
  assumes "system_inv S" and "sy_live S' = sy_live S" and "sy_lost S' = sy_lost S"
    and "active_count (as_store (sy_app S')) = active_count (as_store (sy_app S))"
    and "\<And>tid x. status_in (as_store (sy_app S')) tid = Some x \<Longrightarrow> status_in (as_store (sy_app S)) tid = Some x"
    and "holders (sy_app S') \<subseteq> holders (sy_app S)"
  shows "system_inv S'"
proof (rule system_invI)
  show "active_count (as_store (sy_app S')) = of_nat (length (sy_live S') + length (sy_lost S'))"
    using system_invD(1) [OF assms(1)] assms(2-4) by simp
  show "tid \<in> set (sy_live S') \<union> set (sy_lost S')" if "status_in (as_store (sy_app S')) tid = Some x" "\<not> is_finished x" for tid x
    using system_invD(2) [OF assms(1) assms(5) [OF that(1)] that(2)] assms(2,3) by simp
  show "tid \<in> set (sy_live S')" if "tid \<in> holders (sy_app S')" for tid
    using system_invD(3) [OF assms(1)] that assms(2,6) by auto
  show "\<not> is_finished x" if "tid \<in> holders (sy_app S')" "status_in (as_store (sy_app S')) tid = Some x" for tid x
    using system_invD(4) [OF assms(1) _ assms(5) [OF that(2)]] that(1) assms(6) by auto
qed

lemma drop_permits_holders: "holders (drop_permits k s) \<subseteq> holders s" "as_store (drop_permits k s) = as_store s"
  by (auto simp: holders_def drop_permits_def Let_def dest: in_set_takeD in_set_dropD)

lemma cancel_one_status: "status_in (cancel_one why i st) tid = status_in st tid"
  "active_count (cancel_one why i st) = active_count st"
  by (auto simp: cancel_one_def status_in_def split: option.splits)

lemma cancel_all_status: "status_in (cancel_all ids why st) tid = status_in st tid"
  "active_count (cancel_all ids why st) = active_count st"
  by (induction ids arbitrary: st) (simp_all add: cancel_all_def cancel_one_status)

lemma length_remove1_Suc: "x \<in> set xs \<Longrightarrow> length xs = Suc (length (remove1 x xs))"
  by (simp add: length_remove1) (cases xs; simp)

lemma request_inv:
  assumes "admits_tasks (sy_app S) s'" and "system_inv S"
  shows "system_inv (S\<lparr>sy_app := s', sy_live := sy_live S @ map st_id (drop (length (as_running (sy_app S))) (as_running s'))\<rparr>)"
proof -
  from assms(1) obtain new where new: "as_running s' = as_running (sy_app S) @ new"
    "active_count (as_store s') = active_count (as_store (sy_app S)) + of_nat (length new)"
    "\<And>tid. status_in (as_store s') tid = (if tid \<in> st_id ` set new then Some Starting else status_in (as_store (sy_app S)) tid)"
    unfolding admits_tasks_def by blast
  have h: "holders s' = holders (sy_app S) \<union> st_id ` set new" by (auto simp: holders_def new(1))
  show ?thesis
  proof (rule system_invI)
    fix tid x assume "tid \<in> holders (sy_app (S\<lparr>sy_app := s', sy_live := sy_live S @ map st_id (drop (length (as_running (sy_app S))) (as_running s'))\<rparr>))"
      and "status_in (as_store (sy_app (S\<lparr>sy_app := s', sy_live := sy_live S @ map st_id (drop (length (as_running (sy_app S))) (as_running s'))\<rparr>))) tid = Some x"
    then show "\<not> is_finished x" using system_invD(4) [OF assms(2), of tid x] by (auto simp: h new(3) split: if_splits)
  qed (use system_invD [OF assms(2)] in \<open>auto simp: h new split: if_splits\<close>)
qed

lemma end_inv:
  assumes "system_inv S" and "tid \<in> set (sy_live S)" and "tid \<notin> holders (sy_app S)"
    and "\<forall>x. status_in (as_store (sy_app S)) tid = Some x \<longrightarrow> is_finished x"
  shows "system_inv (S\<lparr>sy_app := (sy_app S)\<lparr>as_store := mark_finished (as_store (sy_app S))\<rparr>, sy_live := remove1 tid (sy_live S)\<rparr>)"
proof (rule system_invI, goal_cases)
  case 1
  then show ?case using system_invD(1) [OF assms(1)] length_remove1_Suc [OF assms(2)] by (simp add: mark_finished_def)
next
  case (2 i x)
  then have i: "status_in (as_store (sy_app S)) i = Some x" by (simp add: status_in_def mark_finished_def)
  with assms(4) 2(2) have "i \<noteq> tid" by auto
  with system_invD(2) [OF assms(1) i 2(2)] show ?case by auto
next
  case (3 i)
  then have "i \<in> holders (sy_app S)" by (simp add: holders_def)
  with system_invD(3) [OF assms(1) this] assms(3) show ?case by (cases "i = tid") simp_all
next
  case (4 i x)
  then show ?case using system_invD(4) [OF assms(1), of i x] by (simp add: holders_def status_in_def mark_finished_def)
qed

lemma panic_inv:
  assumes "system_inv S" and "tid \<in> set (sy_live S)" and "tid \<notin> holders (sy_app S)"
  shows "system_inv (S\<lparr>sy_live := remove1 tid (sy_live S), sy_lost := tid # sy_lost S\<rparr>)"
proof (rule system_invI, goal_cases)
  case 1
  then show ?case using system_invD(1) [OF assms(1)] length_remove1_Suc [OF assms(2)] by simp
next
  case (2 i x)
  then show ?case using system_invD(2) [OF assms(1), of i x] by (auto simp: in_set_remove1)
next
  case (3 i)
  then show ?case using system_invD(3) [OF assms(1), of i] assms(3) by (cases "i = tid") simp_all
next
  case (4 i x)
  then show ?case using system_invD(4) [OF assms(1), of i x] by simp
qed

lemma write_inv:
  assumes "system_inv S" and "tid \<in> set (sy_live S)" and "is_finished (status (rec_snapshot r')) \<longrightarrow> tid \<notin> holders (sy_app S)"
  shows "system_inv (S\<lparr>sy_app := set_tasks ((tasks (as_store (sy_app S)))(tid \<mapsto> r')) (sy_app S)\<rparr>)"
proof -
  have st: "status_in (as_store (set_tasks ((tasks (as_store (sy_app S)))(tid \<mapsto> r')) (sy_app S))) i =
      (if i = tid then Some (status (rec_snapshot r')) else status_in (as_store (sy_app S)) i)" for i
    by (simp add: status_in_def set_tasks_def)
  have h: "holders (set_tasks m (sy_app S)) = holders (sy_app S)" for m by (simp add: holders_def set_tasks_def)
  have c: "active_count (as_store (set_tasks m (sy_app S))) = active_count (as_store (sy_app S))" for m by (simp add: set_tasks_def)
  show ?thesis
    by (rule system_invI)
      (use assms system_invD [OF assms(1)] in \<open>auto simp: st h c split: if_splits\<close>)
qed

lemma system_step_inv: "system_step A S S' \<Longrightarrow> system_inv S \<Longrightarrow> system_inv S'"
proof (induction rule: system_step.induct)
  case (sy_request joined now now' d rq e S f s' f' resp)
  with serve_admits request_inv show ?case by blast
next
  case (sy_write tid S r r')
  with write_inv show ?case by blast
next
  case (sy_end tid S)
  with end_inv show ?case by blast
next
  case (sy_panic tid S)
  with panic_inv show ?case by blast
next
  case (sy_release k S)
  show ?case by (rule system_inv_frame [OF sy_release(2)]) (simp_all add: drop_permits_holders)
next
  case (sy_cleanup L now ids S f st f')
  have "status_in st tid = Some x \<Longrightarrow> status_in (as_store (sy_app S)) tid = Some x" "active_count st = active_count (as_store (sy_app S))" for tid x
    using sy_cleanup(1) fold_remove_tasks [of "expired_ids L now ids (as_store (sy_app S))" "(as_store (sy_app S), f)" tid]
      fold_remove_frame [of "expired_ids L now ids (as_store (sy_app S))" "(as_store (sy_app S), f)"]
    by (auto simp: cleanup_expired_def status_in_def split: if_splits)
  then show ?case by (auto intro!: system_inv_frame [OF sy_cleanup(2)] simp: holders_def)
next
  case (sy_cancel S ids why)
  then show ?case by (auto intro!: system_inv_frame [OF sy_cancel] simp: holders_def cancel_all_status)
next
  case (sy_receiver S)
  then show ?case by (auto intro!: system_inv_frame [OF sy_receiver] simp: holders_def)
qed

lemma system_reachable_inv: "system_reachable A c S \<Longrightarrow> system_inv S"
proof (induction rule: system_reachable.induct)
  case (sr_start L ts now locked entries ids rt keep max_out f f' st s)
  from open_store_result [OF sr_start(1,2)] sr_start(3) have "active_count (as_store s) = 0" "as_running s = []"
    "tasks (as_store s) i = Some r \<Longrightarrow> is_finished (status (rec_snapshot r))" for i r
    by (auto simp: build_def snapshot_def split: if_splits)
  then show ?case by (auto intro!: system_invI simp: status_in_def holders_def)
qed (auto intro: system_step_inv)

text \<open>
  C6. The parts agree with each other: in every state of the service, whatever requests, executors, expiry
  and shutdowns have done, the counter of active tasks is the number of executors that have not
  marked their task as finished; a task that holds permits is not seen as finished; when the counter
  is zero, which is what a shutdown waits for, every task is finished and every permit is free.
\<close>

theorem system_consistent:
  assumes "system_reachable A c S" and "length (sy_live S) + length (sy_lost S) < 2 ^ 64"
  shows "unat (active_count (as_store (sy_app S))) = length (sy_live S) + length (sy_lost S) \<and>
    (\<forall>t r. t \<in> set (as_running (sy_app S)) \<longrightarrow> tasks (as_store (sy_app S)) (st_id t) = Some r \<longrightarrow>
       \<not> is_finished (status (snapshot r))) \<and>
    (active_count (as_store (sy_app S)) = 0 \<longrightarrow>
       (\<forall>tid r. tasks (as_store (sy_app S)) tid = Some r \<longrightarrow> is_finished (status (snapshot r))) \<and>
       as_running (sy_app S) = [] \<and> as_global (sy_app S) = unat (max_total_concurrency (rc_execution c)))"
proof -
  note inv = system_invD [OF system_reachable_inv [OF assms(1)]]
  have count: "unat (active_count (as_store (sy_app S))) = length (sy_live S) + length (sy_lost S)"
    using inv(1) assms(2) by (simp add: unat_of_nat del: of_nat_add)
  have held: "\<not> is_finished (status (snapshot r))"
    if "t \<in> set (as_running (sy_app S))" "tasks (as_store (sy_app S)) (st_id t) = Some r" for t r
    using inv(4) [of "st_id t" "status (rec_snapshot r)"] that by (simp add: holders_def status_in_def snapshot_def)
  have idle: "(\<forall>tid r. tasks (as_store (sy_app S)) tid = Some r \<longrightarrow> is_finished (status (snapshot r))) \<and>
      as_running (sy_app S) = [] \<and> as_global (sy_app S) = unat (max_total_concurrency (rc_execution c))"
    if "active_count (as_store (sy_app S)) = 0"
  proof -
    from count that have none: "sy_live S = []" "sy_lost S = []" by simp_all
    then have "as_running (sy_app S) = []" using inv(3) by (force simp: holders_def)
    moreover have "is_finished (status (snapshot r))" if "tasks (as_store (sy_app S)) tid = Some r" for tid r
      using inv(2) [of tid "status (rec_snapshot r)"] none that by (auto simp: status_in_def snapshot_def)
    ultimately show ?thesis
      using reachable_permits [OF system_app_reachable [OF assms(1)]] by (auto simp: app_permits_inv_def)
  qed
  from count held idle show ?thesis by blast
qed

section \<open>The executor keeps its contract\<close>

interpretation same_id: coroutine_invariant P "\<lambda>ex. rec_id (ex_record ex) = i" L for P :: "'t platform" and i L
proof
  fix ex :: "'t exec" and b bs assume "rec_id (ex_record (ex\<lparr>ex_wakes := b # bs\<rparr>)) = i"
  then show "rec_id (ex_record ((fold absorb b ex)\<lparr>ex_wakes := bs\<rparr>)) = i" using fold_absorb_record [of b ex] by simp
qed (auto simp: ex_transition_eq split: prod.splits)

lemma run_task_id:
  fixes P :: "'t platform"
  shows "keeps (\<lambda>ex. rec_id (ex_record ex) = i) (run_task L Q E P rt rargs)"
proof -
  let ?I = "\<lambda>ex :: 't exec. rec_id (ex_record ex) = i"
  have "keeps ?I (start_readers ok n rs)" for ok n rs
    unfolding keeps_def using start_readers_frame by (metis prod.collapse)
  moreover have "keeps ?I (set_tree t)" "keeps ?I (spawn_worker E P)" "keeps ?I (do_exec close_control)" "keeps ?I (do_exec release_permits)" for t
    by (auto simp: keeps_def set_tree_def spawn_worker_def do_exec_def split: option.splits)
  moreover have "keeps ?I (\<lambda>ex. ex_transition L (u ex) ex)" for u
    by (auto simp: keeps_def ex_transition_eq split: prod.splits)
  moreover have "keeps ?I (\<lambda>ex. join_readers [0..<length (ex_readers ex)] ex)"
    by (auto simp: keeps_def intro: same_id.join_readers_keeps [unfolded keeps_def, rule_format])
  ultimately show ?thesis
    unfolding run_task_def launch_def start_capture_def conclude_def
    by (auto intro!: same_id.running_intros same_id.wait_for_end_keeps same_id.drain_tree_keeps split: option.split prod.split)
qed

lemma start_task_id:
  assumes "start_task L Q E P rt rargs ex st = (out, ex', st')"
  shows "rec_id (ex_record ex') = rec_id (ex_record ex)"
proof -
  let ?ex = "ex\<lparr>ex_seen := length (stop_sent (ex_record ex))\<rparr>"
  obtain o1 e1 where r: "run_task L Q E P rt rargs ?ex = (o1, e1)" by fastforce
  with run_task_id [of "rec_id (ex_record ex)" L Q E P rt rargs] have "rec_id (ex_record e1) = rec_id (ex_record ex)"
    unfolding keeps_def by (metis exec.select_convs(1) exec.surjective exec.update_convs(4) snd_conv)
  with assms r show ?thesis
    by (cases o1) (auto simp: start_task_def Let_def ex_transition_eq split: prod.splits)
qed

text \<open>The application after an executor has put \<open>r\<close> in place of its record and, if \<open>released\<close>, given
  its permits back.\<close>

definition executed :: "uuid \<Rightarrow> nat \<Rightarrow> app_state \<Rightarrow> task_record \<Rightarrow> bool \<Rightarrow> app_state" where
  "executed tid k s r released =
     set_tasks ((tasks (as_store s))(tid \<mapsto> r)) (if released then drop_permits k s else s)"

lemma executed_simps [simp]:
  "tasks (as_store (executed tid k s r b)) = (tasks (as_store s))(tid \<mapsto> r)"
  "as_running (executed tid k s r False) = as_running s"
  "holders (executed tid k s r True) = holders (drop_permits k s)"
  "set_tasks ((tasks (as_store s))(tid \<mapsto> r')) (executed tid k s r b) = executed tid k s r' b"
  "drop_permits k (executed tid k s r False) = executed tid k s r True"
  by (simp_all add: executed_def set_tasks_def holders_def drop_permits_def Let_def)

lemma executed_start: "tasks (as_store s) tid = Some r \<Longrightarrow> executed tid k s r False = s"
  by (simp add: executed_def set_tasks_def fun_upd_idem)

lemma write_step:
  assumes "tid \<in> set live" and "b \<or> \<not> is_finished (status (rec_snapshot r'))" and "tid \<notin> holders (drop_permits k s)"
    and "may_follow (status (rec_snapshot r)) (status (rec_snapshot r')) \<or> status (rec_snapshot r') = status (rec_snapshot r)"
  shows "system_step A \<lparr>sy_app = executed tid k s r b, sy_live = live, sy_lost = lost\<rparr>
     \<lparr>sy_app = executed tid k s r' b, sy_live = live, sy_lost = lost\<rparr>"
proof -
  have "is_finished (status (rec_snapshot r')) \<longrightarrow> tid \<notin> holders (executed tid k s r b)"
    using assms(2,3) by (cases b) simp_all
  with sy_write [of tid "\<lparr>sy_app = executed tid k s r b, sy_live = live, sy_lost = lost\<rparr>" r r' A] assms(1,4)
  show ?thesis by simp
qed

lemma trace_simulated:
  assumes "tasks (as_store s) tid = Some r0" and "status (rec_snapshot r0) = Starting" and "tid \<in> set live"
    and "k < length (as_running s)" and "tid \<notin> holders (drop_permits k s)"
  shows "successively may_follow (Starting # published_statuses tr) \<Longrightarrow> released_first tr \<Longrightarrow>
    count_list tr PermitsReleased \<le> 1 \<Longrightarrow>
    \<exists>r. status (rec_snapshot r) = last (Starting # published_statuses tr) \<and>
      (system_step A)\<^sup>*\<^sup>* \<lparr>sy_app = s, sy_live = live, sy_lost = lost\<rparr>
        \<lparr>sy_app = executed tid k s r (PermitsReleased \<in> set tr), sy_live = live, sy_lost = lost\<rparr>"
proof (induction tr rule: rev_induct)
  case Nil
  then show ?case using assms(1,2) by (intro exI [of _ r0]) (simp add: executed_start)
next
  case (snoc a tr)
  have chain: "successively may_follow ((Starting # published_statuses tr) @ published_statuses [a])"
    using snoc.prems(1) by simp
  then have "successively may_follow (Starting # published_statuses tr)" by (simp only: successively_append_iff)
  with snoc obtain r where r: "status (rec_snapshot r) = last (Starting # published_statuses tr)"
    and steps: "(system_step A)\<^sup>*\<^sup>* \<lparr>sy_app = s, sy_live = live, sy_lost = lost\<rparr>
        \<lparr>sy_app = executed tid k s r (PermitsReleased \<in> set tr), sy_live = live, sy_lost = lost\<rparr>"
    by (auto simp: released_first_snoc)
  show ?case
  proof (cases a)
    case (Published x)
    let ?r = "r\<lparr>rec_snapshot := (rec_snapshot r)\<lparr>status := x\<rparr>\<rparr>"
    have "may_follow (status (rec_snapshot r)) x"
      using chain r by (simp only: successively_append_iff Published) simp
    moreover have "PermitsReleased \<in> set tr \<or> \<not> is_finished x" using snoc.prems(2) Published by (auto simp: released_first_snoc)
    ultimately have "system_step A \<lparr>sy_app = executed tid k s r (PermitsReleased \<in> set tr), sy_live = live, sy_lost = lost\<rparr>
        \<lparr>sy_app = executed tid k s ?r (PermitsReleased \<in> set tr), sy_live = live, sy_lost = lost\<rparr>"
      using assms(3,5) by (intro write_step) simp_all
    with steps show ?thesis by (intro exI [of _ ?r]) (simp add: Published)
  next
    case PermitsReleased
    with snoc.prems(3) have "PermitsReleased \<notin> set tr" by (simp add: count_list_0_iff)
    with steps sy_release [of k "\<lparr>sy_app = executed tid k s r False, sy_live = live, sy_lost = lost\<rparr>" A] assms(4)
    show ?thesis by (intro exI [of _ r]) (simp add: PermitsReleased r)
  qed (use r steps in \<open>auto intro!: exI [of _ r]\<close>)
qed

lemma permit_given_back:
  assumes "k < length (as_running s)" and "distinct (map st_id (as_running s))"
  shows "st_id (as_running s ! k) \<notin> holders (drop_permits k s)"
proof -
  have "as_running s = take k (as_running s) @ as_running s ! k # drop (Suc k) (as_running s)"
    by (rule id_take_nth_drop [OF assms(1)])
  with assms(2) have "distinct (map st_id (take k (as_running s) @ as_running s ! k # drop (Suc k) (as_running s)))" by simp
  then show ?thesis by (auto simp: holders_def drop_permits_def Let_def)
qed

lemma finished_released:
  "released_first tr \<Longrightarrow> is_finished (last (Starting # published_statuses tr)) \<Longrightarrow> PermitsReleased \<in> set tr"
proof (induction tr rule: rev_induct)
  case (snoc a tr)
  then show ?case by (cases a) (auto simp: released_first_snoc split: if_splits)
qed simp

lemma start_task_store:
  assumes "start_task L Q E P rt rargs ex st = (out, ex', st')"
  shows "(case out of Err _ \<Rightarrow> False
     | Ret _ \<Rightarrow> st' = mark_finished (st\<lparr>tasks := (tasks st)(rec_id (ex_record ex') \<mapsto> ex_record ex')\<rparr>)
     | _ \<Rightarrow> st' = st\<lparr>tasks := (tasks st)(rec_id (ex_record ex') \<mapsto> ex_record ex')\<rparr>)"
  using assms by (auto simp: start_task_def Let_def split: prod.splits outcome.splits)

text \<open>
  C7. The executor keeps its contract: whatever its schedule and whatever fails, a run of
  \<open>start_task\<close> is a sequence of the steps the system allows an executor, which leads to the store
  that the run leaves; when it returns its task is taken off the executors, when it panics it is lost.
\<close>

theorem executor_keeps_contract:
  fixes P :: "'t platform"
  assumes "start_task L Q E P rt rargs ex (as_store s) = (out, ex', st')"
    and "ex_permits ex" and "ex_trace ex = []" and "status (rec_snapshot (ex_record ex)) = Starting"
    and "tasks (as_store s) tid = Some (ex_record ex)" and "rec_id (ex_record ex) = tid" and "tid \<in> set live"
    and "k < length (as_running s)" and "st_id (as_running s ! k) = tid" and "distinct (map st_id (as_running s))"
  shows "(system_step A)\<^sup>*\<^sup>* \<lparr>sy_app = s, sy_live = live, sy_lost = lost\<rparr>
    \<lparr>sy_app = (if ex_permits ex' then s else drop_permits k s)\<lparr>as_store := st'\<rparr>,
     sy_live = (if out = Pending then live else remove1 tid live),
     sy_lost = (if out = Panic then tid # lost else lost)\<rparr>"
proof -
  let ?b = "PermitsReleased \<in> set (ex_trace ex')"
  note permits = start_task_permits [OF assms(2,3,1)]
  note statuses = start_task_statuses [OF assms(1,4,3)]
  have free: "tid \<notin> holders (drop_permits k s)" using permit_given_back [OF assms(8,10)] assms(9) by simp
  have b: "?b \<longleftrightarrow> \<not> ex_permits ex'" 
  proof (cases "ex_permits ex'")
    case True
    with permits show ?thesis by (simp add: count_list_0_iff)
  next
    case False
    with permits have "count_list (ex_trace ex') PermitsReleased \<noteq> 0" by simp
    with False show ?thesis by (simp add: count_list_0_iff)
  qed
  have id: "rec_id (ex_record ex') = tid" using start_task_id [OF assms(1)] assms(6) by simp
  have once: "count_list (ex_trace ex') PermitsReleased \<le> 1" using permits by simp
  from trace_simulated [OF assms(5,4,7,8) free conjunct1 [OF statuses] conjunct1 [OF permits] once, of A lost]
  obtain r where r: "status (rec_snapshot r) = status (rec_snapshot (ex_record ex'))"
    and steps: "(system_step A)\<^sup>*\<^sup>* \<lparr>sy_app = s, sy_live = live, sy_lost = lost\<rparr>
      \<lparr>sy_app = executed tid k s r ?b, sy_live = live, sy_lost = lost\<rparr>" using statuses by metis
  have fin: "?b \<or> \<not> is_finished (status (rec_snapshot (ex_record ex')))"
    using finished_released permits statuses by metis
  have w: "system_step A \<lparr>sy_app = executed tid k s r ?b, sy_live = live, sy_lost = lost\<rparr>
      \<lparr>sy_app = executed tid k s (ex_record ex') ?b, sy_live = live, sy_lost = lost\<rparr>"
    using r fin free assms(7) by (intro write_step) simp_all
  let ?S = "\<lparr>sy_app = executed tid k s (ex_record ex') ?b, sy_live = live, sy_lost = lost\<rparr>"
  have there: "(system_step A)\<^sup>*\<^sup>* \<lparr>sy_app = s, sy_live = live, sy_lost = lost\<rparr> ?S" using steps w by (rule rtranclp.rtrancl_into_rtrancl)
  have app: "executed tid k s (ex_record ex') ?b =
      (if ex_permits ex' then s else drop_permits k s)\<lparr>as_store := (as_store s)\<lparr>tasks := (tasks (as_store s))(tid \<mapsto> ex_record ex')\<rparr>\<rparr>"
    using b by (simp add: executed_def set_tasks_def drop_permits_def Let_def)
  have gone: "tid \<notin> holders (executed tid k s (ex_record ex') ?b)" if "out \<noteq> Pending"
    using permits that b free by simp
  note store = start_task_store [OF assms(1), unfolded id]
  show ?thesis
  proof (cases out)
    case (Ret u)
    then have "is_finished (status (rec_snapshot (ex_record ex')))" using start_task_finished [of L Q E P rt rargs ex] assms(1) by simp
    then have "system_step A ?S (?S\<lparr>sy_app := (sy_app ?S)\<lparr>as_store := mark_finished (as_store (sy_app ?S))\<rparr>,
        sy_live := remove1 tid (sy_live ?S)\<rparr>)"
      using gone Ret assms(7) by (intro sy_end) (simp_all add: status_in_def)
    with there store Ret show ?thesis by (simp add: app rtranclp.rtrancl_into_rtrancl)
  next
    case Panic
    then have "system_step A ?S (?S\<lparr>sy_live := remove1 tid (sy_live ?S), sy_lost := tid # sy_lost ?S\<rparr>)"
      using gone assms(7) by (intro sy_panic) simp_all
    with there store Panic show ?thesis by (simp add: app rtranclp.rtrancl_into_rtrancl)
  qed (use there store in \<open>simp_all add: app\<close>)
qed

section \<open>Witnesses\<close>

lemma demo_open_root: "snd demo_open = Inr st \<Longrightarrow> root st = ''/''"
  by (auto simp: demo_open_def open_store_def recover_def recover_dir_def read_latest_snapshot_def
      refresh_output_sizes_def persist_def fs_append_def fs_next_fault_def fs_open_def fs_query_def
      fs_create_dir_all_def interrupt_unfinished_def cleanup_expired_def expired_ids_def expired_def
      demo_store_defs raw_lines_def utf8_valid_def strip_cr_def text_simps stream_path_def
      path_join_def is_absolute_def snapshot_def events_path_def fs_content_def)

text \<open>A service that has recovered one task and accepted another one.\<close>

theorem system_consistent_witness:
  "\<exists>S. system_reachable demo_app_lib demo_resolved S \<and> sy_live S = [1] \<and> sy_lost S = [] \<and>
     active_count (as_store (sy_app S)) = 1"
proof -
  from demo_open_result obtain st where st: "snd demo_open = Inr st" by blast
  then have o: "demo_open = (fst demo_open, Inr st)" by (metis prod.collapse)
  obtain s0 where b: "build demo_app_lib demo_resolved st = Some s0"
    by (simp add: build_def demo_config_defs demo_app_lib_def max_permits_def)
  let ?S = "\<lparr>sy_app = s0, sy_live = [], sy_lost = []\<rparr>"
  have start: "system_reachable demo_app_lib demo_resolved ?S"
    using o [unfolded demo_open_def] sorted_ids_enumerate b by (rule sr_start)
  obtain s f r where
    sv: "serve demo_app_lib True 0 0 demo_draw demo_submission (Execute ''/run'' \<lparr>args = [''status'']\<rparr>) s0 (demo_fs [] (\<lambda>_. None)) = (s, f, r)"
    and s: "as_running s = [\<lparr>st_id = 1, st_path = ''/run'', st_args = [''status'']\<rparr>]"
    by (rule demo_submit [OF b demo_open_root [OF st]])
  from sv have sv: "serve demo_app_lib True 0 0 demo_draw demo_submission (Execute ''/run'' \<lparr>args = [''status'']\<rparr>) (sy_app ?S) (demo_fs [] (\<lambda>_. None)) = (s, f, r)" by simp
  have "as_running s0 = []" using b by (auto simp: build_def split: if_splits)
  with sr_step [OF start sy_request [OF sv]] s
  have S: "system_reachable demo_app_lib demo_resolved (?S\<lparr>sy_app := s, sy_live := [1]\<rparr>)" by simp
  from system_consistent [OF S] have "unat (active_count (as_store s)) = 1" by simp
  then have "active_count (as_store s) = 1" by (metis unat_1 word_unat_eq_iff)
  with S show ?thesis by (intro exI [of _ "?S\<lparr>sy_app := s, sy_live := [1]\<rparr>"]) simp
qed

theorem executor_keeps_contract_witness:
  "\<exists>s'. (system_step demo_app_lib)\<^sup>*\<^sup>*
     \<lparr>sy_app = demo_app\<lparr>as_running := [\<lparr>st_id = 1, st_path = ''/run'', st_args = []\<rparr>]\<rparr>, sy_live = [1], sy_lost = []\<rparr>
     \<lparr>sy_app = s', sy_live = [], sy_lost = []\<rparr>"
proof -
  let ?s = "demo_app\<lparr>as_running := [\<lparr>st_id = 1, st_path = ''/run'', st_args = []\<rparr>]\<rparr>"
  obtain e where "run_task demo_store_lib demo_proc_lib demo_start (unix_platform 7) demo_resolved_route []
     (demo_exec demo_wakes) = (Ret (), e)" by (rule demo_run)
  then obtain ex' st' where s: "start_task demo_store_lib demo_proc_lib demo_start (unix_platform 7)
     demo_resolved_route [] (demo_exec demo_wakes) (as_store ?s) = (Ret (), ex', st')" by (simp add: start_task_def Let_def)
  have r: "tasks (as_store ?s) 1 = Some (ex_record (demo_exec demo_wakes :: unix_tree exec))"
    "rec_id (ex_record (demo_exec demo_wakes :: unix_tree exec)) = 1"
    "status (rec_snapshot (ex_record (demo_exec demo_wakes :: unix_tree exec))) = Starting"
    by (simp_all add: demo_exec_def demo_store_defs)
  from executor_keeps_contract [OF s _ _ r(3,1,2), of "[1]" 0 demo_app_lib "[]"] show ?thesis by auto
qed

end
