(* ===== verification/Signals.thy ===== *)
theory Signals
  imports App
begin

text \<open>
  How the service is told to stop (\<open>src/src/runtime.rs\<close>): the console signals of
  \<open>console_shutdown_signal\<close>, the task that forwards the shutdown future to a watch channel, and
  the task of each round that waits for the channel or a management message. A future is given by
  its polls: what each of them sees is an argument.
\<close>

section \<open>Console signals\<close>

text \<open>Whether tokio can install the handlers; what a poll of \<open>select!\<close> sees, and which branch
  it polls first.\<close>

record signal_lib =
  sg_ctrl_c :: bool
  sg_terminate :: bool

record console_poll =
  cp_ctrl_c_first :: bool
  cp_ctrl_c :: bool
  cp_terminate :: bool

datatype signal_poll = SignalReady | SignalPending | SignalPanics

datatype signal_end = SignalReceived | SignalPanicked

text \<open>\<open>expect\<close> panics when the handler cannot be installed, which happens in the first poll of the
  branch.\<close>

definition poll_ctrl_c :: "signal_lib \<Rightarrow> console_poll \<Rightarrow> signal_poll" where
  "poll_ctrl_c G p =
     (if \<not> sg_ctrl_c G then SignalPanics else if cp_ctrl_c p then SignalReady else SignalPending)"

definition poll_terminate :: "os \<Rightarrow> signal_lib \<Rightarrow> console_poll \<Rightarrow> signal_poll" where
  "poll_terminate platform G p =
     (case platform of
        Unix \<Rightarrow> if \<not> sg_terminate G then SignalPanics else if cp_terminate p then SignalReady else SignalPending
      | Windows \<Rightarrow> SignalPending)"

definition either_poll :: "signal_poll \<Rightarrow> signal_poll \<Rightarrow> signal_poll" where
  "either_poll a b = (if a = SignalPending then b else a)"

fun console_shutdown_signal :: "os \<Rightarrow> signal_lib \<Rightarrow> console_poll list \<Rightarrow> signal_end option" where
  "console_shutdown_signal platform G [] = None"
| "console_shutdown_signal platform G (p # ps) =
     (case (if cp_ctrl_c_first p then either_poll (poll_ctrl_c G p) (poll_terminate platform G p)
            else either_poll (poll_terminate platform G p) (poll_ctrl_c G p)) of
        SignalReady \<Rightarrow> Some SignalReceived
      | SignalPanics \<Rightarrow> Some SignalPanicked
      | SignalPending \<Rightarrow> console_shutdown_signal platform G ps)"

section \<open>The shutdown channel\<close>

text \<open>The value of the watch channel, whether it was sent since the receiver was cloned, and whether the
  sender is gone.\<close>

record shutdown_watch =
  sw_value :: bool
  sw_changed :: bool
  sw_closed :: bool

text \<open>The task around the shutdown future: it owns the sender, sends when the future returns, and
  drops the sender when it ends; a panic of the future ends it without sending.\<close>

fun shutdown_task :: "signal_end option \<Rightarrow> shutdown_watch" where
  "shutdown_task None = \<lparr>sw_value = False, sw_changed = False, sw_closed = False\<rparr>"
| "shutdown_task (Some SignalReceived) = \<lparr>sw_value = True, sw_changed = True, sw_closed = True\<rparr>"
| "shutdown_task (Some SignalPanicked) = \<lparr>sw_value = False, sw_changed = False, sw_closed = True\<rparr>"

section \<open>The action of a round\<close>

text \<open>What a poll of the action task sees: the channel, the application with its queue of management
  messages, whether the last sender of the queue is gone, and the branch polled first.\<close>

record action_poll =
  ap_watch :: shutdown_watch
  ap_app :: app_state
  ap_closed :: bool
  ap_external_first :: bool

text \<open>\<open>changed\<close> is ready on a new value, and on a dropped sender, with an error that the pattern of
  the branch accepts.\<close>

definition poll_external :: "action_poll \<Rightarrow> management_action option" where
  "poll_external p =
     (if sw_changed (ap_watch p) \<or> sw_closed (ap_watch p) then Some StopAction else None)"

definition poll_management :: "action_poll \<Rightarrow> management_action option" where
  "poll_management p =
     (case as_queue (ap_app p) of
        a # _ \<Rightarrow> Some a
      | [] \<Rightarrow> if ap_closed p then Some StopAction else None)"

definition either_action :: "'a option \<Rightarrow> 'a option \<Rightarrow> 'a option" where
  "either_action a b = (case a of None \<Rightarrow> b | Some _ \<Rightarrow> a)"

fun select_action :: "action_poll list \<Rightarrow> management_action option" where
  "select_action [] = None"
| "select_action (p # ps) =
     (case (if ap_external_first p then either_action (poll_external p) (poll_management p)
            else either_action (poll_management p) (poll_external p)) of
        Some a \<Rightarrow> Some a
      | None \<Rightarrow> select_action ps)"

definition action_task :: "action_poll list \<Rightarrow> management_action option" where
  "action_task ps =
     (case ps of
        [] \<Rightarrow> None
      | p # _ \<Rightarrow> if sw_value (ap_watch p) then Some StopAction else select_action ps)"

section \<open>Properties\<close>

text \<open>A signal that ends the wait on this platform.\<close>

definition stops_on :: "os \<Rightarrow> console_poll \<Rightarrow> bool" where
  "stops_on platform p \<longleftrightarrow> cp_ctrl_c p \<or> platform = Unix \<and> cp_terminate p"

lemma select_signal:
  assumes "sg_ctrl_c G" and "sg_terminate G \<or> platform = Windows"
  shows "(if cp_ctrl_c_first p then either_poll (poll_ctrl_c G p) (poll_terminate platform G p)
          else either_poll (poll_terminate platform G p) (poll_ctrl_c G p)) =
     (if stops_on platform p then SignalReady else SignalPending)"
  using assms by (cases platform) (auto simp: either_poll_def poll_ctrl_c_def poll_terminate_def stops_on_def)

text \<open>
  The console wait ends exactly with the first poll that finds a signal: Ctrl+C everywhere, SIGTERM on
  Unix only, in whichever order the branches are polled.
\<close>

theorem console_signal_exact:
  assumes "sg_ctrl_c G" and "sg_terminate G \<or> platform = Windows"
  shows "console_shutdown_signal platform G ps = (if list_ex (stops_on platform) ps then Some SignalReceived else None)"
  by (induction ps) (simp_all add: select_signal [OF assms])

lemma either_action_cases: "either_action a b = Some x \<Longrightarrow> a = Some x \<or> b = Some x"
  by (cases a) (auto simp: either_action_def)

lemma select_action_cases:
  assumes "select_action ps = Some a"
  shows "\<exists>p\<in>set ps. poll_external p = Some a \<or> poll_management p = Some a"
  using assms
proof (induction ps)
  case (Cons p ps)
  then show ?case
    by (auto split: if_splits option.splits dest!: either_action_cases)
qed simp

text \<open>Only a message of the queue makes a restart.\<close>

lemma poll_restart:
  "poll_external p \<noteq> Some (RestartAction c)"
  "poll_management p = Some (RestartAction c) \<Longrightarrow> RestartAction c \<in> set (as_queue (ap_app p))"
  by (simp add: poll_external_def) (cases "as_queue (ap_app p)"; simp add: poll_management_def split: if_splits)

lemma action_task_restart:
  assumes "action_task ps = Some (RestartAction c)"
  shows "\<exists>p\<in>set ps. RestartAction c \<in> set (as_queue (ap_app p))"
proof -
  have "select_action ps = Some (RestartAction c)"
    using assms by (auto simp: action_task_def split: list.splits if_splits)
  from select_action_cases [OF this] poll_restart show ?thesis by blast
qed

text \<open>
  When the handler for Ctrl+C cannot be installed, the panic ends the forwarding task; the dropped sender
  makes the first poll of the action task choose a stop.
\<close>

lemma failed_handler_action:
  assumes "\<not> sg_ctrl_c G" and "\<not> stops_on platform p \<or> cp_ctrl_c_first p"
    and "ap_watch q = shutdown_task (console_shutdown_signal platform G (p # ps))"
    and "as_queue (ap_app q) = [] \<or> ap_external_first q"
  shows "action_task (q # qs) = Some StopAction"
proof -
  have "console_shutdown_signal platform G (p # ps) = Some SignalPanicked"
    using assms(1,2) by (cases platform)
      (auto simp: either_poll_def poll_ctrl_c_def poll_terminate_def stops_on_def)
  with assms(3,4) show ?thesis
    by (auto simp: action_task_def poll_external_def poll_management_def either_action_def split: option.splits if_splits)
qed

section \<open>Witnesses\<close>

theorem console_signal_exact_witness:
  "console_shutdown_signal Unix \<lparr>sg_ctrl_c = True, sg_terminate = True\<rparr>
     [\<lparr>cp_ctrl_c_first = True, cp_ctrl_c = False, cp_terminate = False\<rparr>,
      \<lparr>cp_ctrl_c_first = False, cp_ctrl_c = False, cp_terminate = True\<rparr>] = Some SignalReceived"
  by (subst console_signal_exact) (simp_all add: stops_on_def)

end
