(* ===== verification/Runtime.thy ===== *)
theory Runtime
  imports Signals
begin

text \<open>
  The service loop (\<open>src/src/runtime.rs\<close>) with the store's waits
  (\<open>wait_until_idle\<close> and \<open>spawn_cleanup\<close> of \<open>src/src/store.rs\<close>): start-up, logging, TLS
  material, one round per configuration, and the shutdown sequence that stops all tasks before the
  store is given up. What the HTTP servers and the executors do while the loop waits is an argument of
  each round.
\<close>

section \<open>Logging\<close>

text \<open>
  What the code uses of \<open>tracing_appender\<close> and \<open>tracing_subscriber\<close>: whether the daily file can
  be set up (the call has no error result and panics otherwise), the text of \<open>RUST_LOG\<close> and
  whether it is a filter, and whether a global subscriber can still be set.
\<close>

record logging_lib =
  lg_daily :: "string \<Rightarrow> string \<Rightarrow> bool"
  lg_rust_log :: "string option"
  lg_filter_valid :: "string \<Rightarrow> bool"
  lg_can_set :: bool

datatype log_target = DailyFile string string | StandardError

record subscriber =
  sb_filter :: string
  sb_targets :: "log_target list"
  sb_ansi :: bool

definition env_filter :: "logging_lib \<Rightarrow> string" where
  "env_filter G =
     (case lg_rust_log G of
        Some v \<Rightarrow> if lg_filter_valid G v then v else ''command_api=info,tower_http=info''
      | None \<Rightarrow> ''command_api=info,tower_http=info'')"

text \<open>\<open>None\<close> is the panic.\<close>

definition init_logging :: "logging_lib \<Rightarrow> string \<Rightarrow> bool \<Rightarrow> (error + subscriber) option" where
  "init_logging G dir log_to_console =
     (if \<not> lg_daily G dir ''command-api.log'' then None
      else
        (let file = DailyFile dir ''command-api.log'';
             sub = \<lparr>sb_filter = env_filter G,
                    sb_targets = (if log_to_console then [file, StandardError] else [file]),
                    sb_ansi = False\<rparr>
         in if lg_can_set G then Some (Inr sub) else Some (Inl (RuntimeError LoggingInit))))"

section \<open>TLS material\<close>

text \<open>
  What the code uses of \<open>std::fs\<close>, \<open>rustls_pemfile\<close> and \<open>rustls\<close>: reading a file,
  the certificates of a PEM text one by one (\<open>None\<close> a parse error), its private key (an error, none,
  or a key), adding a certificate to a root store, building the client verifier, and pairing the
  certificates with the key.
\<close>

record tls_lib =
  tl_open :: "string \<Rightarrow> bytes option"
  tl_certs :: "bytes \<Rightarrow> string option list"
  tl_key :: "bytes \<Rightarrow> string option option"
  tl_root_add :: "string \<Rightarrow> bool"
  tl_verifier :: "string list \<Rightarrow> bool"
  tl_single_cert :: "string list \<Rightarrow> string \<Rightarrow> bool"

record tls_server =
  ts_certificates :: "string list"
  ts_private_key :: string
  ts_client_roots :: "string list"
  ts_alpn :: "string list"

text \<open>\<open>collect::<io::Result<Vec<_>>>\<close>.\<close>

fun collect_certs :: "string option list \<Rightarrow> string list option" where
  "collect_certs [] = Some []"
| "collect_certs (None # _) = None"
| "collect_certs (Some c # cs) = map_option ((#) c) (collect_certs cs)"

fun add_roots :: "tls_lib \<Rightarrow> string option list \<Rightarrow> string list \<Rightarrow> error + string list" where
  "add_roots T [] roots = Inr roots"
| "add_roots T (None # _) roots = Inl (RuntimeError TlsClientCaInvalid)"
| "add_roots T (Some c # cs) roots =
     (if tl_root_add T c then add_roots T cs (roots @ [c]) else Inl (RuntimeError TlsClientCaRejected))"

definition load_tls_config :: "tls_lib \<Rightarrow> tls_config \<Rightarrow> error + tls_server" where
  "load_tls_config T c =
     and_then (or_err (tl_open T (certificate c)) (RuntimeError (TlsCertificateUnreadable (certificate c)))) (\<lambda>cert_pem.
     and_then (or_err (collect_certs (tl_certs T cert_pem)) (RuntimeError TlsCertificateInvalid)) (\<lambda>certs.
     and_then (bail_if (certs = []) (RuntimeError TlsCertificateEmpty)) (\<lambda>_.
     and_then (or_err (tl_open T (private_key c)) (RuntimeError (TlsKeyUnreadable (private_key c)))) (\<lambda>key_pem.
     and_then (or_err (tl_key T key_pem) (RuntimeError TlsKeyInvalid)) (\<lambda>key_opt.
     and_then (or_err key_opt (RuntimeError TlsKeyEmpty)) (\<lambda>key.
     and_then (or_err (tl_open T (client_ca_certificate c)) (RuntimeError (TlsClientCaUnreadable (client_ca_certificate c)))) (\<lambda>ca_pem.
     and_then (add_roots T (tl_certs T ca_pem) []) (\<lambda>roots.
     and_then (bail_if (roots = []) (RuntimeError TlsClientCaEmpty)) (\<lambda>_.
     and_then (bail_if (\<not> tl_verifier T roots) (RuntimeError TlsVerifierFailed)) (\<lambda>_.
     and_then (bail_if (\<not> tl_single_cert T certs key) (RuntimeError TlsKeyMismatch)) (\<lambda>_.
     Inr \<lparr>ts_certificates = certs, ts_private_key = key, ts_client_roots = roots,
          ts_alpn = [''h2'', ''http/1.1'']\<rparr>)))))))))))"

section \<open>Waiting for the tasks\<close>

text \<open>
  \<open>wait_until_idle\<close> runs beside the executors: it loads the counter, creates a
  \<open>Notified\<close>, which sees the notifications sent after its creation, and waits for one of them
  or the end of the timeout. \<open>timeout\<close> looks at its timer only when the inner future is pending.
\<close>

datatype idle_pc = AtLoad | AtNotified | Waiting nat | IdleDone bool

record idle_state =
  id_pc :: idle_pc
  id_store :: task_store
  id_now :: instant
  id_deadline :: instant

inductive idle_step :: "idle_state \<Rightarrow> idle_state \<Rightarrow> bool" where
  idle_load_zero: "id_pc s = AtLoad \<Longrightarrow> active_count (id_store s) = 0 \<Longrightarrow> idle_step s (s\<lparr>id_pc := IdleDone True\<rparr>)"
| idle_load_busy: "id_pc s = AtLoad \<Longrightarrow> active_count (id_store s) \<noteq> 0 \<Longrightarrow> idle_step s (s\<lparr>id_pc := AtNotified\<rparr>)"
| idle_create: "id_pc s = AtNotified \<Longrightarrow> idle_step s (s\<lparr>id_pc := Waiting (notifications (id_store s))\<rparr>)"
| idle_woken: "id_pc s = Waiting n \<Longrightarrow> n < notifications (id_store s) \<Longrightarrow> idle_step s (s\<lparr>id_pc := AtLoad\<rparr>)"
| idle_expired: "id_pc s = Waiting n \<Longrightarrow> notifications (id_store s) = n \<Longrightarrow> id_deadline s \<le> id_now s \<Longrightarrow>
    idle_step s (s\<lparr>id_pc := IdleDone False\<rparr>)"
| idle_finish: "active_count (id_store s) \<noteq> 0 \<Longrightarrow> idle_step s (s\<lparr>id_store := mark_finished (id_store s)\<rparr>)"
| idle_records: "idle_step s (s\<lparr>id_store := (id_store s)\<lparr>tasks := ts\<rparr>\<rparr>)"
| idle_time: "idle_step s (s\<lparr>id_now := id_now s + n\<rparr>)"

definition idle_start :: "task_store \<Rightarrow> instant \<Rightarrow> nat \<Rightarrow> idle_state" where
  "idle_start st now timeout = \<lparr>id_pc = AtLoad, id_store = st, id_now = now, id_deadline = now + timeout\<rparr>"

text \<open>The background task: one cleanup per tick; the first tick is immediate.\<close>

fun spawn_cleanup :: "store_lib \<Rightarrow> (int \<times> uuid list) list \<Rightarrow> task_store \<times> fs \<Rightarrow> task_store \<times> fs" where
  "spawn_cleanup L [] w = w"
| "spawn_cleanup L ((now, ids) # ticks) w = spawn_cleanup L ticks (cleanup_expired L now ids (fst w) (snd w))"

section \<open>Shutdown\<close>

text \<open>
  The two waits are given by what they return and the store they leave; \<open>ids\<close> is the iteration
  order of the task map.
\<close>

definition stop_reason_of :: "management_action \<Rightarrow> stop_reason" where
  "stop_reason_of a = (case a of RestartAction _ \<Rightarrow> ServerRestart | StopAction \<Rightarrow> ServerShutdown)"

definition shutdown_tasks ::
  "(task_store \<Rightarrow> uuid list) \<Rightarrow> (task_store \<Rightarrow> bool \<times> task_store) \<Rightarrow> (task_store \<Rightarrow> bool \<times> task_store)
     \<Rightarrow> stop_reason \<Rightarrow> task_store \<Rightarrow> (error + unit) \<times> task_store" where
  "shutdown_tasks ids wait1 wait2 why st =
     (case wait1 (cancel_all (ids st) why st) of
        (True, st2) \<Rightarrow> (Inr (), st2)
      | (False, st2) \<Rightarrow>
         (case wait2 (cancel_all (ids st2) ForceKilled st2) of
            (True, st3) \<Rightarrow> (Inr (), st3)
          | (False, st3) \<Rightarrow> (Inl (RuntimeError ResourcesStuck), st3)))"

section \<open>The loop\<close>

text \<open>The serving phase: the error of a listener, or their regular end, and the polls of the action
  task.\<close>

record serve_end =
  sv_ok :: bool
  sv_polls :: "action_poll list"
  sv_app :: app_state
  sv_fs :: fs

record round =
  ro_stamp :: string
  ro_wall :: int
  ro_locked :: bool
  ro_entries :: "dir_entry list"
  ro_ids :: "task_store \<Rightarrow> uuid list"
  ro_serve :: "app_state \<Rightarrow> fs \<Rightarrow> serve_end"
  ro_wait1 :: "task_store \<Rightarrow> bool \<times> task_store"
  ro_wait2 :: "task_store \<Rightarrow> bool \<times> task_store"
  ro_rest :: "fs \<Rightarrow> fs"

datatype run_event =
    StoreOpened string
  | Serving resolved_config "tls_server option"
  | TasksStopping stop_reason
  | StoreClosed task_store

datatype run_end = RunOk | RunErr error | RunPanic | RunGoing

text \<open>\<open>action_rx\<close>: \<open>None\<close> while the action task waits.\<close>

definition chosen_action :: "serve_end \<Rightarrow> management_action option" where
  "chosen_action e = action_task (sv_polls e)"

definition resolve_tls_server :: "tls_lib \<Rightarrow> resolved_config \<Rightarrow> error + tls_server option" where
  "resolve_tls_server T c =
     (case rc_tls c of None \<Rightarrow> Inr None | Some t \<Rightarrow> and_then (load_tls_config T t) (\<lambda>s. Inr (Some s)))"

text \<open>\<open>StoreClosed\<close>: the loop gives up its handle of the store, by \<open>drop(store)\<close> or by leaving
  \<open>run\<close> early, with an error or a panic.\<close>

fun run_loop ::
  "app_lib \<Rightarrow> tls_lib \<Rightarrow> string \<Rightarrow> round list \<Rightarrow> resolved_config \<Rightarrow> fs \<Rightarrow> run_event list \<times> run_end" where
  "run_loop A T log_dir [] c f = ([], RunGoing)"
| "run_loop A T log_dir (ro # ros) c f =
     (if directory (rc_logging c) \<noteq> log_dir then ([], RunErr (RuntimeError LogDirectoryChanged))
      else (case open_store (al_store A) (ro_stamp ro) (ro_wall ro) (ro_locked ro) (ro_entries ro) (ro_ids ro)
                   (directory (rc_logging c)) (retention_seconds (rc_logging c))
                   (max_output_bytes_per_task (rc_logging c)) f of
        (f1, Inl e) \<Rightarrow> ([], RunErr e)
      | (f1, Inr st) \<Rightarrow>
         (case build A c st of
            None \<Rightarrow> ([StoreOpened (directory (rc_logging c)), StoreClosed st], RunPanic)
          | Some app \<Rightarrow>
             (case resolve_tls_server T c of
                Inl e \<Rightarrow> ([StoreOpened (directory (rc_logging c)), StoreClosed st], RunErr e)
              | Inr ts \<Rightarrow>
                 (let begun = [StoreOpened (directory (rc_logging c)), Serving c ts];
                      e = ro_serve ro app f1
                  in if \<not> sv_ok e then (begun @ [StoreClosed (as_store (sv_app e))], RunErr (RuntimeError ServerFailed))
                     else
                       (case chosen_action e of
                          None \<Rightarrow> (begun, RunGoing)
                        | Some a \<Rightarrow>
                           (let why = stop_reason_of a in
                            case shutdown_tasks (ro_ids ro) (ro_wait1 ro) (ro_wait2 ro) why (as_store (sv_app e)) of
                              (Inl err, st') \<Rightarrow> (begun @ [TasksStopping why, StoreClosed st'], RunErr err)
                            | (Inr _, st') \<Rightarrow>
                               (case a of
                                  StopAction \<Rightarrow> (begun @ [TasksStopping why, StoreClosed st'], RunOk)
                                | RestartAction c' \<Rightarrow>
                                    (case run_loop A T log_dir ros c' (ro_rest ro (sv_fs e)) of
                                       (evs, r) \<Rightarrow> (begun @ [TasksStopping why, StoreClosed st'] @ evs, r))))))))))"

definition runtime_run ::
  "app_lib \<Rightarrow> tls_lib \<Rightarrow> logging_lib \<Rightarrow> config_env \<Rightarrow> bool \<Rightarrow> string \<Rightarrow> round list \<Rightarrow> fs \<Rightarrow> run_event list \<times> run_end" where
  "runtime_run A T G E log_to_console p ros f =
     (case snd (load E p) of
        Inl e \<Rightarrow> ([], RunErr e)
      | Inr c \<Rightarrow>
         (case init_logging G (directory (rc_logging c)) log_to_console of
            None \<Rightarrow> ([], RunPanic)
          | Some (Inl e) \<Rightarrow> ([], RunErr e)
          | Some (Inr _) \<Rightarrow> run_loop A T (directory (rc_logging c)) ros c f))"

section \<open>Logging\<close>

text \<open>
  The service logs to the daily file of its log directory, to standard error as well exactly when it runs
  on the console, under the filter of \<open>RUST_LOG\<close> or the default one.
\<close>

theorem init_logging_exact:
  "init_logging G dir console = Some (Inr s) \<longleftrightarrow>
     lg_daily G dir ''command-api.log'' \<and> lg_can_set G \<and>
     sb_targets s = DailyFile dir ''command-api.log'' # (if console then [StandardError] else []) \<and>
     sb_filter s = (if \<exists>v. lg_rust_log G = Some v \<and> lg_filter_valid G v then the (lg_rust_log G)
                    else ''command_api=info,tower_http=info'') \<and> \<not> sb_ansi s"
  by (cases s) (auto simp: init_logging_def env_filter_def Let_def split: option.splits)

section \<open>TLS\<close>

lemma collect_certs_eq: "collect_certs xs = Some cs \<longleftrightarrow> xs = map Some cs"
  by (induction xs arbitrary: cs rule: collect_certs.induct) (auto simp: Cons_eq_map_conv map_eq_Cons_conv)

lemma add_roots_ok: "add_roots T xs roots = Inr rs \<longleftrightarrow> (\<exists>cs. xs = map Some cs \<and> (\<forall>c\<in>set cs. tl_root_add T c) \<and> rs = roots @ cs)"
proof (induction T xs roots arbitrary: rs rule: add_roots.induct)
  case (3 T c cs roots)
  show ?case
  proof (cases "tl_root_add T c")
    case True
    with 3 show ?thesis by (auto simp: Cons_eq_map_conv)
  qed (auto simp: Cons_eq_map_conv)
qed auto

text \<open>
  TLS is mutual or absent: the server configuration is built exactly when the three files can be
  read, every certificate in them parses, the certificate and the client CA file hold at least one
  certificate, the key file a key that belongs to the certificates, and the root store and the verifier
  accept the CA; clients are then verified against exactly the certificates of the CA file, and
  HTTP/2 and HTTP/1.1 are offered in this order.
\<close>

theorem load_tls_exact:
  "load_tls_config T c = Inr s \<longleftrightarrow>
     (\<exists>cert_pem key_pem ca_pem.
        tl_open T (certificate c) = Some cert_pem \<and> tl_open T (private_key c) = Some key_pem \<and>
        tl_open T (client_ca_certificate c) = Some ca_pem \<and>
        tl_certs T cert_pem = map Some (ts_certificates s) \<and> ts_certificates s \<noteq> [] \<and>
        tl_key T key_pem = Some (Some (ts_private_key s)) \<and>
        tl_certs T ca_pem = map Some (ts_client_roots s) \<and> ts_client_roots s \<noteq> [] \<and>
        (\<forall>r\<in>set (ts_client_roots s). tl_root_add T r) \<and> tl_verifier T (ts_client_roots s) \<and>
        tl_single_cert T (ts_certificates s) (ts_private_key s) \<and> ts_alpn s = [''h2'', ''http/1.1''])"
  by (cases s) (auto simp: load_tls_config_def result_simps collect_certs_eq add_roots_ok)

section \<open>Waiting\<close>

definition idle_inv :: "idle_state \<Rightarrow> bool" where
  "idle_inv s \<longleftrightarrow>
     (case id_pc s of IdleDone True \<Rightarrow> active_count (id_store s) = 0
      | IdleDone False \<Rightarrow> id_deadline s \<le> id_now s
      | Waiting n \<Rightarrow> n \<le> notifications (id_store s) | _ \<Rightarrow> True)"

lemma idle_step_inv: "idle_step s s' \<Longrightarrow> idle_inv s \<Longrightarrow> idle_inv s'"
  by (induction rule: idle_step.induct) (auto simp: idle_inv_def mark_finished_def split: idle_pc.splits bool.splits)

lemma idle_reach_inv: "idle_step\<^sup>*\<^sup>* (idle_start st now t) s \<Longrightarrow> idle_inv s"
  by (induction rule: rtranclp_induct) (auto simp: idle_inv_def idle_start_def dest: idle_step_inv)

text \<open>
  \<open>wait_until_idle\<close> is right when it answers: beside any executors it returns true only when
  no task is active, and false only when its time is over.
\<close>

theorem idle_answer_sound:
  assumes "idle_step\<^sup>*\<^sup>* (idle_start st now t) s" and "id_pc s = IdleDone b"
  shows "if b then active_count (id_store s) = 0 else id_deadline s \<le> id_now s"
  using idle_reach_inv [OF assms(1)] assms(2) by (auto simp: idle_inv_def split: bool.splits)

definition overlooked :: "nat \<Rightarrow> idle_state \<Rightarrow> bool" where
  "overlooked n s \<longleftrightarrow>
     active_count (id_store s) = 0 \<and> notifications (id_store s) = n \<and>
     (id_pc s = Waiting n \<or> id_pc s = IdleDone False \<and> id_deadline s \<le> id_now s)"

lemma overlooked_step: "idle_step s s' \<Longrightarrow> overlooked n s \<Longrightarrow> overlooked n s'"
  by (induction rule: idle_step.induct) (auto simp: overlooked_def)

lemma overlooked_answer:
  "overlooked n s \<Longrightarrow> active_count (id_store s) = 0 \<and> (\<forall>b. id_pc s = IdleDone b \<longrightarrow> \<not> b \<and> id_deadline s \<le> id_now s)"
  by (auto simp: overlooked_def)

text \<open>
  C39. A lost wake-up: when the last task finishes between the load of the counter and the creation of
  the \<open>Notified\<close>, its notification is not seen; from then on the wait can only end at its timeout,
  with the answer false, although no task is active any more.
\<close>

theorem idle_lost_wakeup:
  assumes "active_count st = 1"
  shows "\<exists>s. idle_step\<^sup>*\<^sup>* (idle_start st now t) s \<and> active_count (id_store s) = 0 \<and>
    (\<forall>s'. idle_step\<^sup>*\<^sup>* s s' \<longrightarrow>
       active_count (id_store s') = 0 \<and> (\<forall>b. id_pc s' = IdleDone b \<longrightarrow> \<not> b \<and> id_deadline s' \<le> id_now s'))"
proof -
  let ?s0 = "idle_start st now t"
  let ?s1 = "?s0\<lparr>id_pc := AtNotified\<rparr>"
  let ?s2 = "?s1\<lparr>id_store := mark_finished (id_store ?s1)\<rparr>"
  let ?s3 = "?s2\<lparr>id_pc := Waiting (notifications (id_store ?s2))\<rparr>"
  have "idle_step ?s0 ?s1" by (rule idle_load_busy) (simp_all add: idle_start_def assms)
  moreover have "idle_step ?s1 ?s2" by (rule idle_finish) (simp add: idle_start_def assms)
  moreover have "idle_step ?s2 ?s3" by (rule idle_create) simp
  ultimately have reach: "idle_step\<^sup>*\<^sup>* ?s0 ?s3" by (meson converse_rtranclp_into_rtranclp rtranclp.rtrancl_refl)
  have o3: "overlooked (notifications st + 1) ?s3" by (simp add: overlooked_def idle_start_def mark_finished_def assms)
  have "overlooked (notifications st + 1) s'" if "idle_step\<^sup>*\<^sup>* ?s3 s'" for s'
    using that o3 by (induction rule: rtranclp_induct) (auto dest: overlooked_step)
  then show ?thesis using reach overlooked_answer overlooked_answer [OF o3] by blast
qed

section \<open>The loop\<close>

text \<open>The waits of a round are runs of \<open>wait_until_idle\<close> beside the executors.\<close>

definition is_wait :: "(task_store \<Rightarrow> bool \<times> task_store) \<Rightarrow> bool" where
  "is_wait w \<longleftrightarrow>
     (\<forall>st b st'. w st = (b, st') \<longrightarrow>
        (\<exists>now t s. idle_step\<^sup>*\<^sup>* (idle_start st now t) s \<and> id_pc s = IdleDone b \<and> id_store s = st'))"

definition waits_run :: "round \<Rightarrow> bool" where
  "waits_run ro \<longleftrightarrow> is_wait (ro_wait1 ro) \<and> is_wait (ro_wait2 ro)"

lemma is_wait_true: "is_wait w \<Longrightarrow> w st = (True, st') \<Longrightarrow> active_count st' = 0"
  using idle_reach_inv by (fastforce simp: is_wait_def idle_inv_def)

text \<open>The serving phase runs the application, and the action task sees its states.\<close>

definition serves_app :: "app_lib \<Rightarrow> round \<Rightarrow> bool" where
  "serves_app A ro \<longleftrightarrow> (\<forall>app f. (app_step A)\<^sup>*\<^sup>* app (sv_app (ro_serve ro app f)) \<and>
     (\<forall>p\<in>set (sv_polls (ro_serve ro app f)). (app_step A)\<^sup>*\<^sup>* app (ap_app p)))"

lemma shutdown_idle:
  assumes "waits_run ro" and "shutdown_tasks ids (ro_wait1 ro) (ro_wait2 ro) why st = (Inr (), st')"
  shows "active_count st' = 0"
  using assms by (auto simp: shutdown_tasks_def waits_run_def split: prod.splits bool.splits dest: is_wait_true)

text \<open>What a restart request may put into the channel.\<close>

definition queue_ok :: "string \<Rightarrow> app_state \<Rightarrow> bool" where
  "queue_ok d s \<longleftrightarrow> as_log_directory s = d \<and>
     (\<forall>c. RestartAction c \<in> set (as_queue s) \<longrightarrow> resolved_config_ok c \<and> directory (rc_logging c) = d)"

lemma queue_ok_cong:
  "queue_ok d s \<Longrightarrow> as_log_directory s' = as_log_directory s \<Longrightarrow> set (as_queue s') \<subseteq> set (as_queue s) \<Longrightarrow> queue_ok d s'"
  by (auto simp: queue_ok_def)

lemma restart_queue:
  assumes "restart_service E s = (s', r)" and "queue_ok d s"
  shows "queue_ok d s'"
proof -
  obtain ds res where l: "load E (as_config_path s) = (ds, res)" by fastforce
  have "resolved_config_ok c" if "res = Inr c" for c
    using l that by (auto elim: load_ok_cases intro: resolve_ok)
  with assms l show ?thesis
    by (auto simp: restart_service_def request_management_action_def queue_ok_def split: sum.splits if_splits)
qed

lemma dispatch_queue:
  assumes "dispatch A d e s f = (s', f', r)" and "queue_ok D s"
  shows "queue_ok D s'"
proof (cases e)
  case RestartService
  with assms show ?thesis by (auto split: prod.splits dest: restart_queue)
next
  case (Execute p req)
  with assms show ?thesis
    by (auto simp: execute_def queue_ok_def split: option.splits sum.splits if_splits prod.splits)
next
  case StopService
  with assms show ?thesis
    by (auto simp: stop_service_def request_management_action_def queue_ok_def split: prod.splits if_splits)
qed (use assms in \<open>auto simp: cancel_task_def kill_task_def stop_task_def queue_ok_def
       split: prod.splits option.splits bool.splits\<close>)

lemma step_queue:
  assumes "app_step A s s'" and "queue_ok D s"
  shows "queue_ok D s'"
  using assms(1)
proof (cases rule: app_step.cases)
  case (as_request joined now now' d rq e f f' resp)
  have "queue_ok D s1" if "same_service s s1" for s1
    using that assms(2) by (auto simp: queue_ok_def same_service_fields)
  with gate_frame [OF as_request] dispatch_queue show ?thesis
    by (cases "authorised A joined now rq s") blast+
qed (use assms(2) in \<open>auto simp: queue_ok_def drop_permits_def Let_def\<close>)

lemma chosen_ok:
  assumes "build A c st = Some app" and "serves_app A ro" and "chosen_action (ro_serve ro app f) = Some (RestartAction c')"
  shows "resolved_config_ok c' \<and> directory (rc_logging c') = directory (rc_logging c)"
proof -
  have start: "queue_ok (directory (rc_logging c)) app"
    using assms(1) by (auto simp: build_def queue_ok_def split: if_splits)
  obtain p where p: "p \<in> set (sv_polls (ro_serve ro app f))" "RestartAction c' \<in> set (as_queue (ap_app p))"
    using action_task_restart assms(3) unfolding chosen_action_def by blast
  with assms(2) have "(app_step A)\<^sup>*\<^sup>* app (ap_app p)" by (simp add: serves_app_def)
  then have "queue_ok (directory (rc_logging c)) (ap_app p)"
    using start by (induction rule: rtranclp_induct) (auto dest: step_queue)
  with p(2) show ?thesis by (simp add: queue_ok_def)
qed

lemma resolve_tls_server_some: "resolve_tls_server T c = Inr ts \<Longrightarrow> (ts = None \<longleftrightarrow> rc_tls c = None)"
  by (auto simp: resolve_tls_server_def result_simps split: option.splits)

text \<open>What holds of every event of the loop and of its end.\<close>

definition event_ok :: "string \<Rightarrow> run_event \<Rightarrow> bool" where
  "event_ok log_dir ev \<longleftrightarrow>
     (case ev of
        StoreOpened d \<Rightarrow> d = log_dir
      | Serving c ts \<Rightarrow> resolved_config_ok c \<and> directory (rc_logging c) = log_dir \<and> (ts = None \<longleftrightarrow> rc_tls c = None)
      | TasksStopping why \<Rightarrow> why \<in> {ServerShutdown, ServerRestart}
      | StoreClosed st \<Rightarrow> True)"

text \<open>A store is given up with active tasks only as the last event, with one of two errors.\<close>

fun closes_idle :: "run_end \<Rightarrow> run_event list \<Rightarrow> bool" where
  "closes_idle r [] = True"
| "closes_idle r (StoreClosed st # evs) =
     ((active_count st = 0 \<or>
       evs = [] \<and> (r = RunErr (RuntimeError ServerFailed) \<or> r = RunErr (RuntimeError ResourcesStuck))) \<and>
      closes_idle r evs)"
| "closes_idle r (_ # evs) = closes_idle r evs"

lemma stop_reason_of_cases: "stop_reason_of a \<in> {ServerShutdown, ServerRestart}"
  by (cases a) (simp_all add: stop_reason_of_def)

lemma persist_error: "persist L r f = (f', Inl e) \<Longrightarrow> \<exists>x. e = StoreError x"
  by (auto simp: persist_def split: option.splits prod.splits if_splits)

lemma latest_error: "latest_snapshot L p acc ls = Inl e \<Longrightarrow> \<exists>x. e = StoreError x"
  by (induction L p acc ls rule: latest_snapshot.induct) (auto split: if_splits option.splits)

lemma read_latest_error: "read_latest_snapshot L d f = (f', Inl e) \<Longrightarrow> \<exists>x. e = StoreError x"
  by (auto simp: read_latest_snapshot_def split: prod.splits open_result.splits dest: latest_error)

lemma recover_dir_error: "recover_dir L ts d st f = (st', f', Inl e) \<Longrightarrow> \<exists>x. e = StoreError x"
  by (auto simp: recover_dir_def Let_def transition_def split: prod.splits sum.splits option.splits if_splits
      dest: read_latest_error persist_error)

lemma recover_loop_error: "recover_loop L ts es st f = (st', f', Inl e) \<Longrightarrow> \<exists>x. e = StoreError x"
proof (induction es arbitrary: st f)
  case (Cons en es)
  then show ?case by (cases en) (auto split: prod.splits sum.splits dest: recover_dir_error)
qed simp

lemma open_store_error: "open_store L ts now lk es ids rt keep mx f = (f', Inl e) \<Longrightarrow> \<exists>x. e = StoreError x"
  by (auto simp: open_store_def Let_def recover_def split: prod.splits bool.splits if_splits sum.splits
      dest: recover_loop_error)

lemma open_store_active:
  assumes "open_store L ts now locked entries ids rt keep max_out f = (f', Inr st)"
  shows "active_count st = 0"
proof -
  from assms obtain st0 f2 st1 f3 where o: "all_recovered st0" "active_count st0 = 0"
    "recover L ts entries st0 f2 = (st1, f3, Inr ())" "cleanup_expired L now (ids st1) st1 f3 = (st, f')"
    by (rule open_store_ok) blast
  from recover_ok [OF o(3)] recover_loop_store o(1,2) have "active_count st1 = 0" by fastforce
  with o(4) cleanup_active [of L now "ids st1" st1 f3] show ?thesis by simp
qed

lemma tls_error: "resolve_tls_server T c = Inl e \<Longrightarrow> e \<noteq> RuntimeError LogDirectoryChanged"
proof -
  have "add_roots T xs rs = Inl e \<Longrightarrow> e \<noteq> RuntimeError LogDirectoryChanged" for xs rs
    by (induction T xs rs rule: add_roots.induct) (auto split: if_splits)
  then show "resolve_tls_server T c = Inl e \<Longrightarrow> e \<noteq> RuntimeError LogDirectoryChanged"
    by (auto simp: resolve_tls_server_def load_tls_config_def result_simps and_then_eq_Inl bail_if_eq or_err_eq split: option.splits)
qed

lemma shutdown_error: "shutdown_tasks ids w1 w2 why st = (Inl e, st') \<Longrightarrow> e = RuntimeError ResourcesStuck"
  by (auto simp: shutdown_tasks_def split: prod.splits bool.splits)

text \<open>A round either ends before serving, or serves and ends in one of five ways.\<close>

lemma run_round_cases:
  assumes "run_loop A T D (ro # ros) c f = (evs, r)" and "directory (rc_logging c) = D"
  obtains (early) "\<forall>ev\<in>set evs. ev = StoreOpened D \<or> (\<exists>st. ev = StoreClosed st)" and "closes_idle r evs" and "r \<noteq> RunErr (RuntimeError LogDirectoryChanged)"
  | (served) f1 st app ts e where "build A c st = Some app" and "resolve_tls_server T c = Inr ts"
      and "e = ro_serve ro app f1"
      and "(evs, r) =
        (let begun = [StoreOpened D, Serving c ts] in
         if \<not> sv_ok e then (begun @ [StoreClosed (as_store (sv_app e))], RunErr (RuntimeError ServerFailed))
         else (case chosen_action e of
             None \<Rightarrow> (begun, RunGoing)
           | Some a \<Rightarrow>
              (let why = stop_reason_of a in
               case shutdown_tasks (ro_ids ro) (ro_wait1 ro) (ro_wait2 ro) why (as_store (sv_app e)) of
                 (Inl err, st') \<Rightarrow> (begun @ [TasksStopping why, StoreClosed st'], RunErr err)
               | (Inr _, st') \<Rightarrow>
                  (case a of
                     StopAction \<Rightarrow> (begun @ [TasksStopping why, StoreClosed st'], RunOk)
                   | RestartAction c' \<Rightarrow>
                       (case run_loop A T D ros c' (ro_rest ro (sv_fs e)) of
                          (evs, r) \<Rightarrow> (begun @ [TasksStopping why, StoreClosed st'] @ evs, r))))))"
proof -
  obtain f1 res where o: "open_store (al_store A) (ro_stamp ro) (ro_wall ro) (ro_locked ro) (ro_entries ro) (ro_ids ro)
      (directory (rc_logging c)) (retention_seconds (rc_logging c)) (max_output_bytes_per_task (rc_logging c)) f = (f1, res)"
    by fastforce
  show ?thesis
  proof (cases "\<exists>st app ts. res = Inr st \<and> build A c st = Some app \<and> resolve_tls_server T c = Inr ts")
    case True
    then obtain st app ts where t: "res = Inr st" "build A c st = Some app" "resolve_tls_server T c = Inr ts" by blast
    show ?thesis
      by (rule served [OF t(2,3) refl, of f1])
        (subst assms(1) [symmetric], use assms(2) o t in \<open>simp add: Let_def cong: option.case_cong\<close>)
  next
    case False
    show ?thesis
    proof (rule early)
      show "\<forall>ev\<in>set evs. ev = StoreOpened D \<or> (\<exists>st. ev = StoreClosed st)"
        using assms o False by (cases res) (auto split: option.splits sum.splits)
      show "closes_idle r evs"
        using assms o False open_store_active [of "al_store A"] by (cases res) (auto split: option.splits sum.splits)
      show "r \<noteq> RunErr (RuntimeError LogDirectoryChanged)"
        using assms o False open_store_error [of "al_store A"] tls_error [of T c]
        by (cases res) (fastforce split: option.splits sum.splits)+
    qed
  qed
qed

lemma run_loop_events:
  assumes "run_loop A T D ros c f = (evs, r)" and "\<forall>ro\<in>set ros. serves_app A ro \<and> waits_run ro"
    and "resolved_config_ok c" and "directory (rc_logging c) = D"
  shows "(\<forall>ev\<in>set evs. event_ok D ev) \<and> closes_idle r evs \<and> r \<noteq> RunErr (RuntimeError LogDirectoryChanged)"
  using assms
proof (induction ros arbitrary: c f evs r)
  case Nil
  then show ?case by auto
next
  case (Cons ro ros)
  have opened: "event_ok D (StoreOpened D)" by (simp add: event_ok_def)
  from Cons.prems(1,4) show ?case
  proof (cases rule: run_round_cases)
    case early
    with opened show ?thesis by (auto simp: event_ok_def)
  next
    case (served f1 st app ts e)
    have serving: "event_ok D (Serving c ts)"
      using resolve_tls_server_some [OF served(2)] Cons.prems(3,4) by (auto simp: event_ok_def)
    have stopping: "event_ok D (TasksStopping (stop_reason_of a))" for a
      using stop_reason_of_cases by (auto simp: event_ok_def)
    have rest: "(\<forall>ev\<in>set evs'. event_ok D ev) \<and> closes_idle r' evs' \<and> r' \<noteq> RunErr (RuntimeError LogDirectoryChanged)"
      if "chosen_action e = Some (RestartAction c')" "run_loop A T D ros c' g = (evs', r')" for c' g evs' r'
      using chosen_ok [OF served(1), of ro f1 c'] that(1) served(3) Cons.prems(2,4) Cons.IH [OF that(2)] by simp
    show ?thesis
    proof (cases "sv_ok e \<and> chosen_action e \<noteq> None")
      case True
      then obtain a where a: "sv_ok e" "chosen_action e = Some a" by blast
      obtain sr st' where sh: "shutdown_tasks (ro_ids ro) (ro_wait1 ro) (ro_wait2 ro) (stop_reason_of a) (as_store (sv_app e)) = (sr, st')"
        by fastforce
      have closed: "sr = Inr () \<Longrightarrow> active_count st' = 0" "event_ok D (StoreClosed st')"
        using shutdown_idle [of ro] sh Cons.prems(2) by (auto simp: event_ok_def)
      have stuck: "sr = Inl err \<Longrightarrow> err = RuntimeError ResourcesStuck" for err
        using shutdown_error sh by blast
      show ?thesis
        using served(4) a sh opened serving stopping [of a] closed stuck rest [of _ "ro_rest ro (sv_fs e)"]
        by (cases sr; cases a) (auto simp: Let_def split: prod.splits)
    next
      case False
      with served(4) opened serving show ?thesis by (auto simp: Let_def event_ok_def split: if_splits)
    qed
  qed
qed

text \<open>
  C11. The life of the service: whatever requests, restarts, failures and executors do, every round
  serves a configuration that satisfies all constraints, with TLS exactly when it is configured, and opens
  the store in the log directory of the first configuration. The store is given up with no task
  active, before every restart and at every orderly end; with tasks still active only at two ends, the
  failure of a listener and a shutdown whose last wait ran out. The check that refuses a changed log
  directory at the head of the loop never fires.
\<close>

theorem service_rounds_ok:
  assumes "runtime_run A T G E console p ros f = (evs, r)" and "\<forall>ro\<in>set ros. serves_app A ro \<and> waits_run ro"
    and "load E p = (ds, Inr c)"
  shows "(\<forall>ev\<in>set evs. event_ok (directory (rc_logging c)) ev) \<and> closes_idle r evs \<and>
    r \<noteq> RunErr (RuntimeError LogDirectoryChanged)"
proof -
  have "resolved_config_ok c" using assms(3) by (auto elim: load_ok_cases intro: resolve_ok)
  moreover have "init_logging G d console \<noteq> Some (Inl (RuntimeError LogDirectoryChanged))" for d
    by (simp add: init_logging_def Let_def)
  ultimately show ?thesis
    using assms run_loop_events [OF _ assms(2)] by (auto simp: runtime_run_def split: option.splits sum.splits)
qed

text \<open>A round in which the console signals cannot be watched, and no management message is taken first.\<close>

definition unwatched :: "os \<Rightarrow> signal_lib \<Rightarrow> round \<Rightarrow> bool" where
  "unwatched platform G ro \<longleftrightarrow> (\<forall>app f. \<exists>q qs p ps.
     sv_polls (ro_serve ro app f) = q # qs \<and> (\<not> stops_on platform p \<or> cp_ctrl_c_first p) \<and>
     ap_watch q = shutdown_task (console_shutdown_signal platform G (p # ps)) \<and>
     (as_queue (ap_app q) = [] \<or> ap_external_first q))"

text \<open>
  C38. A failed signal handler stops the service as if it had been asked to: when the handler for Ctrl+C
  cannot be installed, the panic does not end the program; a round that comes to serve stops its
  tasks with the reason of a shutdown, and the service ends with success unless tasks are stuck or a
  listener failed.
\<close>

theorem failed_handler_stops_service:
  assumes "run_loop A T D (ro # ros) c f = (evs, r)" and "directory (rc_logging c) = D"
    and "Serving c ts \<in> set evs" and "\<not> sg_ctrl_c G" and "unwatched platform G ro"
  shows "r = RunErr (RuntimeError ServerFailed) \<or>
    TasksStopping ServerShutdown \<in> set evs \<and> (r = RunOk \<or> r = RunErr (RuntimeError ResourcesStuck))"
  using assms(1,2)
proof (cases rule: run_round_cases)
  case early
  with assms(3) show ?thesis by auto
next
  case (served f1 st app ts' e)
  from assms(5) obtain q qs p ps where q: "sv_polls e = q # qs" "\<not> stops_on platform p \<or> cp_ctrl_c_first p"
    "ap_watch q = shutdown_task (console_shutdown_signal platform G (p # ps))" "as_queue (ap_app q) = [] \<or> ap_external_first q"
    unfolding unwatched_def served(3) by blast
  from failed_handler_action [OF assms(4) q(2-4)] have "chosen_action e = Some StopAction"
    by (simp add: chosen_action_def q(1))
  then show ?thesis
    using served(4) shutdown_error
    by (auto simp: Let_def stop_reason_of_def split: if_splits prod.splits sum.splits)
qed

text \<open>The stop request every unfinished task of a store has been sent.\<close>

definition all_asked :: "stop_reason \<Rightarrow> task_store \<Rightarrow> task_store \<Rightarrow> bool" where
  "all_asked why st st' \<longleftrightarrow>
     (\<forall>tid. case tasks st tid of
        None \<Rightarrow> tasks st' tid = None
      | Some r \<Rightarrow>
          (if is_finished (status (snapshot r)) then tasks st' tid = Some r
           else \<exists>r'. tasks st' tid = Some r' \<and> snapshot r' = snapshot r \<and> watch_value r' = Some why))"

lemma cancel_all_asked: "enumerates ids st \<Longrightarrow> all_asked why st (cancel_all ids why st)"
  by (auto simp: all_asked_def enumerates_def cancel_all_tasks snapshot_def split: option.splits)

text \<open>
  C23. Stopping the tasks: the first wait of the shutdown sequence sees a store in which exactly the
  unfinished tasks have been asked to stop, with the reason of the action; the second wait takes place
  only when the first one failed, on a store in which the tasks still unfinished then have been asked
  to be killed; the sequence succeeds exactly when one of the waits does, and then leaves the store of
  that wait.
\<close>

theorem shutdown_exact:
  assumes "shutdown_tasks ids w1 w2 (stop_reason_of a) st = (res, st')" and "\<And>s. finite (dom (tasks s)) \<Longrightarrow> enumerates (ids s) s"
    and "finite (dom (tasks st))" and "\<And>s b s'. w1 s = (b, s') \<Longrightarrow> finite (dom (tasks s'))"
  shows "\<exists>st1 idle st2. all_asked (stop_reason_of a) st st1 \<and> w1 st1 = (idle, st2) \<and>
    (if idle then res = Inr () \<and> st' = st2
     else \<exists>st3 idle2. all_asked ForceKilled st2 st3 \<and> w2 st3 = (idle2, st') \<and> (res = Inr () \<longleftrightarrow> idle2))"
proof -
  let ?st1 = "cancel_all (ids st) (stop_reason_of a) st"
  obtain idle st2 where w1: "w1 ?st1 = (idle, st2)" by fastforce
  have "if idle then res = Inr () \<and> st' = st2
     else \<exists>st3 idle2. all_asked ForceKilled st2 st3 \<and> w2 st3 = (idle2, st') \<and> (res = Inr () \<longleftrightarrow> idle2)"
    using assms(1) w1 cancel_all_asked [OF assms(2) [OF assms(4) [OF w1]], of ForceKilled]
    by (cases idle) (auto simp: shutdown_tasks_def split: prod.splits bool.splits)
  with w1 cancel_all_asked [OF assms(2) [OF assms(3)]] show ?thesis by blast
qed

section \<open>Witnesses\<close>

definition demo_tls_lib :: tls_lib where
  "demo_tls_lib = \<lparr>tl_open = (\<lambda>p. Some p), tl_certs = (\<lambda>b. [Some b]), tl_key = (\<lambda>b. Some (Some b)),
     tl_root_add = (\<lambda>_. True), tl_verifier = (\<lambda>_. True), tl_single_cert = (\<lambda>_ _. True)\<rparr>"

theorem load_tls_exact_witness:
  "load_tls_config demo_tls_lib \<lparr>certificate = ''c'', private_key = ''k'', client_ca_certificate = ''a''\<rparr> =
     Inr \<lparr>ts_certificates = [''c''], ts_private_key = ''k'', ts_client_roots = [''a''], ts_alpn = [''h2'', ''http/1.1'']\<rparr>"
  by (simp only: load_tls_exact) (simp add: demo_tls_lib_def)

theorem idle_answer_sound_witness:
  "\<exists>s. idle_step\<^sup>*\<^sup>* (idle_start (demo_store demo_record) 0 5) s \<and> id_pc s = IdleDone True \<and> active_count (id_store s) = 0"
proof -
  let ?s0 = "idle_start (demo_store demo_record) 0 5"
  let ?s1 = "?s0\<lparr>id_store := mark_finished (id_store ?s0)\<rparr>"
  let ?s2 = "?s1\<lparr>id_pc := IdleDone True\<rparr>"
  have "idle_step ?s0 ?s1" by (rule idle_finish) (simp add: idle_start_def demo_store_def)
  moreover have "idle_step ?s1 ?s2"
    by (rule idle_load_zero) (simp_all add: idle_start_def demo_store_def mark_finished_def)
  ultimately have r: "idle_step\<^sup>*\<^sup>* ?s0 ?s2" by (meson converse_rtranclp_into_rtranclp rtranclp.rtrancl_refl)
  have "id_pc ?s2 = IdleDone True" by simp
  from r this idle_answer_sound [OF r this] show ?thesis by auto
qed

theorem idle_lost_wakeup_witness:
  "\<exists>s. idle_step\<^sup>*\<^sup>* (idle_start (demo_store demo_record) 0 5) s \<and> active_count (id_store s) = 0 \<and> id_pc s \<noteq> IdleDone True"
proof -
  have "active_count (demo_store demo_record) = 1" by (simp add: demo_store_def)
  from idle_lost_wakeup [OF this, of 0 5] show ?thesis by blast
qed

definition demo_logging :: logging_lib where
  "demo_logging = \<lparr>lg_daily = (\<lambda>_ _. True), lg_rust_log = None, lg_filter_valid = (\<lambda>_. True), lg_can_set = True\<rparr>"

definition demo_round :: round where
  "demo_round = \<lparr>ro_stamp = ''t'', ro_wall = 0, ro_locked = True, ro_entries = [],
     ro_ids = (\<lambda>st. sorted_list_of_set (dom (tasks st))),
     ro_serve = (\<lambda>app f. \<lparr>sv_ok = True,
       sv_polls = [\<lparr>ap_watch = shutdown_task (Some SignalReceived), ap_app = app, ap_closed = False, ap_external_first = True\<rparr>],
       sv_app = app, sv_fs = f\<rparr>),
     ro_wait1 = (\<lambda>st. (active_count st = 0, st)), ro_wait2 = (\<lambda>st. (active_count st = 0, st)), ro_rest = (\<lambda>f. f)\<rparr>"

lemma demo_idle_wait: "is_wait (\<lambda>st. (active_count st = 0, st))"
proof -
  have "\<exists>now t s. idle_step\<^sup>*\<^sup>* (idle_start st now t) s \<and> id_pc s = IdleDone (active_count st = 0) \<and> id_store s = st" for st
  proof (cases "active_count st = 0")
    case True
    then have "idle_step\<^sup>*\<^sup>* (idle_start st 0 0) ((idle_start st 0 0)\<lparr>id_pc := IdleDone True\<rparr>)"
      by (intro r_into_rtranclp idle_load_zero) (simp_all add: idle_start_def)
    then show ?thesis using True by (intro exI conjI) (assumption, simp_all add: idle_start_def)
  next
    case False
    let ?s0 = "idle_start st 0 0"
    let ?s1 = "?s0\<lparr>id_pc := AtNotified\<rparr>"
    let ?s2 = "?s1\<lparr>id_pc := Waiting (notifications (id_store ?s1))\<rparr>"
    let ?s3 = "?s2\<lparr>id_pc := IdleDone False\<rparr>"
    have "idle_step ?s0 ?s1" by (rule idle_load_busy) (simp_all add: idle_start_def False)
    moreover have "idle_step ?s1 ?s2" by (rule idle_create) simp
    moreover have "idle_step ?s2 ?s3"
      by (rule idle_expired [where n = "notifications st"]) (simp_all add: idle_start_def)
    ultimately have "idle_step\<^sup>*\<^sup>* ?s0 ?s3" by (meson converse_rtranclp_into_rtranclp rtranclp.rtrancl_refl)
    then show ?thesis using False by (intro exI conjI) (assumption, simp_all add: idle_start_def)
  qed
  then show ?thesis by (auto simp: is_wait_def)
qed

theorem service_rounds_ok_witness:
  "list_all (event_ok ''/etc/api/logs'') (fst (runtime_run demo_app_lib demo_tls_lib demo_logging demo_env True ''/etc/api/config.yaml''
     [demo_round] (demo_fs [] (\<lambda>_. None))))"
proof -
  have "\<forall>ro\<in>set [demo_round]. serves_app demo_app_lib ro \<and> waits_run ro"
    by (simp add: demo_round_def serves_app_def waits_run_def demo_idle_wait)
  from service_rounds_ok [OF prod.collapse [symmetric] this demo_load] show ?thesis by (simp add: demo_resolved_def list_all_iff)
qed

theorem shutdown_exact_witness:
  "\<exists>st1. all_asked ServerShutdown (demo_store demo_record) st1 \<and>
     snd (shutdown_tasks (\<lambda>st. sorted_list_of_set (dom (tasks st))) (\<lambda>st. (True, st\<lparr>tasks := Map.empty\<rparr>)) (\<lambda>st. (True, st))
       ServerShutdown (demo_store demo_record)) = st1\<lparr>tasks := Map.empty\<rparr>"
proof -
  have ids: "enumerates (sorted_list_of_set (dom (tasks s))) s" if "finite (dom (tasks s))" for s :: task_store
    using that by (simp add: enumerates_def)
  have fin: "finite (dom (tasks (demo_store demo_record)))" by (simp add: demo_store_def)
  have why: "stop_reason_of StopAction = ServerShutdown" by (simp add: stop_reason_of_def)
  from shutdown_exact [where a = StopAction and ids = "\<lambda>st. sorted_list_of_set (dom (tasks st))" and
      ?w1.0 = "\<lambda>st. (True, st\<lparr>tasks := Map.empty\<rparr>)", OF prod.collapse [symmetric] ids fin, of "\<lambda>st. (True, st)"]
  show ?thesis unfolding why by auto
qed

text \<open>A round whose watcher of the console signals panicked.\<close>

definition demo_signals :: signal_lib where
  "demo_signals = \<lparr>sg_ctrl_c = False, sg_terminate = True\<rparr>"

definition demo_console :: console_poll where
  "demo_console = \<lparr>cp_ctrl_c_first = True, cp_ctrl_c = False, cp_terminate = False\<rparr>"

definition demo_unwatched_round :: round where
  "demo_unwatched_round = demo_round\<lparr>ro_serve := (\<lambda>app f. \<lparr>sv_ok = True,
     sv_polls = [\<lparr>ap_watch = shutdown_task (Some SignalPanicked), ap_app = app, ap_closed = False, ap_external_first = True\<rparr>],
     sv_app = app, sv_fs = f\<rparr>)\<rparr>"

lemma demo_unwatched: "unwatched Unix demo_signals demo_unwatched_round"
proof -
  have "console_shutdown_signal Unix demo_signals [demo_console] = Some SignalPanicked" "cp_ctrl_c_first demo_console"
    by (simp_all add: demo_signals_def demo_console_def either_poll_def poll_ctrl_c_def)
  then show ?thesis
    unfolding unwatched_def demo_unwatched_round_def
    by (intro allI exI [of _ demo_console] exI [of _ "[]"] exI conjI) (simp, simp_all del: console_shutdown_signal.simps)
qed

lemma demo_serving:
  assumes "run_loop demo_app_lib demo_tls_lib ''/etc/api/logs'' [demo_unwatched_round] demo_resolved (demo_fs [] (\<lambda>_. None)) = (evs, r)"
  shows "Serving demo_resolved None \<in> set evs \<and> r \<noteq> RunErr (RuntimeError ServerFailed)"
proof -
  let ?d = "''/etc/api/logs''"
  obtain f st where o: "open_store (al_store demo_app_lib) ''t'' 0 True [] (\<lambda>st. sorted_list_of_set (dom (tasks st))) ?d
      (retention_seconds (rc_logging demo_resolved)) (max_output_bytes_per_task (rc_logging demo_resolved)) (demo_fs [] (\<lambda>_. None)) = (f, Inr st)"
    by (simp add: open_store_def fs_create_dir_all_def fs_append_def fs_next_fault_def fs_query_def fs_tick_def fs_put_def
        demo_fs_def recover_def cleanup_expired_def expired_ids_def Let_def split: prod.split)
  obtain app where b: "build demo_app_lib demo_resolved st = Some app"
    by (simp add: build_def demo_config_defs demo_app_lib_def max_permits_def)
  have d: "directory (rc_logging demo_resolved) = ?d" "rc_tls demo_resolved = None" by (simp_all add: demo_resolved_def)
  from assms show ?thesis
    by (auto simp: demo_unwatched_round_def demo_round_def o b d resolve_tls_server_def Let_def
        split: option.splits prod.splits sum.splits management_action.splits dest!: shutdown_error)
qed

theorem failed_handler_stops_service_witness:
  "TasksStopping ServerShutdown \<in> set (fst (run_loop demo_app_lib demo_tls_lib ''/etc/api/logs'' [demo_unwatched_round]
     demo_resolved (demo_fs [] (\<lambda>_. None))))"
proof -
  obtain evs r where l: "run_loop demo_app_lib demo_tls_lib ''/etc/api/logs'' [demo_unwatched_round] demo_resolved
      (demo_fs [] (\<lambda>_. None)) = (evs, r)" by fastforce
  have d: "directory (rc_logging demo_resolved) = ''/etc/api/logs''" by (simp add: demo_resolved_def)
  have "\<not> sg_ctrl_c demo_signals" by (simp add: demo_signals_def)
  from failed_handler_stops_service [OF l d conjunct1 [OF demo_serving [OF l]] this demo_unwatched] demo_serving [OF l] l show ?thesis by simp
qed

end
