(* ===== verification/Service.thy ===== *)
theory Service
  imports Runtime "HOL-Library.Sublist"
begin

text \<open>
  Windows Service (\<open>src/src/service.rs\<close>): the commands that install, start, stop and remove the
  service, the start of the dispatcher, and the main function of the service as a step relation, because
  the control handler, the thread that waits for the stop event and the main function run side by side.
  The Service Control Manager is the log of the calls made to it together with the answers it gives, so
  no behaviour of it is assumed.
\<close>

section \<open>The Service Control Manager\<close>

datatype service_state =
  SvcStopped | SvcStartPending | SvcStopPending | SvcRunning | SvcContinuePending | SvcPausePending | SvcPaused

datatype service_access = QueryStatus | StartAccess | StopAccess | DeleteAccess | ChangeConfig

datatype manager_access = Connect | CreateServiceAccess

text \<open>\<open>ServiceInfo\<close>; service type, start type and error control are always own process, automatic and normal.\<close>

record service_info =
  si_name :: string
  si_display_name :: string
  si_executable_path :: string
  si_launch_arguments :: "string list"
  si_dependencies :: "string list"
  si_account_name :: "string option"
  si_account_password :: "string option"

datatype scm_call =
    LocalComputer "manager_access list"
  | CreateService service_info "service_access list"
  | SetDescription string
  | OpenService string "service_access list"
  | StartService "string list"
  | StopService
  | QueryServiceStatus
  | DeleteService
  | StartDispatcher string

datatype scm_reply = ScmDone | ScmState service_state | ScmFailed

record scm =
  scm_log :: "scm_call list"
  scm_replies :: "nat \<Rightarrow> scm_reply"

definition scm_call :: "scm_call \<Rightarrow> service_error \<Rightarrow> scm \<Rightarrow> (error + scm_reply) \<times> scm" where
  "scm_call c e M =
     (let r = scm_replies M (length (scm_log M)); M' = M\<lparr>scm_log := scm_log M @ [c]\<rparr> in
      (if r = ScmFailed then Inl (ServiceError e) else Inr r, M'))"

text \<open>\<open>?\<close> on a call: the next step runs only when the call succeeded.\<close>

definition scm_then ::
  "(error + 'a) \<times> scm \<Rightarrow> ('a \<Rightarrow> scm \<Rightarrow> (error + 'b) \<times> scm) \<Rightarrow> (error + 'b) \<times> scm" where
  "scm_then w k = (case w of (Inl e, M) \<Rightarrow> (Inl e, M) | (Inr x, M) \<Rightarrow> k x M)"

section \<open>Commands\<close>

text \<open>The process-wide \<open>OnceLock\<close>s.\<close>

record service_statics =
  CONFIG_PATH :: "string option"
  SERVICE_NAME :: "string option"

definition once_set :: "string option \<Rightarrow> string \<Rightarrow> error \<Rightarrow> error + string option" where
  "once_set cell v e = (case cell of None \<Rightarrow> Inr (Some v) | Some _ \<Rightarrow> Inl e)"

definition windows_run ::
  "config_env \<Rightarrow> string \<Rightarrow> service_statics \<Rightarrow> scm \<Rightarrow> (error + unit) \<times> service_statics \<times> scm" where
  "windows_run E config_path g M =
     (case snd (load E config_path) of
        Inl e \<Rightarrow> (Inl e, g, M)
      | Inr c \<Rightarrow>
         (case once_set (CONFIG_PATH g) (source_path c) (ServiceError ServiceConfigPathSet) of
            Inl e \<Rightarrow> (Inl e, g, M)
          | Inr p \<Rightarrow>
             (let g1 = g\<lparr>CONFIG_PATH := p\<rparr> in
              case once_set (SERVICE_NAME g1) (service_name (rc_windows_service c)) (ServiceError ServiceNameSet) of
                Inl e \<Rightarrow> (Inl e, g1, M)
              | Inr n \<Rightarrow>
                 (let g2 = g1\<lparr>SERVICE_NAME := n\<rparr> in
                  case scm_call (StartDispatcher (service_name (rc_windows_service c))) ServiceDispatcher M of
                    (Inl e, M') \<Rightarrow> (Inl e, g2, M')
                  | (Inr _, M') \<Rightarrow> (Inr (), g2, M')))))"

definition manager_and_config :: "config_env \<Rightarrow> string \<Rightarrow> scm \<Rightarrow> (error + resolved_config) \<times> scm" where
  "manager_and_config E config_path M =
     (case snd (load E config_path) of
        Inl e \<Rightarrow> (Inl e, M)
      | Inr c \<Rightarrow> scm_then (scm_call (LocalComputer [Connect]) ServiceManagerFailed M) (\<lambda>_ M1. (Inr c, M1)))"

definition install_info :: "string \<Rightarrow> resolved_config \<Rightarrow> service_info" where
  "install_info exe c =
     \<lparr>si_name = service_name (rc_windows_service c),
      si_display_name = service_display_name (rc_windows_service c),
      si_executable_path = exe,
      si_launch_arguments = [''service'', ''run'', ''--config'', source_path c],
      si_dependencies = [],
      si_account_name = account_name (service_account (rc_windows_service c)),
      si_account_password = None\<rparr>"

text \<open>\<open>exe\<close> is \<open>current_exe()?.canonicalize()\<close>.\<close>

definition windows_install :: "config_env \<Rightarrow> string option \<Rightarrow> string \<Rightarrow> scm \<Rightarrow> (error + unit) \<times> scm" where
  "windows_install E exe config_path M =
     (case snd (load E config_path) of
        Inl e \<Rightarrow> (Inl e, M)
      | Inr c \<Rightarrow>
         (case exe of
            None \<Rightarrow> (Inl (ServiceError ServiceExecutable), M)
          | Some executable \<Rightarrow>
              scm_then (scm_call (LocalComputer [Connect, CreateServiceAccess]) ServiceManagerFailed M) (\<lambda>_ M1.
              scm_then (scm_call (CreateService (install_info executable c)
                 [QueryStatus, StartAccess, StopAccess, DeleteAccess, ChangeConfig]) ServiceCreate M1) (\<lambda>_ M2.
              scm_then (scm_call (SetDescription (service_description (rc_windows_service c))) ServiceDescription M2) (\<lambda>_ M3.
              (Inr (), M3))))))"

definition windows_start :: "config_env \<Rightarrow> string \<Rightarrow> scm \<Rightarrow> (error + unit) \<times> scm" where
  "windows_start E config_path M =
     scm_then (manager_and_config E config_path M) (\<lambda>c M1.
     scm_then (scm_call (OpenService (service_name (rc_windows_service c)) [StartAccess]) ServiceOpen M1) (\<lambda>_ M2.
     scm_then (scm_call (StartService []) ServiceStart M2) (\<lambda>_ M3. (Inr (), M3))))"

definition windows_stop :: "config_env \<Rightarrow> string \<Rightarrow> scm \<Rightarrow> (error + unit) \<times> scm" where
  "windows_stop E config_path M =
     scm_then (manager_and_config E config_path M) (\<lambda>c M1.
     scm_then (scm_call (OpenService (service_name (rc_windows_service c)) [StopAccess, QueryStatus]) ServiceOpen M1) (\<lambda>_ M2.
     scm_then (scm_call StopService ServiceStop M2) (\<lambda>_ M3. (Inr (), M3))))"

definition stop_unless_stopped :: "scm_reply \<Rightarrow> scm \<Rightarrow> scm" where
  "stop_unless_stopped q M =
     (if q \<noteq> ScmState SvcStopped then snd (scm_call StopService ServiceStop M) else M)"

definition windows_uninstall :: "config_env \<Rightarrow> string \<Rightarrow> scm \<Rightarrow> (error + unit) \<times> scm" where
  "windows_uninstall E config_path M =
     scm_then (manager_and_config E config_path M) (\<lambda>c M1.
     scm_then (scm_call (OpenService (service_name (rc_windows_service c)) [DeleteAccess, StopAccess, QueryStatus]) ServiceOpen M1) (\<lambda>_ M2.
     scm_then (scm_call QueryServiceStatus ServiceQuery M2) (\<lambda>q M3.
     scm_then (scm_call DeleteService ServiceDelete (stop_unless_stopped q M3)) (\<lambda>_ M5. (Inr (), M5)))))"

text \<open>On other systems every command fails.\<close>

fun service_run :: "os \<Rightarrow> config_env \<Rightarrow> string \<Rightarrow> service_statics \<Rightarrow> scm \<Rightarrow> (error + unit) \<times> service_statics \<times> scm" where
  "service_run Windows E p g M = windows_run E p g M"
| "service_run Unix E p g M = (Inl (ServiceError ServiceUnsupported), g, M)"

fun service_install :: "os \<Rightarrow> config_env \<Rightarrow> string option \<Rightarrow> string \<Rightarrow> scm \<Rightarrow> (error + unit) \<times> scm" where
  "service_install Windows E exe p M = windows_install E exe p M"
| "service_install Unix E exe p M = (Inl (ServiceError ServiceUnsupported), M)"

fun service_start :: "os \<Rightarrow> config_env \<Rightarrow> string \<Rightarrow> scm \<Rightarrow> (error + unit) \<times> scm" where
  "service_start Windows E p M = windows_start E p M"
| "service_start Unix E p M = (Inl (ServiceError ServiceUnsupported), M)"

fun service_stop :: "os \<Rightarrow> config_env \<Rightarrow> string \<Rightarrow> scm \<Rightarrow> (error + unit) \<times> scm" where
  "service_stop Windows E p M = windows_stop E p M"
| "service_stop Unix E p M = (Inl (ServiceError ServiceUnsupported), M)"

fun service_uninstall :: "os \<Rightarrow> config_env \<Rightarrow> string \<Rightarrow> scm \<Rightarrow> (error + unit) \<times> scm" where
  "service_uninstall Windows E p M = windows_uninstall E p M"
| "service_uninstall Unix E p M = (Inl (ServiceError ServiceUnsupported), M)"

section \<open>The main function of the service\<close>

record scm_status =
  ss_current_state :: service_state
  ss_accepts_stop :: bool
  ss_win32_exit_code :: u32
  ss_checkpoint :: u32
  ss_wait_hint_seconds :: u64

definition service_status :: "service_state \<Rightarrow> bool \<Rightarrow> u32 \<Rightarrow> scm_status" where
  "service_status state accepts_stop checkpoint =
     \<lparr>ss_current_state = state, ss_accepts_stop = accepts_stop, ss_win32_exit_code = 0,
      ss_checkpoint = checkpoint, ss_wait_hint_seconds = (if checkpoint = 0 then 0 else 10)\<rparr>"

datatype service_control = StopControl | Interrogate | OtherControl nat

datatype handler_result = HandlerNoError | HandlerNotImplemented

text \<open>
  Where the main function and the thread that waits for the stop event stand, the messages in the
  two channels, and the statuses that were set, in order. The handler holds the only sender of the stop
  channel, so the channel closes when the control dispatcher drops it.
\<close>

datatype main_pc =
    AtRegister | AtStartPending | AtBuildRuntime | AtRunning | AtSpawn | AtBlockOn
  | AtStopped "error + unit" | MainReturned "error + unit" | MainUnwound

datatype thread_pc = NotSpawned | AtRecv | AtStopPending | AtSend | ThreadEnded

record service_main =
  sm_main :: main_pc
  sm_thread :: thread_pc
  sm_handler :: bool
  sm_stop_events :: nat
  sm_shutdown_sent :: bool
  sm_statuses :: "scm_status list"
  sm_controls :: "service_control list"

definition run_service_main_start :: "service_statics \<Rightarrow> service_main" where
  "run_service_main_start g =
     \<lparr>sm_main =
        (case SERVICE_NAME g of
           None \<Rightarrow> MainReturned (Inl (ServiceError ServiceNameMissing))
         | Some _ \<Rightarrow>
            (case CONFIG_PATH g of
               None \<Rightarrow> MainReturned (Inl (ServiceError ServiceConfigPathMissing))
             | Some _ \<Rightarrow> AtRegister)),
      sm_thread = NotSpawned, sm_handler = False, sm_stop_events = 0,
      sm_shutdown_sent = False, sm_statuses = [], sm_controls = []\<rparr>"

fun control_handler :: "service_control \<Rightarrow> service_main \<Rightarrow> handler_result \<times> service_main" where
  "control_handler StopControl s = (HandlerNoError, s\<lparr>sm_stop_events := Suc (sm_stop_events s)\<rparr>)"
| "control_handler Interrogate s = (HandlerNoError, s)"
| "control_handler (OtherControl n) s = (HandlerNotImplemented, s)"

definition set_service_status :: "scm_status \<Rightarrow> service_main \<Rightarrow> service_main" where
  "set_service_status st s = s\<lparr>sm_statuses := sm_statuses s @ [st]\<rparr>"

text \<open>
  A status that could not be set is not seen by anyone; the main function then returns at once, the
  thread goes on. \<open>runtime::run\<close> may return at any time, with any result: because of the
  shutdown message, a request to the management endpoints, or an error; or it may panic.
\<close>

inductive service_step :: "service_main \<Rightarrow> service_main \<Rightarrow> bool" where
  svc_register: "sm_main s = AtRegister \<Longrightarrow> service_step s (s\<lparr>sm_main := AtStartPending, sm_handler := True\<rparr>)"
| svc_register_fails: "sm_main s = AtRegister \<Longrightarrow>
    service_step s (s\<lparr>sm_main := MainReturned (Inl (ServiceError ServiceRegister))\<rparr>)"
| svc_start_pending: "sm_main s = AtStartPending \<Longrightarrow>
    service_step s (set_service_status (service_status SvcStartPending False 1) s\<lparr>sm_main := AtBuildRuntime\<rparr>)"
| svc_build: "sm_main s = AtBuildRuntime \<Longrightarrow> service_step s (s\<lparr>sm_main := AtRunning\<rparr>)"
| svc_build_fails: "sm_main s = AtBuildRuntime \<Longrightarrow>
    service_step s (s\<lparr>sm_main := MainReturned (Inl (ServiceError ServiceRuntime))\<rparr>)"
| svc_running: "sm_main s = AtRunning \<Longrightarrow>
    service_step s (set_service_status (service_status SvcRunning True 0) s\<lparr>sm_main := AtSpawn\<rparr>)"
| svc_spawn: "sm_main s = AtSpawn \<Longrightarrow> service_step s (s\<lparr>sm_main := AtBlockOn, sm_thread := AtRecv\<rparr>)"
| svc_run_ends: "sm_main s = AtBlockOn \<Longrightarrow> service_step s (s\<lparr>sm_main := AtStopped r\<rparr>)"
| svc_run_panics: "sm_main s = AtBlockOn \<Longrightarrow> service_step s (s\<lparr>sm_main := MainUnwound\<rparr>)"
| svc_stopped: "sm_main s = AtStopped r \<Longrightarrow>
    service_step s (set_service_status (service_status SvcStopped False 0) s\<lparr>sm_main := MainReturned r\<rparr>)"
| svc_status_fails: "sm_main s \<in> {AtStartPending, AtRunning, AtStopped r} \<Longrightarrow>
    service_step s (s\<lparr>sm_main := MainReturned (Inl (ServiceError ServiceStatus))\<rparr>)"
| svc_control: "sm_handler s \<Longrightarrow>
    service_step s (snd (control_handler c s)\<lparr>sm_controls := sm_controls s @ [c]\<rparr>)"
| svc_handler_dropped: "sm_handler s \<Longrightarrow> service_step s (s\<lparr>sm_handler := False\<rparr>)"
| thr_recv: "sm_thread s = AtRecv \<Longrightarrow> sm_stop_events s = Suc n \<Longrightarrow>
    service_step s (s\<lparr>sm_thread := AtStopPending, sm_stop_events := n\<rparr>)"
| thr_closed: "sm_thread s = AtRecv \<Longrightarrow> sm_stop_events s = 0 \<Longrightarrow> \<not> sm_handler s \<Longrightarrow> sm_main s \<noteq> AtRegister \<Longrightarrow>
    service_step s (s\<lparr>sm_thread := ThreadEnded\<rparr>)"
| thr_stop_pending: "sm_thread s = AtStopPending \<Longrightarrow>
    service_step s (set_service_status (service_status SvcStopPending False 1) s\<lparr>sm_thread := AtSend\<rparr>)"
| thr_status_fails: "sm_thread s = AtStopPending \<Longrightarrow> service_step s (s\<lparr>sm_thread := AtSend\<rparr>)"
| thr_send: "sm_thread s = AtSend \<Longrightarrow>
    service_step s (s\<lparr>sm_thread := ThreadEnded, sm_shutdown_sent := True\<rparr>)"

section \<open>Commands\<close>

lemma scm_then_simps [simp]:
  "scm_then (Inl e, M) k = (Inl e, M)" "scm_then (Inr x, M) k = k x M"
  by (simp_all add: scm_then_def)

lemma scm_then_ok:
  "scm_then w k = (Inr y, M') \<longleftrightarrow> (\<exists>x M1. w = (Inr x, M1) \<and> k x M1 = (Inr y, M'))"
  by (auto simp: scm_then_def split: prod.splits sum.splits)

lemma scm_call_ok:
  "scm_call c e M = (Inr r, M') \<longleftrightarrow>
     r = scm_replies M (length (scm_log M)) \<and> r \<noteq> ScmFailed \<and> M' = M\<lparr>scm_log := scm_log M @ [c]\<rparr>"
  by (auto simp: scm_call_def Let_def)

lemma manager_and_config_ok:
  "manager_and_config E p M = (Inr c, M') \<longleftrightarrow>
     snd (load E p) = Inr c \<and> scm_replies M (length (scm_log M)) \<noteq> ScmFailed \<and>
     M' = M\<lparr>scm_log := scm_log M @ [LocalComputer [Connect]]\<rparr>"
  by (auto simp: manager_and_config_def scm_then_ok scm_call_ok split: sum.splits)

text \<open>
  Removing the service: it succeeds only on Windows with a configuration that loads; then the
  service of the configured name was opened with the rights to delete, stop and query it, asked to stop
  exactly when its state was not stopped, whatever the answer, and marked for deletion last.
\<close>

theorem uninstall_exact:
  "service_uninstall platform E p M = (Inr (), M') \<longleftrightarrow>
     platform = Windows \<and>
     (\<exists>c n q. snd (load E p) = Inr c \<and> n = length (scm_log M) \<and>
        scm_replies M n \<noteq> ScmFailed \<and> scm_replies M (n + 1) \<noteq> ScmFailed \<and>
        scm_replies M (n + 2) = q \<and> q \<noteq> ScmFailed \<and>
        scm_replies M (if q = ScmState SvcStopped then n + 3 else n + 4) \<noteq> ScmFailed \<and>
        M' = M\<lparr>scm_log := scm_log M @
          [LocalComputer [Connect],
           OpenService (service_name (rc_windows_service c)) [DeleteAccess, StopAccess, QueryStatus],
           QueryServiceStatus] @ (if q = ScmState SvcStopped then [] else [StopService]) @ [DeleteService]\<rparr>)"
  by (cases platform)
    (auto simp: windows_uninstall_def scm_then_ok scm_call_ok manager_and_config_ok stop_unless_stopped_def
      scm_call_def Let_def eval_nat_numeral)

section \<open>The protocol with the Service Control Manager\<close>

abbreviation start_pending :: scm_status where "start_pending \<equiv> service_status SvcStartPending False 1"
abbreviation running :: scm_status where "running \<equiv> service_status SvcRunning True 0"
abbreviation stop_pending :: scm_status where "stop_pending \<equiv> service_status SvcStopPending False 1"
abbreviation stopped :: scm_status where "stopped \<equiv> service_status SvcStopped False 0"

definition main_statuses :: "service_main \<Rightarrow> scm_status list" where
  "main_statuses s = filter (\<lambda>x. x \<noteq> stop_pending) (sm_statuses s)"

fun main_progress :: "main_pc \<Rightarrow> scm_status list \<Rightarrow> bool" where
  "main_progress AtRegister f = (f = [])"
| "main_progress AtStartPending f = (f = [])"
| "main_progress AtBuildRuntime f = (f = [start_pending])"
| "main_progress AtRunning f = (f = [start_pending])"
| "main_progress (MainReturned _) f = prefix f [start_pending, running, stopped]"
| "main_progress _ f = (f = [start_pending, running])"

definition before_spawn :: "main_pc \<Rightarrow> bool" where
  "before_spawn pc \<longleftrightarrow> pc \<in> {AtRegister, AtStartPending, AtBuildRuntime, AtRunning, AtSpawn}"

definition stop_after_running :: "scm_status list \<Rightarrow> bool" where
  "stop_after_running xs \<longleftrightarrow>
     (stop_pending \<in> set xs \<longrightarrow> running \<in> set (takeWhile (\<lambda>x. x \<noteq> stop_pending) xs)) \<and> count_list xs stop_pending \<le> 1"

definition service_inv :: "service_main \<Rightarrow> bool" where
  "service_inv s \<longleftrightarrow>
     main_progress (sm_main s) (main_statuses s) \<and>
     (before_spawn (sm_main s) \<longrightarrow> sm_thread s = NotSpawned) \<and>
     (sm_thread s \<noteq> NotSpawned \<longrightarrow> running \<in> set (sm_statuses s)) \<and>
     (sm_thread s \<in> {NotSpawned, AtRecv, AtStopPending} \<longrightarrow> stop_pending \<notin> set (sm_statuses s)) \<and>
     stop_after_running (sm_statuses s) \<and>
     (sm_thread s \<noteq> ThreadEnded \<longrightarrow> \<not> sm_shutdown_sent s) \<and>
     (sm_stop_events s \<noteq> 0 \<or> sm_thread s \<in> {AtStopPending, AtSend} \<or> sm_shutdown_sent s \<or>
        stop_pending \<in> set (sm_statuses s) \<longrightarrow> StopControl \<in> set (sm_controls s))"

lemma statuses_distinct [simp]:
  "start_pending \<noteq> stop_pending" "running \<noteq> stop_pending" "stopped \<noteq> stop_pending" "stop_pending \<noteq> stopped"
  "stop_pending \<noteq> running" "stop_pending \<noteq> start_pending" "running \<noteq> start_pending" "running \<noteq> stopped"
  "start_pending \<noteq> running" "start_pending \<noteq> stopped" "stopped \<noteq> running"
  by (simp_all add: service_status_def)

lemma running_reported:
  "main_progress pc (filter (\<lambda>x. x \<noteq> stop_pending) xs) \<Longrightarrow> pc \<in> {AtSpawn, AtBlockOn, MainUnwound} \<or> (\<exists>r. pc = AtStopped r) \<Longrightarrow>
     running \<in> set xs"
  by (cases pc) (auto dest!: arg_cong [where f = set])

lemma stop_after_running_append [simp]:
  "stop_after_running []"
  "x \<noteq> stop_pending \<Longrightarrow> stop_after_running xs \<Longrightarrow> stop_after_running (xs @ [x])"
  "stop_pending \<notin> set xs \<Longrightarrow> running \<in> set xs \<Longrightarrow> stop_after_running (xs @ [stop_pending])"
  by (auto simp: stop_after_running_def takeWhile_append count_list_0_iff)

lemmas service_inv_defs = service_inv_def main_statuses_def before_spawn_def set_service_status_def

lemma service_step_inv: "service_step s s' \<Longrightarrow> service_inv s \<Longrightarrow> service_inv s'"
proof (induction rule: service_step.induct)
  case (svc_control s c)
  then show ?case by (cases c) (auto simp: service_inv_defs)
next
  case (svc_spawn s)
  then show ?case using running_reported [of "sm_main s" "sm_statuses s"]
    by (auto simp: service_inv_defs)
next
  case (svc_status_fails s r)
  then show ?case by (elim insertE emptyE) (auto simp: service_inv_defs)
qed (auto simp: service_inv_defs)

lemma service_reach_inv:
  assumes "service_step\<^sup>*\<^sup>* (run_service_main_start g) s"
  shows "service_inv s"
  using assms
proof (induction rule: rtranclp_induct)
  case base
  show ?case by (auto simp: run_service_main_start_def service_inv_defs split: option.split)
qed (auto dest: service_step_inv)

text \<open>
  C28. What the Service Control Manager is told: in every interleaving the main function reports start
  pending, running and stopped in this order, stop is accepted only while running, no error is ever
  reported, and stop pending is reported at most once, only after running was; that report
  and the shutdown of the server only ever follow a stop control.
\<close>

theorem service_protocol:
  assumes "service_step\<^sup>*\<^sup>* (run_service_main_start g) s"
  shows "prefix (filter (\<lambda>x. x \<noteq> stop_pending) (sm_statuses s)) [start_pending, running, stopped] \<and>
    (\<forall>st\<in>set (sm_statuses s). ss_win32_exit_code st = 0 \<and> (ss_accepts_stop st \<longleftrightarrow> ss_current_state st = SvcRunning)) \<and>
    (\<forall>xs ys. sm_statuses s = xs @ stop_pending # ys \<longrightarrow> running \<in> set xs \<and> stop_pending \<notin> set (xs @ ys)) \<and>
    (sm_shutdown_sent s \<or> stop_pending \<in> set (sm_statuses s) \<longrightarrow> StopControl \<in> set (sm_controls s))"
proof -
  from service_reach_inv [OF assms] have inv: "service_inv s" .
  then have pre: "prefix (filter (\<lambda>x. x \<noteq> stop_pending) (sm_statuses s)) [start_pending, running, stopped]"
    by (cases "sm_main s") (auto simp: service_inv_def main_statuses_def)
  then have "set (filter (\<lambda>x. x \<noteq> stop_pending) (sm_statuses s)) \<subseteq> {start_pending, running, stopped}"
    using set_mono_prefix by fastforce
  then have mem: "set (sm_statuses s) \<subseteq> {start_pending, running, stopped, stop_pending}" by auto
  have "ss_win32_exit_code st = 0 \<and> (ss_accepts_stop st \<longleftrightarrow> ss_current_state st = SvcRunning)"
    if "st \<in> set (sm_statuses s)" for st
    using that mem by (auto simp: service_status_def)
  moreover have "running \<in> set xs \<and> stop_pending \<notin> set (xs @ ys)" if "sm_statuses s = xs @ stop_pending # ys" for xs ys
  proof -
    from inv that have c: "count_list (xs @ stop_pending # ys) stop_pending \<le> 1"
      and r: "running \<in> set (takeWhile (\<lambda>x. x \<noteq> stop_pending) (xs @ stop_pending # ys))"
      by (auto simp: service_inv_def stop_after_running_def)
    from c have no: "stop_pending \<notin> set (xs @ ys)" by (auto simp: count_list_0_iff)
    with r show ?thesis by (auto simp: takeWhile_append split: if_splits)
  qed
  ultimately show ?thesis using pre inv by (auto simp: service_inv_def)
qed

definition demo_statics :: service_statics where
  "demo_statics = \<lparr>CONFIG_PATH = Some ''C:/config.yaml'', SERVICE_NAME = Some ''command-api''\<rparr>"

definition after_stopped :: service_main where
  "after_stopped =
     \<lparr>sm_main = MainReturned (Inr ()), sm_thread = AtSend, sm_handler = True, sm_stop_events = 0,
      sm_shutdown_sent = False, sm_statuses = [start_pending, running, stopped, stop_pending],
      sm_controls = [StopControl]\<rparr>"

lemma stop_pending_after_stopped: "service_step\<^sup>*\<^sup>* (run_service_main_start demo_statics) after_stopped"
proof -
  let ?mk = "\<lambda>m t n xs. \<lparr>sm_main = m, sm_thread = t, sm_handler = True, sm_stop_events = n,
     sm_shutdown_sent = False, sm_statuses = xs, sm_controls = [StopControl]\<rparr>"
  let ?x = "run_service_main_start demo_statics"
  let ?y = "?x\<lparr>sm_main := AtStartPending, sm_handler := True\<rparr>"
  have a: "service_step ?x ?y"
    by (rule svc_register) (simp add: run_service_main_start_def demo_statics_def)
  have "service_step ?y (snd (control_handler StopControl ?y)\<lparr>sm_controls := sm_controls ?y @ [StopControl]\<rparr>)"
    by (rule svc_control) simp
  then have b: "service_step ?y (?mk AtStartPending NotSpawned 1 [])"
    by (simp add: run_service_main_start_def demo_statics_def)
  have c: "service_step (?mk AtStartPending NotSpawned 1 []) (?mk AtBuildRuntime NotSpawned 1 [start_pending])"
    using svc_start_pending [of "?mk AtStartPending NotSpawned 1 []"] by (simp add: set_service_status_def)
  have d: "service_step (?mk AtBuildRuntime NotSpawned 1 [start_pending]) (?mk AtRunning NotSpawned 1 [start_pending])"
    using svc_build [of "?mk AtBuildRuntime NotSpawned 1 [start_pending]"] by simp
  have e: "service_step (?mk AtRunning NotSpawned 1 [start_pending]) (?mk AtSpawn NotSpawned 1 [start_pending, running])"
    using svc_running [of "?mk AtRunning NotSpawned 1 [start_pending]"] by (simp add: set_service_status_def)
  have f: "service_step (?mk AtSpawn NotSpawned 1 [start_pending, running]) (?mk AtBlockOn AtRecv 1 [start_pending, running])"
    using svc_spawn [of "?mk AtSpawn NotSpawned 1 [start_pending, running]"] by simp
  have g: "service_step (?mk AtBlockOn AtRecv 1 [start_pending, running]) (?mk AtBlockOn AtStopPending 0 [start_pending, running])"
    using thr_recv [of "?mk AtBlockOn AtRecv 1 [start_pending, running]" 0] by simp
  have h: "service_step (?mk AtBlockOn AtStopPending 0 [start_pending, running]) (?mk (AtStopped (Inr ())) AtStopPending 0 [start_pending, running])"
    using svc_run_ends [of "?mk AtBlockOn AtStopPending 0 [start_pending, running]" "Inr ()"] by simp
  have i: "service_step (?mk (AtStopped (Inr ())) AtStopPending 0 [start_pending, running])
      (?mk (MainReturned (Inr ())) AtStopPending 0 [start_pending, running, stopped])"
    using svc_stopped [of "?mk (AtStopped (Inr ())) AtStopPending 0 [start_pending, running]" "Inr ()"] by (simp add: set_service_status_def)
  have j: "service_step (?mk (MainReturned (Inr ())) AtStopPending 0 [start_pending, running, stopped]) after_stopped"
    using thr_stop_pending [of "?mk (MainReturned (Inr ())) AtStopPending 0 [start_pending, running, stopped]"]
    by (simp add: set_service_status_def after_stopped_def)
  from a b c d e f g h i j show ?thesis by (meson rtranclp.rtrancl_refl converse_rtranclp_into_rtranclp)
qed

text \<open>
  The witness is a run in which the server stops on its own (a management request) while a stop
  control is being handled: stop pending is then reported after stopped.
\<close>

theorem service_protocol_witness:
  "service_step\<^sup>*\<^sup>* (run_service_main_start demo_statics) after_stopped \<and>
   StopControl \<in> set (sm_controls after_stopped) \<and> last (sm_statuses after_stopped) = stop_pending"
  using service_protocol [OF stop_pending_after_stopped] stop_pending_after_stopped by (simp add: after_stopped_def)

end
