(* ===== verification/Cli.thy ===== *)
theory Cli
  imports Service Worker
begin

text \<open>
  The command line (\<open>src/src/main.rs\<close>): the commands, the reading of a token, the dispatch to the
  components, and the exit code of the process. Argument parsing is clap's, a parameter: it returns a
  command or ends the process itself with an exit code.
\<close>

section \<open>Commands\<close>

datatype secret_action =
    Generate (g_output: string) (g_scope: dpapi_scope)
  | Protect (p_output: string) (p_scope: dpapi_scope) (p_stdin: bool)
  | Hash (h_stdin: bool) (h_rounds: u32)

datatype service_action =
    ServiceRun string | ServiceInstall string | ServiceActionStart string | ServiceActionStop string | ServiceUninstall string

datatype command = CmdRun string | CmdService service_action | CmdSecret secret_action

text \<open>
  What the process meets: standard input to its end, the answers at the password prompts, whether the
  asynchronous runtime can be built and standard output can be written, the path of the executable, and
  the two random UUIDs of a generated token.
\<close>

record cli_lib =
  cl_os :: os
  cl_parse :: "string list \<Rightarrow> int + command"
  cl_stdin :: "bytes option"
  cl_prompt :: "nat \<Rightarrow> string option"
  cl_runtime_ok :: bool
  cl_stdout_ok :: bool
  cl_exe :: "string option"
  cl_uuid_simple :: "uuid \<Rightarrow> string"
  cl_uuid1 :: uuid
  cl_uuid2 :: uuid

text \<open>\<open>read_to_string\<close> fails on input that is not UTF-8.\<close>

definition read_token :: "cli_lib \<Rightarrow> bool \<Rightarrow> error + string" where
  "read_token C stdin =
     (if stdin then
        and_then (or_err (cl_stdin C) (CliError StdinUnreadable)) (\<lambda>value.
        and_then (bail_if (\<not> utf8_valid value) (CliError StdinUnreadable)) (\<lambda>_.
        Inr (take (length (trim_end_matches [CR, LF] value)) value)))
      else
        and_then (or_err (cl_prompt C 0) (CliError PromptFailed)) (\<lambda>first.
        and_then (or_err (cl_prompt C 1) (CliError PromptFailed)) (\<lambda>second.
        and_then (bail_if (first \<noteq> second) (CliError TokensDiffer)) (\<lambda>_.
        Inr first))))"

datatype cli_end = CliDone "error + unit" | CliExit int | CliPanicked | CliServing

text \<open>\<open>println!\<close> panics when standard output cannot be written.\<close>

definition println :: "cli_lib \<Rightarrow> string \<Rightarrow> string list \<times> cli_end" where
  "println C line = (if cl_stdout_ok C then ([line], CliDone (Inr ())) else ([], CliPanicked))"

definition hash_yaml :: "string \<Rightarrow> string" where
  "hash_yaml hash =
     ''auth:'' @ [LF] @ ''  token:'' @ [LF] @ ''    provider: pbkdf2_sha256'' @ [LF] @
     ''    hash: '' @ [CHR 0x22] @ hash @ [CHR 0x22]"

fun secret_command :: "cli_lib \<Rightarrow> config_env \<Rightarrow> secret_action \<Rightarrow> string list \<times> key_files \<times> cli_end" where
  "secret_command C E (Generate output scope) =
     (case generate_and_protect (cl_uuid_simple C) (cl_uuid1 C) (cl_uuid2 C) (ce_dpapi E) (cl_os C) (ce_keys E) output scope of
        (F, Inl e) \<Rightarrow> ([], F, CliDone (Inl e))
      | (F, Inr token) \<Rightarrow> (let (out, r) = println C token in (out, F, r)))"
| "secret_command C E (Protect output scope stdin) =
     (case read_token C stdin of
        Inl e \<Rightarrow> ([], ce_keys E, CliDone (Inl e))
      | Inr token \<Rightarrow>
         (case protect_to_file (ce_dpapi E) (cl_os C) (ce_keys E) token output scope of
            (F, r) \<Rightarrow> ([], F, CliDone r)))"
| "secret_command C E (Hash stdin rounds) =
     (case read_token C stdin of
        Inl e \<Rightarrow> ([], ce_keys E, CliDone (Inl e))
      | Inr token \<Rightarrow>
         (case generate_pbkdf2_sha256 (ce_crypto E) token rounds of
            Inl e \<Rightarrow> ([], ce_keys E, CliDone (Inl e))
          | Inr hash \<Rightarrow> (let (out, r) = println C (hash_yaml hash) in (out, ce_keys E, r))))"

fun service_command ::
  "cli_lib \<Rightarrow> config_env \<Rightarrow> service_action \<Rightarrow> service_statics \<Rightarrow> scm \<Rightarrow> (error + unit) \<times> service_statics \<times> scm" where
  "service_command C E (ServiceRun config) g M = service_run (cl_os C) E config g M"
| "service_command C E (ServiceInstall config) g M =
     (let (r, M') = service_install (cl_os C) E (cl_exe C) config M in (r, g, M'))"
| "service_command C E (ServiceActionStart config) g M =
     (let (r, M') = service_start (cl_os C) E config M in (r, g, M'))"
| "service_command C E (ServiceActionStop config) g M =
     (let (r, M') = service_stop (cl_os C) E config M in (r, g, M'))"
| "service_command C E (ServiceUninstall config) g M =
     (let (r, M') = service_uninstall (cl_os C) E config M in (r, g, M'))"

text \<open>How the end of the service loop is seen by \<open>main\<close>.\<close>

fun run_result :: "run_end \<Rightarrow> cli_end" where
  "run_result RunOk = CliDone (Inr ())"
| "run_result (RunErr e) = CliDone (Inl e)"
| "run_result RunPanic = CliPanicked"
| "run_result RunGoing = CliServing"

record cli_out =
  co_stdout :: "string list"
  co_events :: "run_event list"
  co_keys :: key_files
  co_statics :: service_statics
  co_scm :: scm
  co_end :: cli_end

text \<open>What the service loop meets when it runs in this process.\<close>

record host =
  ho_app :: app_lib
  ho_tls :: tls_lib
  ho_logging :: logging_lib
  ho_rounds :: "round list"
  ho_fs :: fs

text \<open>\<open>runtime::run\<close> on the console.\<close>

definition foreground :: "host \<Rightarrow> config_env \<Rightarrow> string \<Rightarrow> run_event list \<times> run_end" where
  "foreground H E config = runtime_run (ho_app H) (ho_tls H) (ho_logging H) E True config (ho_rounds H) (ho_fs H)"

definition cli_run ::
  "cli_lib \<Rightarrow> config_env \<Rightarrow> host \<Rightarrow> service_statics \<Rightarrow> scm \<Rightarrow> string list \<Rightarrow> cli_out" where
  "cli_run C E H g M argv =
     (let out = \<lparr>co_stdout = [], co_events = [], co_keys = ce_keys E, co_statics = g, co_scm = M, co_end = CliServing\<rparr> in
      case cl_parse C argv of
        Inl code \<Rightarrow> out\<lparr>co_end := CliExit code\<rparr>
      | Inr (CmdRun config) \<Rightarrow>
          if \<not> cl_runtime_ok C then out\<lparr>co_end := CliDone (Inl (CliError CliRuntime))\<rparr>
          else (let (evs, r) = foreground H E config in out\<lparr>co_events := evs, co_end := run_result r\<rparr>)
      | Inr (CmdService action) \<Rightarrow>
          (let (r, g', M') = service_command C E action g M in
           out\<lparr>co_statics := g', co_scm := M', co_end := CliDone r\<rparr>)
      | Inr (CmdSecret action) \<Rightarrow>
          (let (lines, F, r) = secret_command C E action in
           out\<lparr>co_stdout := lines, co_keys := F, co_end := r\<rparr>))"

section \<open>The process\<close>

definition worker_mode :: "string list \<Rightarrow> bool" where
  "worker_mode argv = (case drop 1 argv of [] \<Rightarrow> False | a # _ \<Rightarrow> a = ''__worker'')"

text \<open>A panic of the main thread ends the process with 101; a service that is running has not ended.\<close>

fun exit_of :: "cli_end \<Rightarrow> process_end option" where
  "exit_of (CliDone (Inr _)) = Some (ExitedWith 0)"
| "exit_of (CliDone (Inl _)) = Some (ExitedWith 1)"
| "exit_of (CliExit code) = Some (ExitedWith code)"
| "exit_of CliPanicked = Some (ExitedWith 101)"
| "exit_of CliServing = None"

definition main_process :: "string list \<Rightarrow> worker_end \<Rightarrow> (string list \<Rightarrow> cli_out) \<Rightarrow> process_end option" where
  "main_process argv work cli =
     (if worker_mode argv then Some (worker_exit (worker_main work)) else exit_of (co_end (cli argv)))"

section \<open>Properties\<close>

lemma take_trim [simp]: "take (length (trim_end_matches cs v)) v = trim_end_matches cs v"
  using trim_end_matches_spec [of v cs] by (metis append_eq_conv_conj)

lemma trim_line_ends:
  "trim_end_matches [CR, LF] v = token \<longleftrightarrow>
     (\<exists>tail. v = token @ tail \<and> set tail \<subseteq> {CR, LF} \<and> (token = [] \<or> last token \<notin> {CR, LF}))"
    (is "_ \<longleftrightarrow> ?R")
proof
  assume t: "trim_end_matches [CR, LF] v = token"
  have "token = [] \<or> last token \<notin> {CR, LF}"
    using hd_dropWhile [of "\<lambda>c. c \<in> set [CR, LF]" "rev v"]
    by (cases "dropWhile (\<lambda>c. c \<in> set [CR, LF]) (rev v) = []") (simp_all only: t [symmetric] trim_end_matches_def last_rev rev.simps, simp_all)
  moreover obtain tail where "v = token @ tail" "set tail \<subseteq> {CR, LF}"
    using t trim_end_matches_spec [of v "[CR, LF]"] by auto
  ultimately show ?R by blast
next
  assume ?R
  then obtain tail where v: "v = token @ tail" and tail: "\<forall>c\<in>set (rev tail). c \<in> set [CR, LF]"
    and token: "token = [] \<or> last token \<notin> set [CR, LF]" by auto
  have "trim_end_matches [CR, LF] v = rev (dropWhile (\<lambda>c. c \<in> set [CR, LF]) (rev token))"
    using dropWhile_append2 [of "rev tail" "\<lambda>c. c \<in> set [CR, LF]" "rev token"] tail
    by (simp only: trim_end_matches_def v rev_append)
  also have "\<dots> = token" using token by (cases token rule: rev_cases) simp_all
  finally show "trim_end_matches [CR, LF] v = token" .
qed

text \<open>
  The token of \<open>--stdin\<close> is standard input without its trailing line ends, all of them and
  nothing else; the token typed at the terminal is taken as it is, when it was typed twice.
\<close>

theorem read_token_exact:
  "read_token C stdin = Inr token \<longleftrightarrow>
     (if stdin
      then \<exists>tail. cl_stdin C = Some (token @ tail) \<and> utf8_valid (token @ tail) \<and> set tail \<subseteq> {CR, LF} \<and>
             (token = [] \<or> last token \<notin> {CR, LF})
      else cl_prompt C 0 = Some token \<and> cl_prompt C 1 = Some token)"
  by (auto simp: read_token_def result_simps trim_line_ends)

text \<open>What \<open>secret hash\<close> leaves: it writes nothing but the configuration text.\<close>

lemma hash_command_ok:
  assumes "co_end (cli_run C E H g M argv) = CliDone (Inr ())" and "cl_parse C argv = Inr (CmdSecret (Hash stdin rounds))"
  obtains token phc where "read_token C stdin = Inr token" and "generate_pbkdf2_sha256 (ce_crypto E) token rounds = Inr phc"
    and "co_stdout (cli_run C E H g M argv) = [hash_yaml phc]"
  using assms by (auto simp: cli_run_def Let_def println_def split: sum.splits prod.splits if_splits)

text \<open>
  The hash command and the service agree: when \<open>secret hash\<close> succeeds, its output is one
  configuration text whose hash the configuration accepts, and the verifier made from it accepts the
  token that was read.
\<close>

theorem hash_command_roundtrip:
  assumes "co_end (cli_run C E H g M argv) = CliDone (Inr ())" and "cl_parse C argv = Inr (CmdSecret (Hash stdin rounds))"
    and "pbkdf2_ok (ce_crypto E)"
  shows "\<exists>token phc v. read_token C stdin = Inr token \<and> co_stdout (cli_run C E H g M argv) = [hash_yaml phc] \<and>
    from_pbkdf2_sha256 (ce_crypto E) phc = Inr v \<and> fst (verify (ce_crypto E) True v token)"
proof -
  from assms(1,2) obtain token phc where t: "read_token C stdin = Inr token"
    "generate_pbkdf2_sha256 (ce_crypto E) token rounds = Inr phc" "co_stdout (cli_run C E H g M argv) = [hash_yaml phc]"
    by (rule hash_command_ok)
  have "from_pbkdf2_sha256 (ce_crypto E) phc = Inr (Pbkdf2V phc None)"
    "fst (verify (ce_crypto E) True (Pbkdf2V phc None) token)"
    using generated_hash_accepted [OF t(2) assms(3)] by simp_all
  with t show ?thesis by blast
qed

lemma install_ok:
  assumes "service_install platform E exe p M = (Inr (), M')"
  obtains c executable where "snd (load E p) = Inr c" and
    "scm_log M' = scm_log M @ [LocalComputer [Connect, CreateServiceAccess],
       CreateService (install_info executable c) [QueryStatus, StartAccess, StopAccess, DeleteAccess, ChangeConfig],
       SetDescription (service_description (rc_windows_service c))]"
  using assms by (cases platform) (auto simp: windows_install_def scm_then_ok scm_call_ok split: sum.splits option.splits)

text \<open>
  What is documented of clap and of \<open>fs::canonicalize\<close>: a value that is neither empty nor starts with a
  hyphen is taken as it is, and a canonical path is such a value and its own canonical path.
\<close>

definition takes_plain_paths :: "cli_lib \<Rightarrow> string \<Rightarrow> bool" where
  "takes_plain_paths C exe \<longleftrightarrow>
     (\<forall>q. q \<noteq> [] \<and> hd q \<noteq> CHR ''-'' \<longrightarrow>
        cl_parse C [exe, ''service'', ''run'', ''--config'', q] = Inr (CmdService (ServiceRun q)))"

definition canonical_plain :: "config_env \<Rightarrow> string \<Rightarrow> bool" where
  "canonical_plain E p \<longleftrightarrow>
     (\<forall>q. ce_canonicalize E p = Some q \<longrightarrow> ce_canonicalize E q = Some q \<and> q \<noteq> [] \<and> hd q \<noteq> CHR ''-'')"

text \<open>
  C29. The installed service runs the configuration it was installed with: when \<open>service install\<close>
  succeeded, the launch arguments it registered, which name the canonical path of the configuration, make
  the program connect to the Service Control Manager under the registered name, with the same
  configuration file.
\<close>

theorem installed_service_runs:
  assumes "cl_parse C argv = Inr (CmdService (ServiceInstall p))" and "co_end (cli_run C E H g M argv) = CliDone (Inr ())"
    and "takes_plain_paths C' exe" and "cl_os C' = Windows" and "canonical_plain E p"
    and "g' = \<lparr>CONFIG_PATH = None, SERVICE_NAME = None\<rparr>"
  shows "\<exists>info access c x y. scm_log (co_scm (cli_run C E H g M argv)) = scm_log M @ [x, CreateService info access, y] \<and> snd (load E p) = Inr c \<and>
    (let out = cli_run C' E H' g' M' (exe # si_launch_arguments info) in
       co_statics out = \<lparr>CONFIG_PATH = Some (source_path c), SERVICE_NAME = Some (si_name info)\<rparr> \<and>
       scm_log (co_scm out) = scm_log M' @ [StartDispatcher (si_name info)])"
proof -
  from assms(1,2) have "service_install (cl_os C) E (cl_exe C) p M = (Inr (), co_scm (cli_run C E H g M argv))"
    by (auto simp: cli_run_def Let_def split: prod.splits)
  then obtain c executable where c: "snd (load E p) = Inr c"
    and log: "\<exists>x access y. scm_log (co_scm (cli_run C E H g M argv)) =
      scm_log M @ [x, CreateService (install_info executable c) access, y]"
    by (rule install_ok) blast
  from c obtain ds where l: "load E p = (ds, Inr c)" by (metis prod.collapse)
  from load_ok_cases [OF l] obtain src content conf where "ce_canonicalize E p = Some src"
    "ce_read_to_string E src = Some content" "ce_from_yaml E content = Some conf" "resolve E conf src = (ds, Inr c)" .
  with assms(5) resolve_ok(2) have "snd (load E (source_path c)) = Inr c" "source_path c \<noteq> []" "hd (source_path c) \<noteq> CHR ''-''"
    by (simp_all add: load_def canonical_plain_def)
  with assms(3,4,6) have "let out = cli_run C' E H' g' M' (exe # si_launch_arguments (install_info executable c)) in
       co_statics out = \<lparr>CONFIG_PATH = Some (source_path c), SERVICE_NAME = Some (si_name (install_info executable c))\<rparr> \<and>
       scm_log (co_scm out) = scm_log M' @ [StartDispatcher (si_name (install_info executable c))]"
    by (auto simp: takes_plain_paths_def cli_run_def windows_run_def install_info_def once_set_def scm_call_def Let_def
        split: sum.splits prod.splits if_splits)
  with c log show ?thesis by blast
qed

section \<open>Witnesses\<close>

definition demo_cli :: "command \<Rightarrow> cli_lib" where
  "demo_cli c =
     \<lparr>cl_os = Windows, cl_parse = (\<lambda>argv. case argv of
         [exe, a, b, o1, p] \<Rightarrow> if [a, b, o1] = [''service'', ''run'', ''--config''] then Inr (CmdService (ServiceRun p)) else Inr c
       | _ \<Rightarrow> Inr c),
      cl_stdin = Some (demo_token @ [CR, LF]), cl_prompt = (\<lambda>_. None), cl_runtime_ok = True, cl_stdout_ok = True,
      cl_exe = Some ''command-api.exe'', cl_uuid_simple = (\<lambda>_. ''00000000000000000000000000000000''), cl_uuid1 = 0, cl_uuid2 = 1\<rparr>"

definition demo_scm :: scm where
  "demo_scm = \<lparr>scm_log = [], scm_replies = (\<lambda>_. ScmDone)\<rparr>"

definition demo_host :: host where
  "demo_host = \<lparr>ho_app = demo_app_lib, ho_tls = demo_tls_lib, ho_logging = demo_logging, ho_rounds = [demo_round],
     ho_fs = demo_fs [] (\<lambda>_. None)\<rparr>"

definition demo_hash_out :: cli_out where
  "demo_hash_out = cli_run (demo_cli (CmdSecret (Hash True 1000))) demo_env demo_host demo_statics demo_scm
     [''command-api'', ''secret'', ''hash'', ''--stdin'']"

lemma demo_read_token: "read_token (demo_cli c) True = Inr demo_token"
  by (simp add: read_token_def demo_cli_def trim_end_matches_def demo_token_def utf8_valid_def result_simps)

theorem hash_command_roundtrip_witness:
  "\<exists>phc v. co_stdout demo_hash_out = [hash_yaml phc] \<and> from_pbkdf2_sha256 demo_crypto phc = Inr v \<and>
     fst (verify demo_crypto True v demo_token)"
proof -
  have env: "ce_crypto demo_env = demo_crypto" by (simp add: demo_env_def)
  have p: "cl_parse (demo_cli (CmdSecret (Hash True 1000))) [''command-api'', ''secret'', ''hash'', ''--stdin''] =
      Inr (CmdSecret (Hash True 1000))" by (simp add: demo_cli_def)
  have ok: "cl_stdout_ok (demo_cli (CmdSecret (Hash True 1000)))" by (simp add: demo_cli_def)
  have g: "generate_pbkdf2_sha256 demo_crypto demo_token 1000 = Inr demo_phc"
    using demo_token_valid
    by (simp add: generate_pbkdf2_sha256_def demo_crypto_def max_pbkdf2_sha256_rounds_def demo_phc_def bail_if_def)
  have e: "co_end demo_hash_out = CliDone (Inr ())"
    using g p ok by (simp add: demo_hash_out_def cli_run_def env println_def demo_read_token)
  from hash_command_roundtrip [OF e [unfolded demo_hash_out_def] p, unfolded env, OF demo_crypto_ok(2)] demo_read_token
  show ?thesis by (auto simp: demo_hash_out_def)
qed

theorem installed_service_runs_witness:
  "\<exists>info. CreateService info [QueryStatus, StartAccess, StopAccess, DeleteAccess, ChangeConfig] \<in>
       set (scm_log (co_scm (cli_run (demo_cli (CmdService (ServiceInstall ''/etc/api/config.yaml''))) demo_env demo_host
         demo_statics demo_scm [''command-api'', ''service'', ''install'']))) \<and>
     scm_log (co_scm (cli_run (demo_cli (CmdRun ''x'')) demo_env demo_host
       \<lparr>CONFIG_PATH = None, SERVICE_NAME = None\<rparr> demo_scm (''command-api.exe'' # si_launch_arguments info))) =
         [StartDispatcher (si_name info)]"
proof -
  let ?c = "demo_cli (CmdService (ServiceInstall ''/etc/api/config.yaml''))"
  let ?out = "cli_run ?c demo_env demo_host demo_statics demo_scm [''command-api'', ''service'', ''install'']"
  have p: "cl_parse ?c [''command-api'', ''service'', ''install''] = Inr (CmdService (ServiceInstall ''/etc/api/config.yaml''))"
    by (simp add: demo_cli_def)
  have log: "co_end ?out = CliDone (Inr ())" "scm_log (co_scm ?out) =
      [LocalComputer [Connect, CreateServiceAccess],
       CreateService (install_info ''command-api.exe'' demo_resolved) [QueryStatus, StartAccess, StopAccess, DeleteAccess, ChangeConfig],
       SetDescription (service_description (rc_windows_service demo_resolved))]"
    using p by (simp_all add: cli_run_def windows_install_def demo_load demo_cli_def scm_call_def demo_scm_def)
  have parse: "takes_plain_paths (demo_cli (CmdRun ''x'')) ''command-api.exe''" by (simp add: takes_plain_paths_def demo_cli_def)
  have empty: "scm_log demo_scm = []" by (simp add: demo_scm_def)
  have os: "cl_os (demo_cli (CmdRun ''x'')) = Windows" by (simp add: demo_cli_def)
  have canon: "canonical_plain demo_env ''/etc/api/config.yaml''" by (simp add: canonical_plain_def demo_env_def)
  from installed_service_runs [where H' = demo_host and M' = demo_scm, OF p log(1) parse os canon refl]
  show ?thesis using log(2) empty by (auto simp: Let_def)
qed

end
