(* ===== verification/Handover.thy ===== *)
theory Handover
  imports App Worker
begin

text \<open>
  The hand-over of a task to its worker: whatever happens to the executor, the first line on the control
  pipe is the specification that \<open>run_task\<close> made from the route and the request
  (\<open>src/src/process/mod.rs\<close>). The rules for coroutines come from \<open>Process\<close>.
\<close>

section \<open>The lines a worker is sent\<close>

fun control_lines :: "action list \<Rightarrow> bytes list" where
  "control_lines [] = []"
| "control_lines (ControlWritten l # tr) = l # control_lines tr"
| "control_lines (_ # tr) = control_lines tr"

lemma control_lines_append [simp]: "control_lines (xs @ ys) = control_lines xs @ control_lines ys"
  by (induction xs rule: control_lines.induct) simp_all

lemma control_lines_log [simp]:
  "control_lines (ex_trace (log_action a ex)) = control_lines (ex_trace ex) @ control_lines [a]"
  by (simp add: log_action_def)

text \<open>Nothing was written to the control pipe yet, or first of all \<open>l\<close>.\<close>

definition begins_with :: "bytes option \<Rightarrow> 't exec \<Rightarrow> bool" where
  "begins_with l ex \<longleftrightarrow> control_lines (ex_trace ex) = [] \<or> Some (hd (control_lines (ex_trace ex))) = l"

definition begun_with :: "bytes option \<Rightarrow> 't exec \<Rightarrow> bool" where
  "begun_with l ex \<longleftrightarrow> control_lines (ex_trace ex) \<noteq> [] \<and> Some (hd (control_lines (ex_trace ex))) = l"

interpretation begun: coroutine_invariant P "begun_with l" L for P :: "'t platform" and l L
  by unfold_locales (auto simp: begun_with_def ex_transition_eq split: prod.splits)

lemma begun_frame [simp]:
  "begun_with l (release_permits ex) = begun_with l ex" "begun_with l (close_control ex) = begun_with l ex"
  "begun_with l (leave_run P ex) = begun_with l ex" "begun_with l (snd (ex_transition L u ex)) = begun_with l ex"
  "begins_with l (leave_run P ex) = begins_with l ex" "begins_with l (snd (ex_transition L u ex)) = begins_with l ex"
  by (auto simp: begun_with_def begins_with_def release_permits_def close_control_def leave_run_def ex_transition_eq
      split: prod.splits)

interpretation begins: world_invariant "\<lambda>_ _. True" P "begins_with l" for P :: "'t platform" and l
  by unfold_locales (auto simp: begins_with_def)

lemma begun_begins: "begun_with l ex \<Longrightarrow> begins_with l ex"
  by (simp add: begun_with_def begins_with_def)

lemma init_triple:
  "triple (begins_with (init_line Q rt rargs))
     (case init_line Q rt rargs of None \<Rightarrow> fail SpecNotJson | Some line \<Rightarrow> act (ControlWritten line))
     (begun_with (init_line Q rt rargs)) (begins_with (init_line Q rt rargs))"
  by (auto simp: triple_def fail_def act_def begins_with_def begun_with_def hd_append split: option.split)

lemma launch_triple:
  fixes P :: "'t platform"
  shows "triple (begins_with (init_line Q rt rargs)) (launch L Q E P rt rargs)
    (begun_with (init_line Q rt rargs)) (begins_with (init_line Q rt rargs))"
proof -
  let ?l = "init_line Q rt rargs"
  have "keeps (begins_with l) (start_readers ok n rs :: 't exec \<Rightarrow> _)" for ok n rs l
    unfolding keeps_def using start_readers_frame by (metis begins_with_def prod.collapse)
  then have capture: "keeps (begins_with ?l) (start_capture E rt :: 't exec \<Rightarrow> _)"
    unfolding start_capture_def by (intro step_intros)
  have tree: "keeps (begins_with ?l) (set_tree t)" for t :: 't by (simp add: keeps_def set_tree_def begins_with_def)
  have spawn: "keeps (begins_with ?l) (spawn_worker E P)"
    by (auto simp: keeps_def spawn_worker_def begins_with_def split: option.splits)
  have sysop: "keeps (begins_with ?l) (ex_sysop g :: 't exec \<Rightarrow> _)" for g
    by (rule begins.sysop_keeps) simp
  have running: "keeps (begun_with ?l) (\<lambda>ex. ex_transition L (start_update (stamp Q (ex_now ex))) (ex :: 't exec))"
    by (simp add: keeps_def)
  show ?thesis
    unfolding launch_def
    by (rule triple_after [OF capture] triple_after [OF tree] triple_after [OF spawn] triple_after [OF sysop]
        triple_after [OF keeps_pure(3)] triple_before [OF init_triple])+
      (auto intro!: step_intros running begun_begins)
qed

lemma conclude_keeps:
  fixes P :: "'t platform"
  shows "keeps (begun_with l) (conclude L Q P t rt d)"
proof -
  have "keeps (begun_with l) (\<lambda>ex :: 't exec. join_readers [0..<length (ex_readers ex)] ex)"
    by (auto simp: keeps_def intro: begun.join_readers_keeps [unfolded keeps_def, rule_format])
  moreover have "keeps (begun_with l) (do_exec close_control)" "keeps (begun_with l) (do_exec release_permits)"
    by (simp_all add: keeps_def do_exec_def)
  moreover have "keeps (begun_with l) (\<lambda>ex :: 't exec. ex_transition L (final_update (stamp Q (ex_now ex)) why st) ex)" for why st
    by (simp add: keeps_def)
  ultimately show ?thesis
    unfolding conclude_def
    by (auto intro!: keeps_seq begun.wait_for_end_keeps begun.drain_tree_keeps split: prod.split)
qed

lemma start_task_begins:
  fixes P :: "'t platform"
  assumes "start_task L Q E P rt rargs ex st = (out, ex', st')" and "ex_trace ex = []"
  shows "begins_with (init_line Q rt rargs) ex'"
proof -
  let ?l = "init_line Q rt rargs" and ?ex = "ex\<lparr>ex_seen := length (stop_sent (ex_record ex))\<rparr>"
  have t: "triple (begins_with ?l) (run_task L Q E P rt rargs) (begun_with ?l) (begins_with ?l)"
    unfolding run_task_def
    by (rule triple_before [OF launch_triple]) (auto intro: conclude_keeps begun_begins)
  have i: "begins_with ?l ?ex" using assms(2) by (simp add: begins_with_def)
  obtain o1 e1 where r: "run_task L Q E P rt rargs ?ex = (o1, e1)" by fastforce
  from triple_outcome [OF t i r] have "begins_with ?l e1" by (cases o1) (auto intro: begun_begins)
  then show ?thesis using assms(1) r by (cases o1) (auto simp: start_task_def Let_def)
qed

end
