(* ===== verification/Conformance.thy ===== *)
theory Conformance
  imports Runtime Worker
begin

text \<open>
  The unit tests of the repository, run on the model. Each test function is transliterated to a
  definition of the same name that holds when all its assertions do; what a test leaves to a
  library (a YAML parser, regular expressions, cryptography) is an argument, with the library's
  documented behaviour on the inputs of the test as a hypothesis.
\<close>

text \<open>\<open>unwrap\<close> and an assertion on the value.\<close>

definition unwrapped :: "error + 'a \<Rightarrow> ('a \<Rightarrow> bool) \<Rightarrow> bool" where
  "unwrapped r P \<longleftrightarrow> (case r of Inl _ \<Rightarrow> False | Inr a \<Rightarrow> P a)"

section \<open>Configuration\<close>

definition executor_argument_order_is_stable :: bool where
  "executor_argument_order_is_stable \<longleftrightarrow>
     launcher_args Pwsh = [''-NoLogo'', ''-NoProfile'', ''-NonInteractive'', ''-ExecutionPolicy'', ''Bypass'', ''-File''] \<and>
     launcher_args Bash = []"

definition cmd_cannot_enable_untrusted_arguments :: bool where
  "cmd_cannot_enable_untrusted_arguments \<longleftrightarrow>
     isl (validate_route
       \<lparr>path = ''/cmd'', executor = Cmd, program = None, script = ''test.cmd'', fixed_args = [],
        request_args = request_args_default\<lparr>args_enabled := True\<rparr>, working_directory = None, env = [],
        max_concurrency = 1, max_execution_seconds = 10, graceful_shutdown_seconds = 1,
        merge_stdout_stderr = False, route_encoding = Utf8\<rparr>)"

text \<open>The configurations of the next two tests are YAML texts there, here what they deserialize to.\<close>

definition accepts_legacy_host_and_multiple_freely_configured_hosts :: bool where
  "accepts_legacy_host_and_multiple_freely_configured_hosts \<longleftrightarrow>
     (let legacy = \<lparr>hosts = deserialize_optional_hosts (One (V4 0x7F000001)), server_port = Some 27415, listeners = []\<rparr>;
          multiple = \<lparr>hosts = deserialize_optional_hosts (Many [V4 0x7F000001, V4 0, V6 0x20010DB8000000000000000000000001]),
                      server_port = Some 27415, listeners = []\<rparr>
      in hosts legacy = Some [V4 0x7F000001] \<and>
         unwrapped (resolve_server legacy) (\<lambda>ls. length ls = 1) \<and>
         unwrapped (resolve_server multiple) (\<lambda>ls. length ls = 3))"

definition supports_independent_ports_and_rejects_conflicting_server_forms :: bool where
  "supports_independent_ports_and_rejects_conflicting_server_forms \<longleftrightarrow>
     (let local = \<lambda>p. \<lparr>host = V4 0x7F000001, port = p\<rparr>;
          endpoints = \<lparr>hosts = None, server_port = None, listeners = [local 27415, local 27416]\<rparr>;
          conflicting = \<lparr>hosts = deserialize_optional_hosts (One (V4 0x7F000001)), server_port = None, listeners = [local 27415]\<rparr>
      in unwrapped (resolve_server endpoints) (\<lambda>ls. length ls = 2 \<and> port (ls ! 0) \<noteq> port (ls ! 1)) \<and>
         isl (resolve_server conflicting) \<and>
         isl (validate_listeners []) \<and> isl (validate_listeners [local 27415, local 27415]))"

definition allows_any_valid_cidr_but_still_requires_one :: bool where
  "allows_any_valid_cidr_but_still_requires_one \<longleftrightarrow>
     (let access = \<lparr>allowed_cidrs = [IpNet (V4 0) 0, IpNet (V6 0x20010DB8000000000000000000000000) 32],
                    token_failure_cooldown = cooldown_default\<rparr>
      in \<not> isl (validate_access access) \<and> isl (validate_access (access\<lparr>allowed_cidrs := []\<rparr>)))"

definition normalizes_ipv4_mapped_ipv6 :: bool where
  "normalizes_ipv4_mapped_ipv6 \<longleftrightarrow> normalize_ip (V6 0xFFFF0A840101) = V4 0x0A840101"

definition local_system_uses_the_scm_default_account :: bool where
  "local_system_uses_the_scm_default_account \<longleftrightarrow>
     account_name LocalSystem = None \<and>
     account_name LocalService = Some (''NT AUTHORITY'' @ [CHR 0x5C] @ ''LocalService'')"

definition node_pattern :: string where
  "node_pattern = ''^[a-z0-9_-]{1,16}$''"

definition request_argument_allowlist_accepts_values_and_patterns :: "(regex \<Rightarrow> string \<Rightarrow> bool) \<Rightarrow> bool" where
  "request_argument_allowlist_accepts_values_and_patterns is_match \<longleftrightarrow>
     (let route = \<lparr>r_path = ''/safe'', r_executor = Sh, r_program = ''sh'', r_script = ''test.sh'', r_fixed_args = [],
                   r_request_args = request_args_default\<lparr>args_enabled := True, allowed_values := [''status''],
                     allowed_patterns := [node_pattern]\<rparr>,
                   r_patterns = [Regex node_pattern], r_working_directory = ''.'', r_env = [], r_max_concurrency = 1,
                   r_max_execution_seconds = 1, r_graceful_shutdown_seconds = 1, r_merge_stdout_stderr = False,
                   r_output_encoding = Utf8\<rparr>
      in \<not> isl (validate_request_args is_match route [''status'', ''node-1'']) \<and>
         isl (validate_request_args is_match route [''; Remove-Item C:'' @ [CHR 0x5C] @ ''*'']))"

lemma config_tests_pass:
  "executor_argument_order_is_stable" "cmd_cannot_enable_untrusted_arguments"
  "accepts_legacy_host_and_multiple_freely_configured_hosts"
  "supports_independent_ports_and_rejects_conflicting_server_forms"
  "allows_any_valid_cidr_but_still_requires_one" "normalizes_ipv4_mapped_ipv6"
  "local_system_uses_the_scm_default_account"
  by code_simp+

lemma allowlist_test_passes:
  assumes "is_match (Regex node_pattern) ''node-1''"
    and "\<not> is_match (Regex node_pattern) (''; Remove-Item C:'' @ [CHR 0x5C] @ ''*'')"
  shows "request_argument_allowlist_accepts_values_and_patterns is_match"
proof -
  have n: "\<not> contains_any [NUL] ''status''" "\<not> contains_any [NUL] ''node-1''" by code_simp+
  show ?thesis
    using assms n
    by (simp add: request_argument_allowlist_accepts_values_and_patterns_def Let_def validate_request_args_def
        request_args_default_def default_max_arg_count_def default_max_arg_bytes_def default_max_total_arg_bytes_def
        usize_saturating_add_def and_then_def bail_if_def)
qed

section \<open>Tokens\<close>

definition rejects_weak_or_multiline_tokens :: bool where
  "rejects_weak_or_multiline_tokens \<longleftrightarrow>
     isl (validate_token ''short'') \<and> \<not> isl (validate_token (replicate 32 CHR ''x'')) \<and>
     isl (validate_token (replicate 32 CHR ''x'' @ [LF]))"

lemma token_test_passes: "rejects_weak_or_multiline_tokens"
  by code_simp

definition test_token :: string where
  "test_token = ''0123456789abcdef0123456789abcdef0123456789abcdef0123456789abcdef''"

definition other_token :: string where
  "other_token = ''abcdef0123456789abcdef0123456789abcdef0123456789abcdef0123456789''"

text \<open>The verifier is shared: each call leaves its cached fingerprint to the next.\<close>

definition pbkdf2_sha256_verifier_accepts_only_the_original_token_and_caches_success :: "crypto_lib \<Rightarrow> bool" where
  "pbkdf2_sha256_verifier_accepts_only_the_original_token_and_caches_success C \<longleftrightarrow>
     unwrapped (generate_pbkdf2_sha256 C test_token (min_pbkdf2_sha256_rounds C)) (\<lambda>hash.
       starts_with ''$pbkdf2-sha256$i=1000,l=32$'' hash \<and>
       unwrapped (from_pbkdf2_sha256 C hash) (\<lambda>verifier.
         let (first, v1) = verify C True verifier test_token;
             (second, v2) = verify C True v1 other_token;
             (third, _) = verify C True v2 test_token
         in first \<and> \<not> second \<and> third))"

definition pbkdf2_sha256_rejects_invalid_or_different_phc_algorithms :: "crypto_lib \<Rightarrow> bool" where
  "pbkdf2_sha256_rejects_invalid_or_different_phc_algorithms C \<longleftrightarrow>
     isl (from_pbkdf2_sha256 C ''not-a-phc-string'') \<and>
     isl (from_pbkdf2_sha256 C ''$argon2id$v=19$m=19456,t=2,p=1$c2FsdA$YWJjZA'')"

text \<open>The documented behaviour of the libraries on these inputs: the PHC text of a hash names its
  algorithm and parameters, and SHA-256 tells the two tokens apart.\<close>

definition test_crypto_ok :: "crypto_lib \<Rightarrow> bool" where
  "test_crypto_ok C \<longleftrightarrow> ct_eq_ok C \<and> pbkdf2_ok C \<and> min_rounds C = 1000 \<and> pbkdf2_params_new C 1000 \<and>
     (case pbkdf2_hash C 1000 test_token of
        None \<Rightarrow> False
      | Some hash \<Rightarrow> starts_with ''$pbkdf2-sha256$i=1000,l=32$'' hash) \<and>
     sha256_digest C other_token \<noteq> sha256_digest C test_token \<and>
     phc_parse C ''not-a-phc-string'' = None \<and>
     map_option phc_algorithm (phc_parse C ''$argon2id$v=19$m=19456,t=2,p=1$c2FsdA$YWJjZA'') \<noteq> Some ''pbkdf2-sha256''"

lemma test_tokens_valid:
  "validate_token test_token = Inr ()" "\<not> contains_any [CR, LF, NUL] test_token" "\<not> contains_any [CR, LF, NUL] other_token"
  "length test_token = 64" "length other_token = 64"
  by code_simp+

lemma pbkdf2_test_passes:
  assumes "test_crypto_ok C"
  shows "pbkdf2_sha256_verifier_accepts_only_the_original_token_and_caches_success C"
proof -
  from assms obtain hash where h: "pbkdf2_hash C 1000 test_token = Some hash" "starts_with ''$pbkdf2-sha256$i=1000,l=32$'' hash"
    by (auto simp: test_crypto_ok_def split: option.splits)
  have g: "generate_pbkdf2_sha256 C test_token (min_pbkdf2_sha256_rounds C) = Inr hash"
    using assms h test_tokens_valid
    by (simp add: generate_pbkdf2_sha256_def min_pbkdf2_sha256_rounds_def test_crypto_ok_def max_pbkdf2_sha256_rounds_def
        and_then_def bail_if_def or_err_def)
  from assms h(1) have p: "phc_parse C hash = Some \<lparr>phc_algorithm = ''pbkdf2-sha256'', phc_has_salt = True,
      phc_has_hash = True, phc_params = Some (1000, recommended_output_length C)\<rparr>" "pbkdf2_verify C hash test_token"
    by (auto simp: test_crypto_ok_def pbkdf2_ok_def)
  have f: "from_pbkdf2_sha256 C hash = Inr (Pbkdf2V hash None)"
    using p by (simp add: from_pbkdf2_sha256_def validate_pbkdf2_sha256_def max_pbkdf2_sha256_rounds_def
        and_then_def bail_if_def or_err_def)
  have "verify C True (Pbkdf2V hash None) test_token = (True, Pbkdf2V hash (Some (token_fingerprint C test_token)))"
    using p test_tokens_valid by (simp add: verify_def verify_start_def Let_def)
  moreover have "verify C True (Pbkdf2V hash (Some (token_fingerprint C test_token))) t =
      (t = test_token, Pbkdf2V hash (Some (token_fingerprint C test_token)))" if "t \<in> {test_token, other_token}" for t
    using that assms test_tokens_valid
    by (auto simp: verify_def verify_start_def Let_def test_crypto_ok_def ct_eq_ok_def token_fingerprint_def)
  moreover have "other_token \<noteq> test_token" using assms by (auto simp: test_crypto_ok_def)
  ultimately show ?thesis
    using g f h(2) by (simp add: pbkdf2_sha256_verifier_accepts_only_the_original_token_and_caches_success_def unwrapped_def)
qed

lemma phc_test_passes:
  assumes "test_crypto_ok C"
  shows "pbkdf2_sha256_rejects_invalid_or_different_phc_algorithms C"
  using assms
  by (auto simp: pbkdf2_sha256_rejects_invalid_or_different_phc_algorithms_def test_crypto_ok_def from_pbkdf2_sha256_def
      validate_pbkdf2_sha256_def and_then_def bail_if_def or_err_def split: option.splits)

section \<open>The command line of a script\<close>

definition configured_arguments_precede_request_arguments :: bool where
  "configured_arguments_precede_request_arguments \<longleftrightarrow>
     sc_args (build_script_command
       \<lparr>ws_executor = Bash, ws_program = ''bash'', ws_script = ''script.sh'', ws_fixed_args = [''--fixed'', ''one''],
        ws_request_args = [''--request'', ''two words''], ws_working_directory = ''.'', ws_env = [],
        ws_graceful_shutdown_seconds = 1\<rparr>) = [''script.sh'', ''--fixed'', ''one'', ''--request'', ''two words'']"

lemma arguments_test_passes: "configured_arguments_precede_request_arguments"
  by code_simp

section \<open>TLS\<close>

text \<open>A self-signed certificate with its key, which is its own client CA.\<close>

definition loads_matching_pem_certificate_key_and_client_ca :: "tls_lib \<Rightarrow> string \<Rightarrow> bytes \<Rightarrow> bytes \<Rightarrow> bool" where
  "loads_matching_pem_certificate_key_and_client_ca T temp cert_pem key_pem \<longleftrightarrow>
     (let certificate = path_join temp ''server.crt'';
          private_key = path_join temp ''server.key'';
          T' = T\<lparr>tl_open := (tl_open T)(certificate \<mapsto> cert_pem, private_key \<mapsto> key_pem)\<rparr>;
          config = \<lparr>certificate = certificate, private_key = private_key, client_ca_certificate = certificate\<rparr>
      in \<not> isl (load_tls_config T' config))"

lemma tls_test_passes:
  assumes "tl_certs T cert_pem = [Some c]" and "tl_key T key_pem = Some (Some k)" and "tl_root_add T c"
    and "tl_verifier T [c]" and "tl_single_cert T [c] k"
  shows "loads_matching_pem_certificate_key_and_client_ca T temp cert_pem key_pem"
proof -
  have "path_join temp ''server.crt'' \<noteq> path_join temp ''server.key''" by (simp add: path_join_def)
  with assms show ?thesis
    by (simp add: loads_matching_pem_certificate_key_and_client_ca_def Let_def load_tls_config_def and_then_def or_err_def bail_if_def)
qed

section \<open>Authentication\<close>

text \<open>
  The application of the test: one allowed block, a cooldown of ten seconds, a token given by its
  PBKDF2 hash. Its four requests ask for the index; each is served at some instant and leaves its
  state to the next.
\<close>

definition test_access :: access_config where
  "test_access = \<lparr>allowed_cidrs = [IpNet (V4 0x7F000000) 8],
     token_failure_cooldown = \<lparr>cooldown_enabled = True, cooldown_seconds = 10,
       max_tracked_ips = default_token_failure_max_tracked_ips\<rparr>\<rparr>"

definition test_request :: "32 word \<Rightarrow> bool \<Rightarrow> http_request" where
  "test_request ip authorized =
     \<lparr>rq_peer = Some (V4 ip), rq_authorization = (if authorized then Some (''Bearer '' @ test_token) else None)\<rparr>"

definition status_of :: "response option \<Rightarrow> status_code option" where
  "status_of r = map_option rs_status r"

definition every_endpoint_requires_authentication ::
  "app_lib \<Rightarrow> draw \<Rightarrow> (nat \<Rightarrow> instant) \<Rightarrow> resolved_config \<Rightarrow> task_store \<Rightarrow> fs \<Rightarrow> bool" where
  "every_endpoint_requires_authentication A d clock c store f \<longleftrightarrow>
     (case build A c store of
        None \<Rightarrow> False
      | Some app \<Rightarrow>
         (let (s1, f1, r1) = serve A True (clock 0) (clock 1) d (test_request 0x7F000001 False) Index app f;
              (s2, f2, r2) = serve A True (clock 2) (clock 3) d (test_request 0x7F000001 True) Index s1 f1;
              (s3, f3, r3) = serve A True (clock 4) (clock 5) d (test_request 0x0A000001 True) Index s2 f2;
              (s4, f4, r4) = serve A True (clock 6) (clock 7) d (test_request 0x7F000002 True) Index s3 f3
          in status_of r1 = Some UNAUTHORIZED \<and>
             status_of r2 = Some TOO_MANY_REQUESTS \<and>
             (case r2 of Some r \<Rightarrow> list_ex (\<lambda>h. case h of RetryAfter n \<Rightarrow> 1 \<le> n \<and> n \<le> 10 | _ \<Rightarrow> False) (rs_headers r) | None \<Rightarrow> False) \<and>
             status_of r3 = Some FORBIDDEN \<and>
             status_of r4 = Some OK))"

text \<open>Containment in an IPv4 block, as the \<open>ipnet\<close> crate documents it.\<close>

definition v4_contains_ok :: "app_lib \<Rightarrow> bool" where
  "v4_contains_ok A \<longleftrightarrow> (\<forall>n l a. l \<le> 32 \<longrightarrow> al_contains A (IpNet (V4 n) l) (V4 a) = (drop_bit (32 - l) a = drop_bit (32 - l) n))"

lemma retry_after_bounds:
  assumes "0 < d" and "d \<le> 10 * nanos_per_sec"
  shows "1 \<le> (of_nat (d div nanos_per_sec) + (if d mod nanos_per_sec > 0 then 1 else 0) :: u64) \<and>
    (of_nat (d div nanos_per_sec) + (if d mod nanos_per_sec > 0 then 1 else 0) :: u64) \<le> 10"
proof -
  let ?n = "d div nanos_per_sec + (if d mod nanos_per_sec > 0 then 1 else 0)"
  have d: "d = d div nanos_per_sec * nanos_per_sec + d mod nanos_per_sec" by simp
  have "1 \<le> ?n" using d assms(1) by (cases "d div nanos_per_sec") auto
  moreover have "?n \<le> 10"
  proof (cases "d mod nanos_per_sec > 0")
    case True
    with d assms(2) have "d div nanos_per_sec * nanos_per_sec < 10 * nanos_per_sec" by linarith
    with True show ?thesis by simp
  next
    case False
    with d assms(2) have "d div nanos_per_sec * nanos_per_sec \<le> 10 * nanos_per_sec" by linarith
    with False show ?thesis by (simp add: nanos_per_sec_def)
  qed
  moreover have "1 \<le> n \<Longrightarrow> n \<le> 10 \<Longrightarrow> 1 \<le> (of_nat n :: u64) \<and> (of_nat n :: u64) \<le> 10" for n
    by (simp add: word_le_nat_alt unat_of_nat)
  ultimately have "1 \<le> (of_nat ?n :: u64) \<and> (of_nat ?n :: u64) \<le> 10" by blast
  then show ?thesis by (simp only: of_nat_add) (simp split: if_splits)
qed

theorem authentication_test_passes:
  assumes "rc_access c = test_access" and "rc_token c = Pbkdf2V phc None" and "build A c store = Some app"
    and "phc_parse (al_crypto A) phc \<noteq> None" and "pbkdf2_verify (al_crypto A) phc test_token"
    and "v4_contains_ok A" and "al_to_str A (''Bearer '' @ test_token) = Some (''Bearer '' @ test_token)"
    and "al_order A Map.empty = []"
    and "clock 1 \<le> clock 2" and "clock 2 < clock 1 + 10 * nanos_per_sec" and "clock 1 + 10 * nanos_per_sec \<le> al_instant_max A"
  shows "every_endpoint_requires_authentication A d clock c store f"
proof -
  have app: "as_allowed_cidrs app = [IpNet (V4 0x7F000000) 8]" "as_cooldown app = token_failure_cooldown test_access"
    "as_failures app = Map.empty" "as_token app = Pbkdf2V phc None"
    using assms(1-3) by (auto simp: build_def test_access_def split: if_splits)
  have ips: "al_contains A (IpNet (V4 0x7F000000) 8) (V4 0x7F000001)" "\<not> al_contains A (IpNet (V4 0x7F000000) 8) (V4 0x0A000001)"
    "al_contains A (IpNet (V4 0x7F000000) 8) (V4 0x7F000002)"
    using assms(6) by (simp_all add: v4_contains_ok_def)
  let ?until = "clock 1 + 10 * nanos_per_sec"
  let ?s1 = "app\<lparr>as_failures := [V4 0x7F000001 \<mapsto> ?until]\<rparr>"
  have b: "bearer_token A (Some (''Bearer '' @ test_token)) = Some test_token"
    using assms(7) by (simp add: bearer_token_def strip_prefix_def starts_with_def)
  have until: "instant_add_secs (al_instant_max A) (clock 1) 10 = Some ?until"
    using assms(11) by (simp add: instant_add_secs_def)
  obtain r1 where 1: "serve A True (clock 0) (clock 1) d (test_request 0x7F000001 False) Index app f = (?s1, f, Some r1)"
    "rs_status r1 = UNAUTHORIZED"
    using ips until assms(8)
    by (simp add: serve_def authenticate_def test_request_def app cooldown_remaining_def test_access_def bearer_token_def
        record_auth_failure_def retain_unexpired_def Let_def default_token_failure_max_tracked_ips_def error_response_status)
  obtain r2 where 2: "serve A True (clock 2) (clock 3) d (test_request 0x7F000001 True) Index ?s1 f = (?s1, f, Some r2)"
    "rs_status r2 = TOO_MANY_REQUESTS"
    "rs_headers r2 = [RetryAfter (of_nat ((?until - clock 2) div nanos_per_sec) +
       (if (?until - clock 2) mod nanos_per_sec > 0 then 1 else 0))]"
    using ips assms(10)
    by (simp add: serve_def authenticate_def test_request_def app cooldown_remaining_def test_access_def Let_def error_response_status)
  obtain r3 where 3: "serve A True (clock 4) (clock 5) d (test_request 0x0A000001 True) Index ?s1 f = (?s1, f, Some r3)"
    "rs_status r3 = FORBIDDEN"
    using ips by (simp add: serve_def authenticate_def test_request_def app error_response_status)
  obtain s4 r4 where 4: "serve A True (clock 6) (clock 7) d (test_request 0x7F000002 True) Index ?s1 f = (s4, f, Some r4)"
    "rs_status r4 = OK"
    using ips assms(4,5) b test_tokens_valid
    by (auto simp: serve_def authenticate_def test_request_def app cooldown_remaining_def test_access_def Let_def
        verify_def verify_start_def index_def)
  have "0 < ?until - clock 2" "?until - clock 2 \<le> 10 * nanos_per_sec" using assms(9,10) by simp_all
  from retry_after_bounds [OF this] 1 2 3 4 assms(3) show ?thesis
    by (simp add: every_endpoint_requires_authentication_def status_of_def)
qed

section \<open>The hypotheses can hold\<close>

definition test_prefix :: string where
  "test_prefix = ''$pbkdf2-sha256$i=1000,l=32$''"

definition test_crypto :: crypto_lib where
  "test_crypto =
     \<lparr>sha256_digest = (\<lambda>b. b), ct_eq = (=),
      phc_parse = (\<lambda>s. if starts_with test_prefix s
         then Some \<lparr>phc_algorithm = ''pbkdf2-sha256'', phc_has_salt = True, phc_has_hash = True, phc_params = Some (1000, 32)\<rparr>
         else None),
      pbkdf2_verify = (\<lambda>phc t. phc = test_prefix @ t), pbkdf2_params_new = (\<lambda>r. r \<ge> 1000),
      pbkdf2_hash = (\<lambda>r t. if r = 1000 then Some (test_prefix @ t) else None),
      recommended_output_length = 32, recommended_rounds = 600000, min_rounds = 1000\<rparr>"

lemma test_prefix_starts: "starts_with test_prefix (test_prefix @ t)"
  by (simp add: starts_with_def)

lemma test_crypto_satisfies: "test_crypto_ok test_crypto"
proof -
  have "starts_with ''$pbkdf2-sha256$i=1000,l=32$'' (test_prefix @ test_token)"
    using test_prefix_starts [of test_token] by (simp add: test_prefix_def)
  moreover have "other_token \<noteq> test_token" by code_simp
  moreover have "\<not> starts_with test_prefix ''not-a-phc-string''"
    "\<not> starts_with test_prefix ''$argon2id$v=19$m=19456,t=2,p=1$c2FsdA$YWJjZA''" by code_simp+
  ultimately show ?thesis
    by (simp add: test_crypto_ok_def test_crypto_def ct_eq_ok_def pbkdf2_ok_def test_prefix_starts)
qed

lemma secret_tests_pass:
  "pbkdf2_sha256_verifier_accepts_only_the_original_token_and_caches_success test_crypto"
  "pbkdf2_sha256_rejects_invalid_or_different_phc_algorithms test_crypto"
  using pbkdf2_test_passes phc_test_passes test_crypto_satisfies by blast+

lemma tls_test_runs: "loads_matching_pem_certificate_key_and_client_ca demo_tls_lib ''/tmp'' ''cert'' ''key''"
  by (rule tls_test_passes) (simp_all add: demo_tls_lib_def)

definition test_app_lib :: app_lib where
  "test_app_lib = demo_app_lib\<lparr>al_crypto := test_crypto, al_to_str := Some,
     al_contains := (\<lambda>b ip. case (b, ip) of
        (IpNet (V4 n) l, V4 a) \<Rightarrow> drop_bit (32 - l) a = drop_bit (32 - l) n | _ \<Rightarrow> False)\<rparr>"

theorem authentication_test_passes_witness:
  "every_endpoint_requires_authentication test_app_lib demo_draw (\<lambda>n. n)
     (demo_resolved\<lparr>rc_access := test_access, rc_token := Pbkdf2V (test_prefix @ test_token) None\<rparr>)
     (demo_store demo_record) (demo_fs [] (\<lambda>_. None))"
proof -
  obtain app where b: "build test_app_lib (demo_resolved\<lparr>rc_access := test_access, rc_token := Pbkdf2V (test_prefix @ test_token) None\<rparr>)
      (demo_store demo_record) = Some app"
    by (simp add: build_def demo_config_defs test_app_lib_def demo_app_lib_def max_permits_def)
  have m: "al_instant_max test_app_lib = al_instant_max demo_app_lib" by (simp add: test_app_lib_def)
  show ?thesis
    by (rule authentication_test_passes [OF _ _ b, where phc = "test_prefix @ test_token"])
      (simp_all add: test_app_lib_def test_crypto_def test_prefix_starts v4_contains_ok_def nanos_per_sec_def demo_app_lib_def)
qed

end
