(* ===== verification/Spec2Isabelle.thy ===== *)
theory Spec2Isabelle
  imports Secret Config Schedule Progress Lifecycle Worker App System Runtime Service Cli Handover Conformance
begin

text \<open>
  \<^bold>\<open>command-api\<close>: a small HTTP server that runs configured scripts as tasks.

  \<^bold>\<open>The program.\<close> A client with the configured token posts arguments to a route. The server
  (\<open>src/src/app.rs\<close>) authenticates the request, validates the arguments against the route
  (\<open>src/src/config.rs\<close>), takes a global permit and one of the route, creates a task in the store
  (\<open>src/src/store.rs\<close>: a journal and output files per task) and hands it to an executor
  (\<open>src/src/process/mod.rs\<close>). The executor starts the program again as a worker, sends it the
  specification of the task over its standard input, captures its output within a byte budget, and
  supervises it until its process tree (\<open>src/src/process/platform.rs\<close>) is gone. The worker runs
  the script and watches the control pipe. Around this, \<open>src/src/runtime.rs\<close> runs the listeners in a
  loop that also serves restarts and shutdown, \<open>src/src/service.rs\<close> connects it to the Windows Service
  Control Manager, \<open>src/src/secret.rs\<close> verifies tokens and keeps DPAPI key files, and
  \<open>src/src/main.rs\<close> is the command line.

  \<^bold>\<open>The theories\<close>, each importing those it needs:
  \<^item> \<open>Prelude\<close>, \<open>Std\<close>: machine integers as words, Rust strings as bytes, the error
    combinators, paths, lines and their UTF-8 check, IP addresses, instants; \<open>result_simps\<close>,
    \<open>text_simps\<close> and \<open>step_intros\<close> collect the facts the component proofs share.
  \<^item> \<open>Model\<close>: the types of \<open>model.rs\<close> and one constructor per error the program reports.
  \<^item> \<open>Secret\<close>: the token verifier with its cache, as a step relation for concurrent requests;
    only genuine tokens are accepted, generated hashes verify, key files load back.
  \<^item> \<open>Config\<close>: the configuration and \<open>load\<close>; what loads satisfies every documented constraint,
    and request arguments are admitted exactly as documented.
  \<^item> \<open>Files\<close>, \<open>Store\<close>: a file system in which every call may fail and a failed append may
    leave a torn tail; journals, recovery (which refines a map from tasks to last snapshots), output
    chunks, stop requests, expiry.
  \<^item> \<open>Capture\<close>: the reader threads and the budget they share, in every interleaving.
  \<^item> \<open>Platform\<close>: process trees as sequences of system calls with arbitrary answers, for Unix and Windows.
  \<^item> \<open>Process\<close>: the executor as a coroutine over a schedule (the batches of outside events between
    its polls and the choices of \<open>select!\<close>); the locales \<open>poll_relation\<close>, \<open>world_invariant\<close>
    and \<open>coroutine_invariant\<close> are its frame rules, interpreted for every invariant used, and
    \<open>triple\<close> its Hoare rules. Permits are released once, before an end is published; tasks that end
    are finished; what clients read agrees.
  \<^item> \<open>Schedule\<close>: no kill comes before the grace period is over; a panic strands its task.
  \<^item> \<open>Progress\<close>: the coroutine returns in every schedule in which the worker exits, the pipes close
    and, on Windows, the job object empties; the locale \<open>settling_tree\<close> is what this needs of a
    platform.
  \<^item> \<open>Lifecycle\<close>: the statuses of a task refine an automaton.
  \<^item> \<open>Worker\<close>: the worker, its waiting loop a \<open>partial_function\<close> with a proof that it ends.
  \<^item> \<open>App\<close>: state, gate, cooldown table (locale \<open>failure_table\<close>) and handlers, and the reachable
    states under requests and task ends: permits are never lost, limits hold, nothing happens without
    authentication, at most one transition of the service is accepted.
  \<^item> \<open>System\<close>: the application composed with its executors, expiry and shutdown. An executor is known
    by its contract, which \<open>start_task\<close> keeps; the counter of active tasks, the permits and the
    statuses agree in every state.
  \<^item> \<open>Signals\<close>: the console signals, the shutdown channel, and the task that chooses between a
    shutdown and a management message.
  \<^item> \<open>Runtime\<close>: the service loop, logging, TLS material, \<open>wait_until_idle\<close> beside the
    executors, and the shutdown sequence.
  \<^item> \<open>Service\<close>: the commands for the Service Control Manager and the service's main function with
    its control handler and stop thread.
  \<^item> \<open>Cli\<close>: the commands, the reading of tokens, and exit codes.
  \<^item> \<open>Handover\<close>: the first line a worker receives is its specification.
  \<^item> \<open>Conformance\<close>: the unit tests of the repository, which the model passes.
  \<^item> This theory: what an accepted request finally executes.

  \<^bold>\<open>Conventions.\<close> A fallible function returns \<open>error + 'a\<close>; a panic is an outcome of its own
  where the program can meet one. Code outside the repository (serde, axum, rustls, clap, PBKDF2, DPAPI,
  regular expressions, text decoding, the operating system) is an argument: a record of functions with the suffix
  \<open>_lib\<close> or \<open>_env\<close>, or a sequence of answers. What a theorem needs of such code is a named
  hypothesis (\<open>pbkdf2_ok\<close>, \<open>dpapi_ok\<close>, \<open>ct_eq_ok\<close>, a JSON round trip), and the
  \<open>demo\<close> definitions show that it can hold. Time is a number of nanoseconds; sums that panic on
  overflow in the program do so in the model.

  \<^bold>\<open>Granularity.\<close> A handler of the server is one step, and so are the creation of a task and a status
  change with its journal record. The program awaits inside them: while a task is being created its permits
  are taken and its record may be visible before it is counted as active. What the theorems on reachable
  states say holds between handlers, not at those inner points. Reader threads, token verifications,
  \<open>wait_until_idle\<close> and the service's threads interleave step by step. Paths follow the rules of Unix, also
  where Windows is modelled.

  \<^bold>\<open>Bounds and fuel.\<close> Trimming of strings uses their length as fuel, each round removing at least
  one byte. A schedule is a finite list of batches: when it is used up the coroutine is \<open>Pending\<close>, and
  \<open>unix_task_ends\<close> and \<open>windows_task_ends\<close> show which schedules suffice. The rounds of the service
  loop are a list as well; when it is used up the service is still running. The loops of the worker are
  partial functions; where they end is proved, and on Windows the sleep of a worker whose script outlives the
  grace period is a call that does not return.

  \<^bold>\<open>Not modelled.\<close> The text of log lines, the redacting \<open>Debug\<close> implementations, zeroing of
  secrets in memory, and the inside of HTTP parsing and TLS: a request arrives as an endpoint with its
  decoded body. Of the tests, the end-to-end ones and two that only exercise libraries are left out;
  scripts and container files are not part of the program.
\<close>

section \<open>From the request to the process\<close>

text \<open>
  C1. From the request to the process: for every task that the server has accepted, the worker runs
  the program and the script of the task's route, with the launcher's options, the script's
  path, the configured arguments and exactly the arguments of the request, in the configured directory
  and environment; and every one of the request's arguments is one that the route admits.
\<close>

theorem accepted_task_runs_configured_command:
  assumes "app_reachable A c s" and "t \<in> set (as_running s)" and "as_routes s (st_path t) = Some rt"
    and "start_task L Q E P (rt_config rt) (st_args t) ex st = (out, ex', st')" and "ex_trace ex = []"
    and "control_lines (ex_trace ex') = line # rest" and "we_init W = ControlLine line"
    and "run_worker Q P' W S = (Some cmd, res)"
    and "\<forall>spec l. spec_to_json Q spec = Some l \<longrightarrow> spec_from_json Q (trim_end (l @ [LF])) = Some spec"
  shows "rt_config rt \<in> set (rc_routes c) \<and> sc_program cmd = r_program (rt_config rt) \<and>
    sc_args cmd = launcher_args (r_executor (rt_config rt)) @ [r_script (rt_config rt)] @ r_fixed_args (rt_config rt) @ st_args t \<and>
    sc_current_dir cmd = r_working_directory (rt_config rt) \<and> sc_envs cmd = r_env (rt_config rt) \<and>
    (\<forall>a\<in>set (st_args t). arg_admitted (al_is_match A) (rt_config rt) a)"
proof -
  from start_task_begins [OF assms(4,5)] assms(6) have "init_line Q (rt_config rt) (st_args t) = Some line"
    by (simp add: begins_with_def)
  with assms(9) have "spec_from_json Q (trim_end line) = Some (worker_spec_of (rt_config rt) (st_args t))"
    by (auto simp: init_line_def)
  with assms(7,8) have "cmd = build_script_command (worker_spec_of (rt_config rt) (st_args t))"
    by (auto simp: run_worker_def worker_init_def split: prod.splits sum.splits if_splits)
  moreover have "\<forall>a\<in>set (st_args t). arg_admitted (al_is_match A) (rt_config rt) a"
    using running_admitted(1) [OF assms(1-3)]
    by (auto simp: validate_request_args_def Let_def result_simps validate_request_args_loop_ok)
  ultimately show ?thesis
    using running_admitted(2) [OF assms(1-3)] by (simp add: build_script_command_def worker_spec_of_def)
qed

section \<open>Witnesses\<close>

definition demo_task_spec :: worker_spec where
  "demo_task_spec = worker_spec_of demo_resolved_route [''status'']"

definition demo_task_lib :: proc_lib where
  "demo_task_lib = \<lparr>spec_to_json = (\<lambda>spec. if spec = demo_task_spec then Some ''{}'' else None),
     spec_from_json = (\<lambda>l. if l = ''{}'' then Some demo_task_spec else None),
     stamp = (\<lambda>_. ''t''), instant_max = 100 * nanos_per_sec\<rparr>"

lemma demo_accepted:
  obtains s where "app_reachable demo_app_lib demo_resolved s"
    and "as_running s = [\<lparr>st_id = 1, st_path = ''/run'', st_args = [''status'']\<rparr>]"
    and "\<exists>rt. as_routes s ''/run'' = Some rt \<and> rt_config rt = demo_resolved_route"
proof -
  obtain s0 where b: "build demo_app_lib demo_resolved (demo_store demo_record) = Some s0"
    by (simp add: build_def demo_config_defs demo_app_lib_def max_permits_def)
  from demo_submit [OF this demo_store_root] obtain s f r where
    sv: "serve demo_app_lib True 0 0 demo_draw demo_submission (Execute ''/run'' \<lparr>args = [''status'']\<rparr>) s0 (demo_fs [] (\<lambda>_. None)) = (s, f, r)"
    and s: "as_running s = [\<lparr>st_id = 1, st_path = ''/run'', st_args = [''status'']\<rparr>]"
      "as_routes s ''/run'' = Some ((runtime_of demo_resolved_route)\<lparr>rt_limit := 0\<rparr>)" .
  have "app_reachable demo_app_lib demo_resolved s" using ar_step [OF ar_build [OF b] as_request [OF sv]] .
  with s that show ?thesis by (simp add: runtime_of_def)
qed

lemma demo_submitted:
  obtains ex' st' where "start_task demo_store_lib demo_task_lib demo_start (unix_platform 7) demo_resolved_route [''status'']
      (demo_exec []) st = (Pending, ex', st')"
    and "control_lines (ex_trace ex') = [''{}'' @ [LF]]"
proof -
  obtain f where f: "transition demo_store_lib (start_update ''t'') demo_record (demo_fs [] (\<lambda>_. None)) =
      (update_snapshot (start_update ''t'') demo_record, f, Inr ())"
    by (rule demo_transition [of "demo_fs [] (\<lambda>_. None)"]) (simp_all add: demo_fs_def)
  have s: "status (start_update ts x) = Running" for ts x by (simp add: start_update_def)
  have "launch demo_store_lib demo_task_lib demo_start (unix_platform 7) demo_resolved_route [''status''] (demo_exec []) =
     (Ret (\<lparr>tree_pid = Some 7\<rparr>, 10 * nanos_per_sec), demo_running [] f)"
    unfolding launch_def start_capture_def
    by (simp add: seq_def demo_exec_defs demo_task_lib_def demo_task_spec_def demo_resolved_route_def route_mode_def ensure_def
        ex_sysop_def set_tree_def spawn_worker_def act_def log_action_def ret_def deadline_in_def
        instant_add_secs_def unix_platform_def unix_new_def unix_attach_def ex_transition_def f s demo_running_def)
  moreover have "poll_main (10 * nanos_per_sec) (demo_running [] f) = (None, demo_running [] f)"
    by (simp add: poll_main_def main_ready_def pick_ready_def demo_seen nanos_per_sec_def)
  ultimately have "run_task demo_store_lib demo_task_lib demo_start (unix_platform 7) demo_resolved_route [''status''] (demo_exec []) =
      (Pending, demo_running [] f)"
    by (simp add: run_task_def conclude_def wait_for_end_def seq_def await_def demo_seen)
  moreover have "control_lines (ex_trace (demo_running [] f)) = [''{}'' @ [LF]]" by (simp add: demo_running_def)
  moreover have "demo_exec []\<lparr>ex_seen := length (stop_sent (ex_record (demo_exec [])))\<rparr> = demo_exec []"
    by (simp add: demo_exec_def demo_record_def record_new_def)
  ultimately show ?thesis using that by (simp add: start_task_def Let_def)
qed

theorem accepted_task_runs_configured_command_witness:
  "\<exists>cmd res. run_worker demo_task_lib (unix_platform 7) ((demo_worker (Some (ExitCode 0)))\<lparr>we_init := ControlLine (''{}'' @ [LF])\<rparr>)
       (demo_sys (\<lambda>_. Success 0)) = (Some cmd, res) \<and> sc_args cmd = [''/etc/api/run.sh'', ''fixed'', ''status'']"
proof -
  let ?W = "(demo_worker (Some (ExitCode 0)))\<lparr>we_init := ControlLine (''{}'' @ [LF])\<rparr>"
  have trim: "trim_end (''{}'' @ [LF]) = ''{}''" by code_simp
  then have json: "\<forall>spec l. spec_to_json demo_task_lib spec = Some l \<longrightarrow> spec_from_json demo_task_lib (trim_end (l @ [LF])) = Some spec"
    by (auto simp: demo_task_lib_def split: if_splits)
  obtain s rt where s: "app_reachable demo_app_lib demo_resolved s" "as_running s = [\<lparr>st_id = 1, st_path = ''/run'', st_args = [''status'']\<rparr>]"
    "as_routes s ''/run'' = Some rt" "rt_config rt = demo_resolved_route" by (rule demo_accepted) blast
  obtain ex' st' where t: "start_task demo_store_lib demo_task_lib demo_start (unix_platform 7) demo_resolved_route [''status'']
      (demo_exec []) (demo_store demo_record) = (Pending, ex', st')" "control_lines (ex_trace ex') = [''{}'' @ [LF]]"
    by (rule demo_submitted)
  have "spec_from_json demo_task_lib (trim_end (''{}'' @ [LF])) = Some demo_task_spec" using trim by (simp add: demo_task_lib_def)
  then obtain cmd res where w: "run_worker demo_task_lib (unix_platform 7) ?W (demo_sys (\<lambda>_. Success 0)) = (Some cmd, res)"
    by (simp add: run_worker_def worker_init_def demo_worker_def demo_sys_def unix_platform_def unix_worker_setup_def call_or_def do_call_def)
  let ?t = "\<lparr>st_id = 1, st_path = ''/run'', st_args = [''status'']\<rparr>"
  have run: "?t \<in> set (as_running s)" "as_routes s (st_path ?t) = Some rt"
    "start_task demo_store_lib demo_task_lib demo_start (unix_platform 7) (rt_config rt) (st_args ?t) (demo_exec [])
       (demo_store demo_record) = (Pending, ex', st')" "ex_trace (demo_exec [] :: unix_tree exec) = []"
    using s t by (simp_all add: demo_exec_def)
  have "we_init ?W = ControlLine (''{}'' @ [LF])" by simp
  from accepted_task_runs_configured_command [OF s(1) run t(2) this w json]
  have "sc_args cmd = launcher_args (r_executor (rt_config rt)) @ [r_script (rt_config rt)] @ r_fixed_args (rt_config rt) @ [''status'']"
    by simp
  with w s(4) show ?thesis by (auto simp: demo_resolved_route_def)
qed

end
